(* ===== verification/Prelude.thy ===== *)
theory Prelude
  imports Main "HOL-Library.Word" "HOL-Library.List_Lexorder" "HOL-Library.Product_Lexorder"
begin

text \<open>
  The shared base of the development: results of code that can fail, the ordered containers
  of the C++ standard library that the program iterates over, the growing vector of
  \<^verbatim>\<open>pagemap_vector\<close>, and the collections of rewrite rules the components share.

  \<^item> \<open>failure\<close> lists the ways in which the C++ code stops: a failed \<open>assert\<close>, an exception of
    \<open>std::vector::at\<close>, \<open>error (1, ...)\<close> which ends the process. \<open>andThen\<close> sequences steps and
    stops at the first failure.
  \<^item> \<open>oset_insert\<close>, \<open>oset_erase\<close>: \<open>std::set\<close> as the strictly increasing list in which the code
    iterates over it. The locale \<open>ordered_set\<close> is the contract the pager relies on.
  \<^item> \<open>omap_get\<close>, \<open>omap_put\<close>, \<open>omap_erase\<close>: \<open>std::map\<close> as an association list in key order. The
    locale \<open>ordered_map\<close> is its contract.
\<close>

named_theorems frame_simps \<open>fields an operation leaves alone\<close>
named_theorems write_simps \<open>fields an operation writes\<close>

section \<open>Results of code that can fail\<close>

datatype failure =
    Assert_failed string
  | Out_of_range string
  | Process_exit string

type_synonym 'a result = "failure + 'a"

definition andThen :: "'a result \<Rightarrow> ('a \<Rightarrow> 'b result) \<Rightarrow> 'b result" where
  "andThen r f = (case r of Inl e \<Rightarrow> Inl e | Inr x \<Rightarrow> f x)"

definition assert_that :: "bool \<Rightarrow> string \<Rightarrow> 'a \<Rightarrow> 'a result" where
  "assert_that b what x = (if b then Inr x else Inl (Assert_failed what))"

primrec for_each :: "('x \<Rightarrow> 'a \<Rightarrow> 'a result) \<Rightarrow> 'x list \<Rightarrow> 'a \<Rightarrow> 'a result" where
  "for_each f [] s = Inr s"
| "for_each f (x # xs) s = andThen (f x s) (for_each f xs)"

text \<open>A loop that rewrites the elements of an array in place.\<close>

primrec map_state :: "('x \<Rightarrow> 's \<Rightarrow> ('x \<times> 's) result) \<Rightarrow> 'x list \<Rightarrow> 's \<Rightarrow> ('x list \<times> 's) result" where
  "map_state f [] s = Inr ([], s)"
| "map_state f (x # xs) s = andThen (f x s) (\<lambda>(y, s'). andThen (map_state f xs s') (\<lambda>(ys, s''). Inr (y # ys, s'')))"

text \<open>\<open>std::map::at\<close>, which throws for a missing key, and \<open>operator[]\<close>, which inserts a default.\<close>

definition map_at :: "string \<Rightarrow> ('k \<rightharpoonup> 'v) \<Rightarrow> 'k \<Rightarrow> 'v result" where
  "map_at what m k = (case m k of None \<Rightarrow> Inl (Out_of_range what) | Some v \<Rightarrow> Inr v)"

definition map_touch :: "'v \<Rightarrow> ('k \<rightharpoonup> 'v) \<Rightarrow> 'k \<Rightarrow> 'v \<times> ('k \<rightharpoonup> 'v)" where
  "map_touch d m k = (case m k of None \<Rightarrow> (d, m(k \<mapsto> d)) | Some v \<Rightarrow> (v, m))"

lemma andThen_simps [simp]:
  "andThen (Inl e) f = Inl e"
  "andThen (Inr x) f = f x"
  by (simp_all add: andThen_def)

lemma andThen_Inr_iff [simp]:
  "andThen r f = Inr y \<longleftrightarrow> (\<exists>x. r = Inr x \<and> f x = Inr y)"
  by (cases r) auto

lemma andThen_cong [fundef_cong]:
  "r = r' \<Longrightarrow> (\<And>x. r' = Inr x \<Longrightarrow> f x = f' x) \<Longrightarrow> andThen r f = andThen r' f'"
  by (cases r') auto

lemma andThen_assoc: "andThen (andThen r f) g = andThen r (\<lambda>x. andThen (f x) g)"
  by (cases r) simp_all

lemma andThen_eqI: "(\<And>x. r = Inr x \<Longrightarrow> f x = g x) \<Longrightarrow> andThen r f = andThen r g"
  by (cases r) simp_all

lemma for_each_append: "for_each f (xs @ ys) s = andThen (for_each f xs s) (for_each f ys)"
  by (induction xs arbitrary: s) (auto simp: andThen_def split: sum.splits)

lemma assert_that_Inr_iff [simp]:
  "assert_that b what x = Inr y \<longleftrightarrow> b \<and> y = x"
  by (auto simp: assert_that_def)

lemma assert_that_True [simp]: "b \<Longrightarrow> assert_that b what x = Inr x"
  by (simp add: assert_that_def)

text \<open>An invariant of every step of a loop is an invariant of the loop.\<close>

lemma for_each_invariant:
  assumes step: "\<And>x s s'. x \<in> set xs \<Longrightarrow> I s \<Longrightarrow> f x s = Inr s' \<Longrightarrow> I s'"
    and "I s" and "for_each f xs s = Inr s'"
  shows "I s'"
  using assms
proof (induction xs arbitrary: s)
  case Nil
  then show ?case by simp
next
  case (Cons x xs)
  from Cons.prems(3) obtain t where t: "f x s = Inr t" "for_each f xs t = Inr s'" by auto
  with Cons.prems(1,2) have "I t" by auto
  with Cons.IH Cons.prems(1) t(2) show ?case by auto
qed

lemma map_state_invariant:
  assumes step: "\<And>x s y s'. x \<in> set xs \<Longrightarrow> I s \<Longrightarrow> f x s = Inr (y, s') \<Longrightarrow> I s'"
    and "I s" and "map_state f xs s = Inr (ys, s')"
  shows "I s'"
  using assms
proof (induction xs arbitrary: s ys)
  case Nil
  then show ?case by simp
next
  case (Cons x xs)
  from Cons.prems(3) obtain y t zs where t: "f x s = Inr (y, t)" "map_state f xs t = Inr (zs, s')"
    by (auto split: prod.splits)
  with Cons.prems(1,2) have "I t" by auto
  show ?case by (rule Cons.IH [OF _ \<open>I t\<close> t(2)]) (use Cons.prems(1) in auto)
qed

lemma map_state_length: "map_state f xs s = Inr (ys, s') \<Longrightarrow> length ys = length xs"
  by (induction xs arbitrary: s ys) (auto split: prod.splits)

lemma map_at_Inr_iff [simp]: "map_at what m k = Inr v \<longleftrightarrow> m k = Some v"
  by (simp add: map_at_def split: option.split)

lemma fold_invariant_field:
  "(\<And>x s. fld (f x s) = fld s) \<Longrightarrow> fld (fold f xs s) = fld s"
  by (induction xs arbitrary: s) auto

section \<open>Ordered sets\<close>

text \<open>\<open>std::set\<close>: the elements in increasing order, each once.\<close>

fun oset_insert :: "'a::linorder \<Rightarrow> 'a list \<Rightarrow> 'a list" where
  "oset_insert x [] = [x]"
| "oset_insert x (y # ys) =
     (if x < y then x # y # ys else if x = y then y # ys else y # oset_insert x ys)"

fun oset_erase :: "'a::linorder \<Rightarrow> 'a list \<Rightarrow> 'a list" where
  "oset_erase x [] = []"
| "oset_erase x (y # ys) = (if x = y then ys else y # oset_erase x ys)"

definition oset_ok :: "'a::linorder list \<Rightarrow> bool" where
  "oset_ok xs \<longleftrightarrow> sorted_wrt (<) xs"

definition oset_count :: "'a::linorder \<Rightarrow> 'a list \<Rightarrow> nat" where
  "oset_count x xs = (if x \<in> set xs then 1 else 0)"

text \<open>
  What a client of \<open>std::set\<close> relies on: the elements after an insertion and an erasure, that a
  traversal meets every element once and in order, and that \<open>size\<close> counts the elements.
\<close>

locale ordered_set =
  fixes ins :: "'a::linorder \<Rightarrow> 's \<Rightarrow> 's"
    and del :: "'a \<Rightarrow> 's \<Rightarrow> 's"
    and traverse :: "'s \<Rightarrow> 'a list"
    and invar :: "'s \<Rightarrow> bool"
  assumes ins_elems: "invar s \<Longrightarrow> set (traverse (ins x s)) = insert x (set (traverse s))"
    and del_elems: "invar s \<Longrightarrow> set (traverse (del x s)) = set (traverse s) - {x}"
    and ins_invar: "invar s \<Longrightarrow> invar (ins x s)"
    and del_invar: "invar s \<Longrightarrow> invar (del x s)"
    and traverse_order: "invar s \<Longrightarrow> sorted_wrt (<) (traverse s)"
begin

lemma traverse_distinct: "invar s \<Longrightarrow> distinct (traverse s)"
  using traverse_order by (simp add: strict_sorted_iff)

lemma size_card: "invar s \<Longrightarrow> length (traverse s) = card (set (traverse s))"
  by (simp add: traverse_distinct distinct_card)

lemma ins_del: "invar s \<Longrightarrow> x \<notin> set (traverse (del x s))"
  by (simp add: del_elems)

lemma ins_twice: "invar s \<Longrightarrow> traverse (ins x (ins x s)) = traverse (ins x s)"
  by (rule strict_sorted_equal) (simp_all add: traverse_order ins_invar ins_elems)

lemma del_fresh: "invar s \<Longrightarrow> x \<notin> set (traverse s) \<Longrightarrow> traverse (del x s) = traverse s"
  by (rule strict_sorted_equal) (simp_all add: traverse_order del_invar del_elems)

lemma del_ins_fresh: "invar s \<Longrightarrow> x \<notin> set (traverse s) \<Longrightarrow> traverse (del x (ins x s)) = traverse s"
  by (rule strict_sorted_equal) (simp_all add: traverse_order del_invar ins_invar del_elems ins_elems)

end

lemma set_oset_insert [simp]: "set (oset_insert x xs) = insert x (set xs)"
  by (induction x xs rule: oset_insert.induct) auto

lemma oset_ok_insert [simp]: "oset_ok xs \<Longrightarrow> oset_ok (oset_insert x xs)"
  by (induction x xs rule: oset_insert.induct) (auto simp: oset_ok_def)

lemma set_oset_erase: "oset_ok xs \<Longrightarrow> set (oset_erase x xs) = set xs - {x}"
  by (induction x xs rule: oset_erase.induct) (auto simp: oset_ok_def)

lemma set_oset_erase_subset: "set (oset_erase x xs) \<subseteq> set xs"
  by (induction x xs rule: oset_erase.induct) auto

lemma oset_ok_erase [simp]: "oset_ok xs \<Longrightarrow> oset_ok (oset_erase x xs)"
  using set_oset_erase_subset
  by (induction x xs rule: oset_erase.induct) (fastforce simp: oset_ok_def)+

lemma oset_ok_Nil [simp]: "oset_ok []"
  by (simp add: oset_ok_def)

interpretation oset: ordered_set oset_insert oset_erase "\<lambda>xs. xs" oset_ok
  by unfold_locales (auto simp: set_oset_erase, simp add: oset_ok_def)

lemma oset_erase_singleton [simp]: "oset_erase x [x] = []"
  by simp

lemma length_oset_erase: "length (oset_erase x xs) \<le> length xs"
  by (induction x xs rule: oset_erase.induct) auto

lemma oset_erase_notin [simp]: "x \<notin> set xs \<Longrightarrow> oset_erase x xs = xs"
  by (induction x xs rule: oset_erase.induct) auto

section \<open>Ordered maps\<close>

text \<open>\<open>std::map\<close>: an association list in increasing key order.\<close>

definition omap_get :: "'k::linorder \<Rightarrow> ('k \<times> 'v) list \<Rightarrow> 'v option" where
  "omap_get k m = map_of m k"

fun omap_put :: "'k::linorder \<Rightarrow> 'v \<Rightarrow> ('k \<times> 'v) list \<Rightarrow> ('k \<times> 'v) list" where
  "omap_put k v [] = [(k, v)]"
| "omap_put k v ((k', v') # m) =
     (if k < k' then (k, v) # (k', v') # m
      else if k = k' then (k, v) # m else (k', v') # omap_put k v m)"

fun omap_erase :: "'k::linorder \<Rightarrow> ('k \<times> 'v) list \<Rightarrow> ('k \<times> 'v) list" where
  "omap_erase k [] = []"
| "omap_erase k ((k', v') # m) = (if k = k' then m else (k', v') # omap_erase k m)"

definition omap_ok :: "('k::linorder \<times> 'v) list \<Rightarrow> bool" where
  "omap_ok m \<longleftrightarrow> sorted_wrt (<) (map fst m)"

text \<open>\<open>m[k]\<close> on a \<open>std::map\<close> inserts a default value when the key is missing.\<close>

definition omap_at :: "'v \<Rightarrow> 'k::linorder \<Rightarrow> ('k \<times> 'v) list \<Rightarrow> 'v" where
  "omap_at d k m = (case omap_get k m of None \<Rightarrow> d | Some v \<Rightarrow> v)"

locale ordered_map =
  fixes put :: "'k::linorder \<Rightarrow> 'v \<Rightarrow> 'm \<Rightarrow> 'm"
    and erase :: "'k \<Rightarrow> 'm \<Rightarrow> 'm"
    and get :: "'k \<Rightarrow> 'm \<Rightarrow> 'v option"
    and invar :: "'m \<Rightarrow> bool"
  assumes get_put: "invar m \<Longrightarrow> get k' (put k v m) = (if k' = k then Some v else get k' m)"
    and get_erase: "invar m \<Longrightarrow> get k' (erase k m) = (if k' = k then None else get k' m)"
    and put_invar: "invar m \<Longrightarrow> invar (put k v m)"
    and erase_invar: "invar m \<Longrightarrow> invar (erase k m)"
begin

lemma get_put_same: "invar m \<Longrightarrow> get k (put k v m) = Some v"
  by (simp add: get_put)

lemma get_put_other: "invar m \<Longrightarrow> k' \<noteq> k \<Longrightarrow> get k' (put k v m) = get k' m"
  by (simp add: get_put)

lemma get_erase_put: "invar m \<Longrightarrow> get k' (erase k (put k v m)) = get k' (erase k m)"
  by (simp add: get_put get_erase put_invar)

end

lemma omap_put_keys: "set (map fst (omap_put k v m)) = insert k (set (map fst m))"
  by (induction k v m rule: omap_put.induct) auto

lemma omap_erase_keys_subset: "set (map fst (omap_erase k m)) \<subseteq> set (map fst m)"
  by (induction k m rule: omap_erase.induct) auto

lemma omap_ok_put [simp]: "omap_ok m \<Longrightarrow> omap_ok (omap_put k v m)"
proof (induction k v m rule: omap_put.induct)
  case (1 k v)
  then show ?case by (simp add: omap_ok_def)
next
  case (2 k v k' v' m)
  then show ?case using omap_put_keys [of k v m] by (auto simp: omap_ok_def)
qed

lemma omap_ok_erase [simp]: "omap_ok m \<Longrightarrow> omap_ok (omap_erase k m)"
proof (induction k m rule: omap_erase.induct)
  case (1 k)
  then show ?case by simp
next
  case (2 k k' v' m)
  then show ?case using omap_erase_keys_subset [of k m] by (force simp: omap_ok_def)
qed

lemma omap_ok_Nil [simp]: "omap_ok []"
  by (simp add: omap_ok_def)

lemma omap_get_put: "omap_get k' (omap_put k v m) = (if k' = k then Some v else omap_get k' m)"
  by (induction k v m rule: omap_put.induct) (auto simp: omap_get_def)

lemma omap_get_erase:
  "omap_ok m \<Longrightarrow> omap_get k' (omap_erase k m) = (if k' = k then None else omap_get k' m)"
proof (induction k m rule: omap_erase.induct)
  case (1 k)
  then show ?case by (simp add: omap_get_def)
next
  case (2 k k'' v'' m)
  then show ?case
    by (force simp: omap_get_def omap_ok_def map_of_eq_None_iff split: if_splits)
qed

interpretation omap: ordered_map omap_put omap_erase omap_get omap_ok
  by unfold_locales (simp_all add: omap_get_put omap_get_erase)

lemma omap_get_Nil [simp]: "omap_get k [] = None"
  by (simp add: omap_get_def)

section \<open>Vectors that grow on access\<close>

text \<open>
  \<open>std::vector\<close> indexed by an \<open>operator[]\<close> that first resizes to \<open>n + 1\<close>: a read past the end
  gives the default element, a write past the end extends the vector with default elements.
\<close>

definition vec_resize :: "'a \<Rightarrow> nat \<Rightarrow> 'a list \<Rightarrow> 'a list" where
  "vec_resize d n xs = (if n < length xs then xs else xs @ replicate (Suc n - length xs) d)"

definition vec_get :: "'a \<Rightarrow> 'a list \<Rightarrow> nat \<Rightarrow> 'a" where
  "vec_get d xs n = (if n < length xs then xs ! n else d)"

definition vec_set :: "'a \<Rightarrow> nat \<Rightarrow> 'a \<Rightarrow> 'a list \<Rightarrow> 'a list" where
  "vec_set d n v xs = (vec_resize d n xs)[n := v]"

lemma vec_get_resize [simp]: "vec_get d (vec_resize d m xs) n = vec_get d xs n"
  by (auto simp: vec_get_def vec_resize_def nth_append)

lemma length_vec_resize: "length (vec_resize d n xs) = max (length xs) (Suc n)"
  by (auto simp: vec_resize_def)

lemma vec_get_set [simp]: "vec_get d (vec_set d n v xs) m = (if m = n then v else vec_get d xs m)"
proof -
  have "vec_get d (vec_set d n v xs) m =
      (if m = n then v else vec_get d (vec_resize d n xs) m)"
    using length_vec_resize [of d n xs] by (auto simp: vec_get_def vec_set_def)
  then show ?thesis by simp
qed

lemma nth_vec_resize: "n < length xs \<Longrightarrow> vec_resize d m xs ! n = xs ! n"
  by (simp add: vec_resize_def nth_append)

end
