(* ===== verification/Mach_Types.thy ===== *)
theory Mach_Types
  imports Prelude
begin

text \<open>
  The machine types of the program and the constants of the Mach interface it uses. GNU Hurd
  on i386: \<^verbatim>\<open>mach_port_t\<close>, \<^verbatim>\<open>vm_offset_t\<close>, \<^verbatim>\<open>vm_size_t\<close> and \<^verbatim>\<open>vm_address_t\<close> are 32-bit unsigned
  (\<open>machMessage.h\<close> casts a pointer to \<^verbatim>\<open>int32_t\<close>), \<^verbatim>\<open>sizeof(long)\<close> is 4. The numbers below are the
  published values of \<^verbatim>\<open>mach/message.h\<close>, \<^verbatim>\<open>mach/port.h\<close>, \<^verbatim>\<open>mach/vm_prot.h\<close>,
  \<^verbatim>\<open>mach/memory_object.h\<close> and \<^verbatim>\<open>mach/notify.h\<close>; the sources under \<open>src/\<close> only name them.
\<close>

unbundle bit_operations_syntax

type_synonym mach_port_t = "32 word"
type_synonym vm_offset_t = "32 word"
type_synonym vm_size_t = "32 word"
type_synonym vm_address_t = "32 word"
type_synonym vm_prot_t = "32 word"
type_synonym kern_return_t = int

section \<open>Ports\<close>

abbreviation MACH_PORT_NULL :: mach_port_t where "MACH_PORT_NULL \<equiv> 0"
abbreviation MACH_PORT_DEAD :: mach_port_t where "MACH_PORT_DEAD \<equiv> 0xFFFFFFFF"

section \<open>Types of message data\<close>

abbreviation MACH_MSG_TYPE_BIT :: "32 word" where "MACH_MSG_TYPE_BIT \<equiv> 0"
abbreviation MACH_MSG_TYPE_INTEGER_16 :: "32 word" where "MACH_MSG_TYPE_INTEGER_16 \<equiv> 1"
abbreviation MACH_MSG_TYPE_INTEGER_32 :: "32 word" where "MACH_MSG_TYPE_INTEGER_32 \<equiv> 2"
abbreviation MACH_MSG_TYPE_CHAR :: "32 word" where "MACH_MSG_TYPE_CHAR \<equiv> 8"
abbreviation MACH_MSG_TYPE_INTEGER_8 :: "32 word" where "MACH_MSG_TYPE_INTEGER_8 \<equiv> 9"
abbreviation MACH_MSG_TYPE_REAL :: "32 word" where "MACH_MSG_TYPE_REAL \<equiv> 10"
abbreviation MACH_MSG_TYPE_INTEGER_64 :: "32 word" where "MACH_MSG_TYPE_INTEGER_64 \<equiv> 11"
abbreviation MACH_MSG_TYPE_STRING :: "32 word" where "MACH_MSG_TYPE_STRING \<equiv> 12"
abbreviation MACH_MSG_TYPE_PORT_NAME :: "32 word" where "MACH_MSG_TYPE_PORT_NAME \<equiv> 15"
abbreviation MACH_MSG_TYPE_MOVE_RECEIVE :: "32 word" where "MACH_MSG_TYPE_MOVE_RECEIVE \<equiv> 16"
abbreviation MACH_MSG_TYPE_MOVE_SEND :: "32 word" where "MACH_MSG_TYPE_MOVE_SEND \<equiv> 17"
abbreviation MACH_MSG_TYPE_MOVE_SEND_ONCE :: "32 word" where "MACH_MSG_TYPE_MOVE_SEND_ONCE \<equiv> 18"
abbreviation MACH_MSG_TYPE_COPY_SEND :: "32 word" where "MACH_MSG_TYPE_COPY_SEND \<equiv> 19"
abbreviation MACH_MSG_TYPE_MAKE_SEND :: "32 word" where "MACH_MSG_TYPE_MAKE_SEND \<equiv> 20"
abbreviation MACH_MSG_TYPE_MAKE_SEND_ONCE :: "32 word" where "MACH_MSG_TYPE_MAKE_SEND_ONCE \<equiv> 21"

text \<open>The names a receiver sees are the names of the rights that were moved.\<close>

abbreviation MACH_MSG_TYPE_PORT_RECEIVE :: "32 word" where
  "MACH_MSG_TYPE_PORT_RECEIVE \<equiv> MACH_MSG_TYPE_MOVE_RECEIVE"
abbreviation MACH_MSG_TYPE_PORT_SEND :: "32 word" where
  "MACH_MSG_TYPE_PORT_SEND \<equiv> MACH_MSG_TYPE_MOVE_SEND"
abbreviation MACH_MSG_TYPE_PORT_SEND_ONCE :: "32 word" where
  "MACH_MSG_TYPE_PORT_SEND_ONCE \<equiv> MACH_MSG_TYPE_MOVE_SEND_ONCE"

section \<open>Bits of a message header\<close>

definition MACH_MSGH_BITS_REMOTE :: "32 word \<Rightarrow> 32 word" where
  "MACH_MSGH_BITS_REMOTE bits = bits AND 0xFF"

definition MACH_MSGH_BITS :: "32 word \<Rightarrow> 32 word \<Rightarrow> 32 word" where
  "MACH_MSGH_BITS remote local = remote OR push_bit 8 local"

definition MACH_MSGH_BITS_LOCAL :: "32 word \<Rightarrow> 32 word" where
  "MACH_MSGH_BITS_LOCAL bits = drop_bit 8 (bits AND 0xFF00)"

abbreviation MACH_MSGH_BITS_COMPLEX :: "32 word" where "MACH_MSGH_BITS_COMPLEX \<equiv> 0x80000000"

section \<open>Return codes\<close>

abbreviation KERN_SUCCESS :: kern_return_t where "KERN_SUCCESS \<equiv> 0"

section \<open>Memory objects\<close>

abbreviation VM_PROT_NONE :: vm_prot_t where "VM_PROT_NONE \<equiv> 0"
abbreviation VM_PROT_READ :: vm_prot_t where "VM_PROT_READ \<equiv> 1"
abbreviation VM_PROT_WRITE :: vm_prot_t where "VM_PROT_WRITE \<equiv> 2"
abbreviation VM_PROT_NO_CHANGE :: vm_prot_t where "VM_PROT_NO_CHANGE \<equiv> 8"

datatype memory_object_return_t =
    MEMORY_OBJECT_RETURN_NONE
  | MEMORY_OBJECT_RETURN_DIRTY
  | MEMORY_OBJECT_RETURN_ALL

definition wants_write :: "vm_prot_t \<Rightarrow> bool" where
  "wants_write p \<longleftrightarrow> p AND VM_PROT_WRITE \<noteq> 0"

lemma wants_write_simps [simp]:
  "\<not> wants_write VM_PROT_READ" "wants_write VM_PROT_WRITE" "wants_write 3" "\<not> wants_write 0"
  by (simp_all add: wants_write_def)

end
