(* ===== verification/Pagemap_Entry.thy ===== *)
theory Pagemap_Entry
  imports Mach_Types
begin

text \<open>
  The data kept for one page of a memory object (\<^verbatim>\<open>libpager/pagemap.h\<close>, class
  \<^verbatim>\<open>pagemap_entry_data\<close>): which clients have access (ACCESSLIST, a \<^verbatim>\<open>std::set\<close>), which wait for
  it and how (WAITLIST, a \<^verbatim>\<open>std::vector\<close> in arrival order), and the flags. One definition per
  method. The comparison operators are proved to be strict total orders whose equivalence is
  equality, which is what \<^verbatim>\<open>std::set<pagemap_entry_data>\<close> needs to share equal entries.
\<close>

section \<open>WAITLIST clients\<close>

datatype WAITLIST_client =
  WAITLIST_client (client: mach_port_t) (write_access_requested: bool)

text \<open>\<^verbatim>\<open>operator<\<close> compares the tuples (client, write_access_requested).\<close>

definition WAITLIST_client_less :: "WAITLIST_client \<Rightarrow> WAITLIST_client \<Rightarrow> bool" where
  "WAITLIST_client_less a b \<longleftrightarrow>
     (client a, write_access_requested a) < (client b, write_access_requested b)"

instantiation WAITLIST_client :: linorder
begin

definition less_WAITLIST_client :: "WAITLIST_client \<Rightarrow> WAITLIST_client \<Rightarrow> bool" where
  "less_WAITLIST_client = WAITLIST_client_less"

definition less_eq_WAITLIST_client :: "WAITLIST_client \<Rightarrow> WAITLIST_client \<Rightarrow> bool" where
  "less_eq_WAITLIST_client a b \<longleftrightarrow>
     (client a, write_access_requested a) \<le> (client b, write_access_requested b)"

instance
  by standard
    (auto simp: less_WAITLIST_client_def WAITLIST_client_less_def less_eq_WAITLIST_client_def WAITLIST_client.expand)

end

section \<open>The data of one page\<close>

record pagemap_entry_data =
  ACCESSLIST :: "mach_port_t list"
  WAITLIST :: "WAITLIST_client list"
  PAGINGOUT :: bool
  WRITE_ACCESS_GRANTED :: bool
  INVALID :: bool
  ERROR :: kern_return_t

text \<open>The default member initialisers: the empty page.\<close>

definition empty_page :: pagemap_entry_data where
  "empty_page = \<lparr>ACCESSLIST = [], WAITLIST = [], PAGINGOUT = False,
     WRITE_ACCESS_GRANTED = False, INVALID = False, ERROR = KERN_SUCCESS\<rparr>"

text \<open>\<^verbatim>\<open>operator<\<close> compares the tuples of all six members.\<close>

definition pagemap_entry_data_key ::
    "pagemap_entry_data \<Rightarrow>
     mach_port_t list \<times> WAITLIST_client list \<times> bool \<times> bool \<times> bool \<times> kern_return_t" where
  "pagemap_entry_data_key d =
     (ACCESSLIST d, WAITLIST d, PAGINGOUT d, WRITE_ACCESS_GRANTED d, INVALID d, ERROR d)"

definition pagemap_entry_data_less :: "pagemap_entry_data \<Rightarrow> pagemap_entry_data \<Rightarrow> bool" where
  "pagemap_entry_data_less a b \<longleftrightarrow> pagemap_entry_data_key a < pagemap_entry_data_key b"

definition is_ACCESSLIST_empty :: "pagemap_entry_data \<Rightarrow> bool" where
  "is_ACCESSLIST_empty d \<longleftrightarrow> ACCESSLIST d = []"

definition ACCESSLIST_num_clients :: "pagemap_entry_data \<Rightarrow> nat" where
  "ACCESSLIST_num_clients d = length (ACCESSLIST d)"

definition is_client_on_ACCESSLIST :: "mach_port_t \<Rightarrow> pagemap_entry_data \<Rightarrow> bool" where
  "is_client_on_ACCESSLIST c d \<longleftrightarrow> oset_count c (ACCESSLIST d) = 1"

definition add_client_to_ACCESSLIST ::
    "mach_port_t \<Rightarrow> pagemap_entry_data \<Rightarrow> pagemap_entry_data" where
  "add_client_to_ACCESSLIST c d = d\<lparr>ACCESSLIST := oset_insert c (ACCESSLIST d)\<rparr>"

definition remove_client_from_ACCESSLIST ::
    "mach_port_t \<Rightarrow> pagemap_entry_data \<Rightarrow> pagemap_entry_data" where
  "remove_client_from_ACCESSLIST c d = d\<lparr>ACCESSLIST := oset_erase c (ACCESSLIST d)\<rparr>"

definition is_WAITLIST_empty :: "pagemap_entry_data \<Rightarrow> bool" where
  "is_WAITLIST_empty d \<longleftrightarrow> WAITLIST d = []"

fun any_write_access_requested :: "WAITLIST_client list \<Rightarrow> bool" where
  "any_write_access_requested [] = False"
| "any_write_access_requested (c # cs) =
     (if write_access_requested c then True else any_write_access_requested cs)"

definition is_any_client_waiting_for_write_access :: "pagemap_entry_data \<Rightarrow> bool" where
  "is_any_client_waiting_for_write_access d = any_write_access_requested (WAITLIST d)"

definition clear_WAITLIST :: "pagemap_entry_data \<Rightarrow> pagemap_entry_data" where
  "clear_WAITLIST d = d\<lparr>WAITLIST := []\<rparr>"

definition add_client_to_WAITLIST ::
    "mach_port_t \<Rightarrow> bool \<Rightarrow> pagemap_entry_data \<Rightarrow> pagemap_entry_data" where
  "add_client_to_WAITLIST c w d = d\<lparr>WAITLIST := WAITLIST d @ [WAITLIST_client c w]\<rparr>"

definition pop_first_WAITLIST_client :: "pagemap_entry_data \<Rightarrow> pagemap_entry_data result" where
  "pop_first_WAITLIST_client d =
     (case WAITLIST d of [] \<Rightarrow> Inl (Out_of_range ''WAITLIST is empty'')
      | _ # ws \<Rightarrow> Inr (d\<lparr>WAITLIST := ws\<rparr>))"

definition first_WAITLIST_client :: "pagemap_entry_data \<Rightarrow> WAITLIST_client result" where
  "first_WAITLIST_client d =
     (case WAITLIST d of [] \<Rightarrow> Inl (Out_of_range ''WAITLIST.at(0)'') | w # _ \<Rightarrow> Inr w)"

definition set_ERROR :: "kern_return_t \<Rightarrow> pagemap_entry_data \<Rightarrow> pagemap_entry_data" where
  "set_ERROR v d = d\<lparr>ERROR := v\<rparr>"

definition set_INVALID :: "bool \<Rightarrow> pagemap_entry_data \<Rightarrow> pagemap_entry_data" where
  "set_INVALID v d = d\<lparr>INVALID := v\<rparr>"

definition set_PAGINGOUT :: "bool \<Rightarrow> pagemap_entry_data \<Rightarrow> pagemap_entry_data" where
  "set_PAGINGOUT v d = d\<lparr>PAGINGOUT := v\<rparr>"

definition set_WRITE_ACCESS_GRANTED :: "bool \<Rightarrow> pagemap_entry_data \<Rightarrow> pagemap_entry_data" where
  "set_WRITE_ACCESS_GRANTED v d = d\<lparr>WRITE_ACCESS_GRANTED := v\<rparr>"

lemmas entry_defs [simp] =
  is_ACCESSLIST_empty_def ACCESSLIST_num_clients_def is_client_on_ACCESSLIST_def oset_count_def
  add_client_to_ACCESSLIST_def remove_client_from_ACCESSLIST_def is_WAITLIST_empty_def
  clear_WAITLIST_def add_client_to_WAITLIST_def set_ERROR_def set_INVALID_def
  set_PAGINGOUT_def set_WRITE_ACCESS_GRANTED_def

section \<open>Facts about single pages\<close>

lemma pop_first_Inr_iff [simp]:
  "pop_first_WAITLIST_client d = Inr d' \<longleftrightarrow>
     (\<exists>w ws. WAITLIST d = w # ws \<and> d' = d\<lparr>WAITLIST := ws\<rparr>)"
  by (auto simp: pop_first_WAITLIST_client_def split: list.splits)

lemma pop_first_Cons: "WAITLIST d = w # ws \<Longrightarrow> pop_first_WAITLIST_client d = Inr (d\<lparr>WAITLIST := ws\<rparr>)"
  by simp

lemma first_WAITLIST_client_Inr_iff [simp]:
  "first_WAITLIST_client d = Inr w \<longleftrightarrow> (\<exists>ws. WAITLIST d = w # ws)"
  by (auto simp: first_WAITLIST_client_def split: list.splits)

lemma first_WAITLIST_client_Cons: "WAITLIST d = w # ws \<Longrightarrow> first_WAITLIST_client d = Inr w"
  by simp

lemma any_write_access_requested_iff [simp]:
  "any_write_access_requested ws \<longleftrightarrow> (\<exists>w \<in> set ws. write_access_requested w)"
  by (induction ws) auto

lemma pagemap_entry_data_key_inject:
  "pagemap_entry_data_key a = pagemap_entry_data_key b \<longleftrightarrow> a = b"
  by (cases a; cases b) (auto simp: pagemap_entry_data_key_def)

text \<open>What \<^verbatim>\<open>std::set\<close> asks of its comparison, and what it decides with it.\<close>

locale set_compare =
  fixes lt :: "'a \<Rightarrow> 'a \<Rightarrow> bool"
  assumes irrefl: "\<not> lt a a"
    and trans: "lt a b \<Longrightarrow> lt b c \<Longrightarrow> lt a c"
    and total: "lt a b \<or> a = b \<or> lt b a"
begin

lemma asym: "lt a b \<Longrightarrow> \<not> lt b a"
  using irrefl trans by blast

lemma equivalent_iff_equal: "\<not> lt a b \<and> \<not> lt b a \<longleftrightarrow> a = b"
  using irrefl total by blast

lemma find_equivalent:
  "List.find (\<lambda>b. \<not> lt a b \<and> \<not> lt b a) xs = (if a \<in> set xs then Some a else None)"
  by (induction xs) (auto simp: equivalent_iff_equal)

end

interpretation entry_order: set_compare pagemap_entry_data_less
proof unfold_locales
  fix a b c :: pagemap_entry_data
  show "\<not> pagemap_entry_data_less a a"
    by (simp add: pagemap_entry_data_less_def)
  show "pagemap_entry_data_less a b \<Longrightarrow> pagemap_entry_data_less b c \<Longrightarrow> pagemap_entry_data_less a c"
    by (simp only: pagemap_entry_data_less_def)
  show "pagemap_entry_data_less a b \<or> a = b \<or> pagemap_entry_data_less b a"
    unfolding pagemap_entry_data_less_def pagemap_entry_data_key_inject [symmetric]
    by (rule less_linear)
qed

end
