(* ===== verification/Pagemap_Store.thy ===== *)
theory Pagemap_Store
  imports Pagemap_Entry
begin

text \<open>
  How the pages of a memory object are stored (\<^verbatim>\<open>libpager/pagemap.h\<close>, classes \<^verbatim>\<open>pagemap_entry\<close> and
  \<^verbatim>\<open>pagemap_vector\<close>). A page is a pointer into the global \<^verbatim>\<open>pagemap_set\<close>; pages with equal data
  share one node; a node is never changed nor removed, assigning to a page only moves its pointer.
  A node's address is its position in the order of insertion.

  The locale \<open>page_vector\<close> is the contract the pager relies on: a page reads back what was last
  assigned to it, other pages are untouched, a page never assigned reads as the empty page. It
  is interpreted twice: on the plain vector of page data, which the pager's model uses, and on
  the shared representation of the code. \<open>pages_assign\<close> shows that the second refines the first.
\<close>

section \<open>The shared representation\<close>

record page_store =
  pagemap_set :: "pagemap_entry_data list"
  pagemap_vector :: "nat list"

text \<open>\<^verbatim>\<open>empty_page_ptr\<close> points at the first node, which the set is initialised with.\<close>

definition empty_page_ptr :: nat where
  "empty_page_ptr = 0"

definition initial_store :: page_store where
  "initial_store = \<lparr>pagemap_set = [empty_page], pagemap_vector = []\<rparr>"

text \<open>
  \<^verbatim>\<open>std::set::insert\<close>: the node equivalent to the data under \<^verbatim>\<open>operator<\<close> when there is one,
  a new node otherwise; \<^verbatim>\<open>.first\<close> is the node's address in both cases.
\<close>

fun find_equivalent_node :: "pagemap_entry_data \<Rightarrow> pagemap_entry_data list \<Rightarrow> nat option" where
  "find_equivalent_node d [] = None"
| "find_equivalent_node d (e # es) =
     (if \<not> pagemap_entry_data_less d e \<and> \<not> pagemap_entry_data_less e d then Some 0
      else map_option Suc (find_equivalent_node d es))"

definition pagemap_set_insert ::
    "pagemap_entry_data \<Rightarrow> pagemap_entry_data list \<Rightarrow> pagemap_entry_data list \<times> nat" where
  "pagemap_set_insert d nodes =
     (case find_equivalent_node d nodes of
        Some p \<Rightarrow> (nodes, p)
      | None \<Rightarrow> (nodes @ [d], length nodes))"

text \<open>\<^verbatim>\<open>pagemap_vector::operator[]\<close> resizes; new pointers have the initial value \<^verbatim>\<open>empty_page_ptr\<close>.\<close>

definition pagemap_vector_index :: "nat \<Rightarrow> page_store \<Rightarrow> page_store" where
  "pagemap_vector_index n s =
     s\<lparr>pagemap_vector := vec_resize empty_page_ptr n (pagemap_vector s)\<rparr>"

text \<open>Reading a page: \<^verbatim>\<open>operator->\<close> and the conversion to \<^verbatim>\<open>const pagemap_entry_data &\<close>.\<close>

definition pagemap_entry_deref :: "page_store \<Rightarrow> nat \<Rightarrow> pagemap_entry_data" where
  "pagemap_entry_deref s n =
     pagemap_set s ! (pagemap_vector (pagemap_vector_index n s) ! n)"

text \<open>Writing a page: \<^verbatim>\<open>pagemap_entry::operator=\<close>.\<close>

definition pagemap_entry_assign :: "nat \<Rightarrow> pagemap_entry_data \<Rightarrow> page_store \<Rightarrow> page_store" where
  "pagemap_entry_assign n d s =
     (let s' = pagemap_vector_index n s; (nodes, p) = pagemap_set_insert d (pagemap_set s')
      in s'\<lparr>pagemap_set := nodes, pagemap_vector := (pagemap_vector s')[n := p]\<rparr>)"

definition store_ok :: "page_store \<Rightarrow> bool" where
  "store_ok s \<longleftrightarrow> distinct (pagemap_set s) \<and> pagemap_set s \<noteq> [] \<and>
     pagemap_set s ! empty_page_ptr = empty_page \<and>
     (\<forall>p \<in> set (pagemap_vector s). p < length (pagemap_set s))"

definition pages :: "page_store \<Rightarrow> pagemap_entry_data list" where
  "pages s = map (\<lambda>p. pagemap_set s ! p) (pagemap_vector s)"

section \<open>The contract of a page vector\<close>

locale page_vector =
  fixes read :: "'s \<Rightarrow> nat \<Rightarrow> pagemap_entry_data"
    and assign :: "nat \<Rightarrow> pagemap_entry_data \<Rightarrow> 's \<Rightarrow> 's"
    and initial :: 's
    and invar :: "'s \<Rightarrow> bool"
  assumes read_assign: "invar s \<Longrightarrow> read (assign n d s) m = (if m = n then d else read s m)"
    and read_initial: "read initial n = empty_page"
    and assign_invar: "invar s \<Longrightarrow> invar (assign n d s)"
    and initial_invar: "invar initial"
begin

lemma fold_assign_invar: "invar s \<Longrightarrow> invar (fold (case_prod assign) xs s)"
  by (induction xs arbitrary: s) (auto simp: assign_invar)

text \<open>After any sequence of assignments, a page reads as its last assignment.\<close>

lemma read_fold_assign:
  "invar s \<Longrightarrow> read (fold (case_prod assign) xs s) m =
     (case map_of (rev xs) m of Some d \<Rightarrow> d | None \<Rightarrow> read s m)"
  by (induction xs arbitrary: s)
    (auto simp: assign_invar read_assign map_add_def split: option.splits)

end

interpretation plain_pages: page_vector "vec_get empty_page" "vec_set empty_page" "[]" "\<lambda>_. True"
  by unfold_locales (simp_all, simp add: vec_get_def)

section \<open>The shared representation meets the contract\<close>

lemma find_equivalent_node_Some:
  "find_equivalent_node d nodes = Some p \<Longrightarrow> p < length nodes \<and> nodes ! p = d"
  by (induction d nodes arbitrary: p rule: find_equivalent_node.induct)
    (auto simp: entry_order.equivalent_iff_equal split: if_splits)

lemma find_equivalent_node_None:
  "find_equivalent_node d nodes = None \<longleftrightarrow> d \<notin> set nodes"
  by (induction d nodes rule: find_equivalent_node.induct)
    (auto simp: entry_order.equivalent_iff_equal)

lemma pagemap_set_insert_props:
  assumes "pagemap_set_insert d nodes = (nodes', p)"
  shows "p < length nodes' \<and> nodes' ! p = d \<and> (\<exists>ext. nodes' = nodes @ ext) \<and>
    (distinct nodes \<longrightarrow> distinct nodes') \<and> set nodes' = insert d (set nodes)"
proof (cases "find_equivalent_node d nodes")
  case None
  then have "d \<notin> set nodes" by (simp add: find_equivalent_node_None)
  with None assms show ?thesis by (auto simp: pagemap_set_insert_def)
next
  case (Some q)
  then have "nodes' = nodes" "p = q" using assms by (auto simp: pagemap_set_insert_def)
  with find_equivalent_node_Some [OF Some] show ?thesis by (auto simp: insert_absorb)
qed

lemma store_ok_index: "store_ok s \<Longrightarrow> store_ok (pagemap_vector_index n s)"
  by (auto simp: store_ok_def pagemap_vector_index_def vec_resize_def empty_page_ptr_def)

lemma pages_index: "store_ok s \<Longrightarrow> pages (pagemap_vector_index n s) = vec_resize empty_page n (pages s)"
  by (simp add: pages_def pagemap_vector_index_def vec_resize_def store_ok_def)

lemma deref_pages: "store_ok s \<Longrightarrow> pagemap_entry_deref s n = vec_get empty_page (pages s) n"
  by (auto simp: pagemap_entry_deref_def pages_def pagemap_vector_index_def vec_resize_def vec_get_def
    store_ok_def nth_append)

lemma store_ok_assign: "store_ok s \<Longrightarrow> store_ok (pagemap_entry_assign n d s)"
proof -
  assume ok: "store_ok s"
  define s' where "s' = pagemap_vector_index n s"
  obtain nodes p where ins: "pagemap_set_insert d (pagemap_set s') = (nodes, p)" by force
  note props = pagemap_set_insert_props [OF ins]
  have ok': "store_ok s'" using ok by (simp add: s'_def store_ok_index)
  with props show ?thesis
    unfolding pagemap_entry_assign_def Let_def s'_def [symmetric] ins
    by (auto simp: store_ok_def nth_append empty_page_ptr_def dest!: set_update_subset_insert [THEN subsetD])
qed

lemma pages_assign:
  assumes ok: "store_ok s"
  shows "pages (pagemap_entry_assign n d s) = vec_set empty_page n d (pages s)"
proof -
  define s' where "s' = pagemap_vector_index n s"
  obtain nodes p where ins: "pagemap_set_insert d (pagemap_set s') = (nodes, p)" by force
  from pagemap_set_insert_props [OF ins] obtain ext
    where p: "nodes ! p = d" and ext: "nodes = pagemap_set s' @ ext" by blast
  have ok': "store_ok s'" using ok by (simp add: s'_def store_ok_index)
  have "map ((!) nodes) (pagemap_vector s') = pages s'"
    using ok' by (auto simp: pages_def ext nth_append store_ok_def)
  then have "map ((!) nodes) ((pagemap_vector s')[n := p]) = (pages s')[n := d]"
    by (simp only: map_update p)
  then have "pages (pagemap_entry_assign n d s) = (pages s')[n := d]"
    unfolding pagemap_entry_assign_def Let_def s'_def [symmetric] ins by (simp add: pages_def)
  with ok show ?thesis by (simp add: vec_set_def s'_def pages_index)
qed

interpretation shared_pages:
  page_vector pagemap_entry_deref pagemap_entry_assign initial_store store_ok
proof unfold_locales
  show "store_ok initial_store"
    by (simp add: store_ok_def initial_store_def empty_page_ptr_def)
  then show "pagemap_entry_deref initial_store n = empty_page" for n
    by (simp add: deref_pages) (simp add: pages_def initial_store_def vec_get_def)
  show "pagemap_entry_deref (pagemap_entry_assign n d s) m =
      (if m = n then d else pagemap_entry_deref s m)" if "store_ok s" for s n d m
    using that by (simp add: deref_pages store_ok_assign pages_assign)
qed (rule store_ok_assign)

text \<open>Nodes are only ever added: a pointer handed out once keeps its data.\<close>

lemma assign_keeps_nodes:
  "p < length (pagemap_set s) \<Longrightarrow>
     pagemap_set (pagemap_entry_assign n d s) ! p = pagemap_set s ! p"
proof -
  assume p: "p < length (pagemap_set s)"
  obtain nodes q where ins: "pagemap_set_insert d (pagemap_set s) = (nodes, q)" by force
  from pagemap_set_insert_props [OF ins] p show ?thesis
    by (auto simp: pagemap_entry_assign_def pagemap_vector_index_def ins nth_append)
qed

end
