(* ===== verification/Pager_State.thy ===== *)
theory Pager_State
  imports Pagemap_Store
begin

text \<open>
  The state of one pager (\<^verbatim>\<open>libpager/pagemap.h\<close>, \<^verbatim>\<open>struct pager\<close> and the structures it holds) and the
  internal routines that act on the page loaded in \<^verbatim>\<open>tmp_pagemap_entry\<close>
  (\<^verbatim>\<open>libpager/pagemap.cc\<close>: \<^verbatim>\<open>internal_flush_request\<close>, \<^verbatim>\<open>service_WAITLIST\<close>,
  \<^verbatim>\<open>send_error_to_WAITLIST\<close>, \<^verbatim>\<open>finalize_unlock\<close>).

  \<^item> \<^verbatim>\<open>tmp_pagemap_entry\<close> is passed from step to step as the argument \<open>tmp\<close>: every handler loads it
    from the pagemap before it uses it and \<^verbatim>\<open>pagemap[n] = tmp\<close> moves it away, so no value of it
    survives a store.
  \<^item> Messages to the kernels, calls of the file system's functions and wake-ups are appended to
    \<open>events\<close>. \<^verbatim>\<open>mach_call\<close> ignores their results.
  \<^item> The functions that the file system defines (\<^verbatim>\<open>pager_read_page\<close> and the others declared in
    \<^verbatim>\<open>pager.h\<close>) are the fields of \<open>user_pager\<close>, an argument of the operations that call them; their
    answers may depend on everything that happened before.
  \<^item> A read of \<^verbatim>\<open>pagemap[n]\<close> past the end resizes the vector with empty pages; every page reads the
    same afterwards (\<open>vec_get_resize\<close>), so reads leave the model's vector as it is.
\<close>

section \<open>The pager\<close>

record WRITEWAIT_entry =
  ww_OFFSET :: vm_offset_t
  ww_DATA :: vm_address_t
  ww_LENGTH :: vm_size_t
  ww_KERNEL_COPY :: bool

record NEXTERROR_entry =
  ne_client :: mach_port_t
  ne_offset :: vm_offset_t
  ne_error :: kern_return_t

record outstanding_client_lock =
  count :: int
  internal_lock_outstanding :: bool

definition fresh_client_lock :: outstanding_client_lock where
  "fresh_client_lock = \<lparr>count = 0, internal_lock_outstanding = False\<rparr>"

type_synonym lock_range = "vm_offset_t \<times> vm_size_t"

text \<open>The locks of one range, by client.\<close>

type_synonym outstanding_lock = "(mach_port_t \<times> outstanding_client_lock) list"

datatype outstanding_change_request =
  outstanding_change_request (cr_client: mach_port_t) (cr_reply: mach_port_t)

definition outstanding_change_request_less ::
    "outstanding_change_request \<Rightarrow> outstanding_change_request \<Rightarrow> bool" where
  "outstanding_change_request_less a b \<longleftrightarrow> (cr_client a, cr_reply a) < (cr_client b, cr_reply b)"

instantiation outstanding_change_request :: linorder
begin

definition less_outstanding_change_request ::
    "outstanding_change_request \<Rightarrow> outstanding_change_request \<Rightarrow> bool" where
  "less_outstanding_change_request = outstanding_change_request_less"

definition less_eq_outstanding_change_request ::
    "outstanding_change_request \<Rightarrow> outstanding_change_request \<Rightarrow> bool" where
  "less_eq_outstanding_change_request a b \<longleftrightarrow> (cr_client a, cr_reply a) \<le> (cr_client b, cr_reply b)"

instance
  by standard
    (auto simp: less_outstanding_change_request_def outstanding_change_request_less_def less_eq_outstanding_change_request_def
      outstanding_change_request.expand)

end

datatype event =
    Lock_request mach_port_t vm_offset_t vm_size_t memory_object_return_t bool vm_prot_t mach_port_t
  | Data_supply mach_port_t vm_offset_t vm_address_t vm_size_t bool vm_prot_t bool
  | Data_error mach_port_t vm_offset_t vm_size_t kern_return_t
  | Object_ready mach_port_t bool int
  | Change_attributes mach_port_t bool int mach_port_t
  | Change_completed mach_port_t
  | Request_dead_name mach_port_t mach_port_t
  | Read_page vm_offset_t
  | Write_page vm_offset_t vm_address_t
  | Unlock_page vm_offset_t
  | Notify_evict vm_offset_t
  | Munmap vm_address_t vm_size_t
  | Port_allocate mach_port_t
  | Port_destroy mach_port_t
  | Wake_lock_waiters lock_range
  | Wake_write_waiters
  | Ports_destroy_right
  | Clear_user_data

record pager =
  port_right :: mach_port_t
  page_size :: vm_size_t
  may_cache :: bool
  copy_strategy :: int
  notify_on_evict :: bool
  terminating :: bool
  clients :: "mach_port_t list"
  WRITEWAIT :: "WRITEWAIT_entry list"
  NEXTERROR :: "NEXTERROR_entry list"
  outstanding_locks :: "(lock_range \<times> outstanding_lock) list"
  outstanding_change_requests :: "outstanding_change_request list"
  pagemap :: "pagemap_entry_data list"
  events :: "event list"

definition new_pager :: "mach_port_t \<Rightarrow> vm_size_t \<Rightarrow> bool \<Rightarrow> int \<Rightarrow> bool \<Rightarrow> pager" where
  "new_pager port vm_page_size mc cs notify =
     \<lparr>port_right = port, page_size = vm_page_size, may_cache = mc, copy_strategy = cs,
      notify_on_evict = notify, terminating = False, clients = [], WRITEWAIT = [], NEXTERROR = [],
      outstanding_locks = [], outstanding_change_requests = [], pagemap = [], events = []\<rparr>"

record user_pager =
  pager_read_page :: "event list \<Rightarrow> vm_offset_t \<Rightarrow> kern_return_t \<times> vm_address_t \<times> bool"
  pager_write_page :: "event list \<Rightarrow> vm_offset_t \<Rightarrow> vm_address_t \<Rightarrow> kern_return_t"
  pager_unlock_page :: "event list \<Rightarrow> vm_offset_t \<Rightarrow> kern_return_t"
  pager_report_extent :: "event list \<Rightarrow> vm_address_t \<times> vm_size_t"

definition emit :: "event \<Rightarrow> pager \<Rightarrow> pager" where
  "emit e s = s\<lparr>events := events s @ [e]\<rparr>"

definition page_read :: "pager \<Rightarrow> nat \<Rightarrow> pagemap_entry_data" where
  "page_read s n = vec_get empty_page (pagemap s) n"

definition page_write :: "nat \<Rightarrow> pagemap_entry_data \<Rightarrow> pager \<Rightarrow> pager" where
  "page_write n d s = s\<lparr>pagemap := vec_set empty_page n d (pagemap s)\<rparr>"

definition page_of :: "pager \<Rightarrow> vm_offset_t \<Rightarrow> nat" where
  "page_of s off = unat (off div page_size s)"

definition offset_of :: "pager \<Rightarrow> nat \<Rightarrow> vm_offset_t" where
  "offset_of s n = of_nat n * page_size s"

definition npages :: "pager \<Rightarrow> vm_size_t \<Rightarrow> nat" where
  "npages s len = unat (len div page_size s)"

definition pager_port :: "pager \<Rightarrow> mach_port_t" where
  "pager_port s = port_right s"

definition PRECIOUS :: "pager \<Rightarrow> bool" where
  "PRECIOUS s = notify_on_evict s"

section \<open>Outstanding locks\<close>

definition range_locks :: "pager \<Rightarrow> lock_range \<Rightarrow> outstanding_lock" where
  "range_locks s k = omap_at [] k (outstanding_locks s)"

definition client_lock :: "pager \<Rightarrow> lock_range \<Rightarrow> mach_port_t \<Rightarrow> outstanding_client_lock" where
  "client_lock s k c = omap_at fresh_client_lock c (range_locks s k)"

definition put_client_lock ::
    "lock_range \<Rightarrow> mach_port_t \<Rightarrow> outstanding_client_lock \<Rightarrow> pager \<Rightarrow> pager" where
  "put_client_lock k c r s =
     s\<lparr>outstanding_locks := omap_put k (omap_put c r (range_locks s k)) (outstanding_locks s)\<rparr>"

definition internal_flush_request :: "mach_port_t \<Rightarrow> vm_offset_t \<Rightarrow> pager \<Rightarrow> pager" where
  "internal_flush_request c OFFSET s =
     (let k = (OFFSET, page_size s);
          r = client_lock s k c;
          s = put_client_lock k c (r\<lparr>internal_lock_outstanding := True, count := count r + 1\<rparr>) s
      in emit (Lock_request c OFFSET (page_size s) MEMORY_OBJECT_RETURN_ALL True
                 VM_PROT_NO_CHANGE (pager_port s)) s)"

section \<open>Serving the clients that wait\<close>

definition flush_clients :: "mach_port_t list \<Rightarrow> vm_offset_t \<Rightarrow> pager \<Rightarrow> pager" where
  "flush_clients cs OFFSET s = fold (\<lambda>c. internal_flush_request c OFFSET) cs s"

text \<open>The do-while loop: the first client is served read-only, and every reader right behind it.\<close>

function service_readers ::
    "vm_offset_t \<Rightarrow> vm_address_t \<Rightarrow> bool \<Rightarrow> WAITLIST_client \<Rightarrow> pager \<Rightarrow> pagemap_entry_data
     \<Rightarrow> (pager \<times> pagemap_entry_data) result" where
  "service_readers offset data deallocate first_client s tmp =
     andThen (pop_first_WAITLIST_client (add_client_to_ACCESSLIST (client first_client) tmp))
       (\<lambda>tmp'.
          if is_WAITLIST_empty tmp' then
            Inr (emit (Data_supply (client first_client) offset data (page_size s) deallocate
                         VM_PROT_WRITE (PRECIOUS s)) s, tmp')
          else
            andThen (first_WAITLIST_client tmp')
              (\<lambda>next_client.
                 let s' = emit (Data_supply (client first_client) offset data (page_size s)
                                  (if write_access_requested next_client then deallocate else False)
                                  VM_PROT_WRITE (PRECIOUS s)) s
                 in if \<not> write_access_requested next_client
                    then service_readers offset data deallocate next_client s' tmp'
                    else Inr (s', tmp')))"
  by pat_completeness auto
termination
  by (relation "measure (\<lambda>(_, _, _, _, _, tmp). length (WAITLIST tmp))") auto

declare service_readers.simps [simp del]

definition service_WAITLIST ::
    "vm_offset_t \<Rightarrow> vm_address_t \<Rightarrow> bool \<Rightarrow> bool \<Rightarrow> pager \<Rightarrow> pagemap_entry_data
     \<Rightarrow> (pager \<times> pagemap_entry_data) result" where
  "service_WAITLIST offset data allow_write_access deallocate s tmp =
     (if terminating s then Inr (s, tmp)
      else andThen (first_WAITLIST_client tmp) (\<lambda>first_client.
        andThen
          (if allow_write_access \<and> write_access_requested first_client then
             let s' = emit (Data_supply (client first_client) offset data (page_size s) deallocate
                              VM_PROT_NONE (PRECIOUS s)) s
             in andThen (pop_first_WAITLIST_client (add_client_to_ACCESSLIST (client first_client) tmp))
                  (\<lambda>tmp'. Inr (s', set_WRITE_ACCESS_GRANTED True tmp'))
           else
             andThen (service_readers offset data deallocate first_client s tmp)
               (\<lambda>(s', tmp'). Inr (s', set_WRITE_ACCESS_GRANTED False tmp')))
          (\<lambda>(s', tmp').
             if \<not> is_WAITLIST_empty tmp'
             then Inr (flush_clients (ACCESSLIST tmp') offset s', tmp')
             else Inr (s', tmp'))))"

definition send_error_to_client ::
    "vm_offset_t \<Rightarrow> pagemap_entry_data \<Rightarrow> WAITLIST_client \<Rightarrow> pager \<Rightarrow> pager" where
  "send_error_to_client OFFSET tmp w s =
     (if is_client_on_ACCESSLIST (client w) tmp then
        let s = internal_flush_request (client w) OFFSET s
        in s\<lparr>NEXTERROR := NEXTERROR s @
               [\<lparr>ne_client = client w, ne_offset = OFFSET, ne_error = ERROR tmp\<rparr>]\<rparr>
      else emit (Data_error (client w) OFFSET (page_size s) (ERROR tmp)) s)"

definition send_error_to_WAITLIST ::
    "vm_offset_t \<Rightarrow> pager \<Rightarrow> pagemap_entry_data \<Rightarrow> pager \<times> pagemap_entry_data" where
  "send_error_to_WAITLIST OFFSET s tmp =
     (fold (send_error_to_client OFFSET tmp) (WAITLIST tmp) s, clear_WAITLIST tmp)"

definition finalize_unlock ::
    "vm_offset_t \<Rightarrow> kern_return_t \<Rightarrow> pager \<Rightarrow> pagemap_entry_data
     \<Rightarrow> (pager \<times> pagemap_entry_data) result" where
  "finalize_unlock OFFSET err s tmp =
     andThen (first_WAITLIST_client tmp) (\<lambda>w.
     andThen (pop_first_WAITLIST_client tmp) (\<lambda>tmp.
       if err = KERN_SUCCESS then
         let s = emit (Lock_request (client w) OFFSET (page_size s) MEMORY_OBJECT_RETURN_NONE False
                         VM_PROT_NONE MACH_PORT_NULL) s;
             tmp = set_WRITE_ACCESS_GRANTED True tmp
         in Inr (if \<not> is_WAITLIST_empty tmp then internal_flush_request (client w) OFFSET s else s, tmp)
       else
         let s = internal_flush_request (client w) OFFSET s
         in Inr (s\<lparr>NEXTERROR := NEXTERROR s @
                     [\<lparr>ne_client = client w, ne_offset = OFFSET, ne_error = err\<rparr>]\<rparr>, tmp)))"

end
