(* ===== verification/Pager_Service.thy ===== *)
theory Pager_Service
  imports Pager_State
begin

text \<open>
  What the internal routines of \<open>Pager_State\<close> do. The frame rules say which members each routine
  leaves alone; \<open>service_WAITLIST_eq\<close> gives \<^verbatim>\<open>service_WAITLIST\<close> in closed form: the batch of clients it
  serves (\<open>served_batch\<close>), the page afterwards (\<open>serviced_page\<close>) and the messages it sends; the
  analogous facts for errors and unlocks follow.
\<close>


section \<open>Frame rules\<close>

lemma emit_frame [frame_simps, simp]:
  "port_right (emit e s) = port_right s" "page_size (emit e s) = page_size s"
  "may_cache (emit e s) = may_cache s" "copy_strategy (emit e s) = copy_strategy s"
  "notify_on_evict (emit e s) = notify_on_evict s" "terminating (emit e s) = terminating s"
  "clients (emit e s) = clients s" "WRITEWAIT (emit e s) = WRITEWAIT s"
  "NEXTERROR (emit e s) = NEXTERROR s" "outstanding_locks (emit e s) = outstanding_locks s"
  "outstanding_change_requests (emit e s) = outstanding_change_requests s"
  "pagemap (emit e s) = pagemap s" "events (emit e s) = events s @ [e]"
  by (simp_all add: emit_def)

lemma page_write_frame [frame_simps, simp]:
  "port_right (page_write n d s) = port_right s" "page_size (page_write n d s) = page_size s"
  "may_cache (page_write n d s) = may_cache s" "copy_strategy (page_write n d s) = copy_strategy s"
  "notify_on_evict (page_write n d s) = notify_on_evict s"
  "terminating (page_write n d s) = terminating s"
  "clients (page_write n d s) = clients s" "WRITEWAIT (page_write n d s) = WRITEWAIT s"
  "NEXTERROR (page_write n d s) = NEXTERROR s"
  "outstanding_locks (page_write n d s) = outstanding_locks s"
  "outstanding_change_requests (page_write n d s) = outstanding_change_requests s"
  "events (page_write n d s) = events s"
  by (simp_all add: page_write_def)

lemma page_read_write [simp]:
  "page_read (page_write n d s) m = (if m = n then d else page_read s m)"
  by (simp add: page_read_def page_write_def plain_pages.read_assign)

lemma page_read_cong: "pagemap s = pagemap s' \<Longrightarrow> page_read s n = page_read s' n"
  by (simp add: page_read_def)

lemma page_read_emit [simp]: "page_read (emit e s) n = page_read s n"
  by (simp add: page_read_def)

lemma put_client_lock_frame [frame_simps, simp]:
  "port_right (put_client_lock k c r s) = port_right s"
  "page_size (put_client_lock k c r s) = page_size s"
  "may_cache (put_client_lock k c r s) = may_cache s"
  "copy_strategy (put_client_lock k c r s) = copy_strategy s"
  "notify_on_evict (put_client_lock k c r s) = notify_on_evict s"
  "terminating (put_client_lock k c r s) = terminating s"
  "clients (put_client_lock k c r s) = clients s" "WRITEWAIT (put_client_lock k c r s) = WRITEWAIT s"
  "NEXTERROR (put_client_lock k c r s) = NEXTERROR s"
  "outstanding_change_requests (put_client_lock k c r s) = outstanding_change_requests s"
  "pagemap (put_client_lock k c r s) = pagemap s" "events (put_client_lock k c r s) = events s"
  by (simp_all add: put_client_lock_def)

lemma internal_flush_request_frame [frame_simps, simp]:
  "port_right (internal_flush_request c off s) = port_right s"
  "page_size (internal_flush_request c off s) = page_size s"
  "may_cache (internal_flush_request c off s) = may_cache s"
  "copy_strategy (internal_flush_request c off s) = copy_strategy s"
  "notify_on_evict (internal_flush_request c off s) = notify_on_evict s"
  "terminating (internal_flush_request c off s) = terminating s"
  "clients (internal_flush_request c off s) = clients s"
  "WRITEWAIT (internal_flush_request c off s) = WRITEWAIT s"
  "NEXTERROR (internal_flush_request c off s) = NEXTERROR s"
  "outstanding_change_requests (internal_flush_request c off s) = outstanding_change_requests s"
  "pagemap (internal_flush_request c off s) = pagemap s"
  "page_read (internal_flush_request c off s) n = page_read s n"
  by (simp_all add: internal_flush_request_def Let_def page_read_def)

definition flush_message :: "pager \<Rightarrow> vm_offset_t \<Rightarrow> mach_port_t \<Rightarrow> event" where
  "flush_message s off c =
     Lock_request c off (page_size s) MEMORY_OBJECT_RETURN_ALL True VM_PROT_NO_CHANGE (port_right s)"

lemma internal_flush_request_events [simp]:
  "events (internal_flush_request c off s) = events s @ [flush_message s off c]"
  by (simp add: internal_flush_request_def Let_def flush_message_def pager_port_def)

lemma flush_message_cong:
  "page_size s = page_size s' \<Longrightarrow> port_right s = port_right s' \<Longrightarrow>
     flush_message s off c = flush_message s' off c"
  by (simp add: flush_message_def)

lemma flush_clients_frame [frame_simps, simp]:
  "port_right (flush_clients cs off s) = port_right s"
  "page_size (flush_clients cs off s) = page_size s"
  "may_cache (flush_clients cs off s) = may_cache s"
  "copy_strategy (flush_clients cs off s) = copy_strategy s"
  "notify_on_evict (flush_clients cs off s) = notify_on_evict s"
  "terminating (flush_clients cs off s) = terminating s"
  "clients (flush_clients cs off s) = clients s"
  "WRITEWAIT (flush_clients cs off s) = WRITEWAIT s"
  "NEXTERROR (flush_clients cs off s) = NEXTERROR s"
  "outstanding_change_requests (flush_clients cs off s) = outstanding_change_requests s"
  "pagemap (flush_clients cs off s) = pagemap s"
  "page_read (flush_clients cs off s) n = page_read s n"
  by (simp_all add: flush_clients_def fold_invariant_field page_read_def)

lemma flush_clients_events [simp]:
  "events (flush_clients cs off s) = events s @ map (flush_message s off) cs"
proof (induction cs arbitrary: s)
  case Nil
  then show ?case by (simp add: flush_clients_def)
next
  case (Cons c cs)
  have "flush_clients (c # cs) off s = flush_clients cs off (internal_flush_request c off s)"
    by (simp add: flush_clients_def)
  then show ?case
    using Cons.IH [of "internal_flush_request c off s"] by (simp add: flush_message_def)
qed

section \<open>Serving readers\<close>

definition reader_supply ::
    "pager \<Rightarrow> vm_offset_t \<Rightarrow> vm_address_t \<Rightarrow> bool \<Rightarrow> mach_port_t \<Rightarrow> event" where
  "reader_supply s off data dealloc c =
     Data_supply c off data (page_size s) dealloc VM_PROT_WRITE (PRECIOUS s)"

definition reader_supplies ::
    "pager \<Rightarrow> vm_offset_t \<Rightarrow> vm_address_t \<Rightarrow> bool \<Rightarrow> mach_port_t list \<Rightarrow> event list" where
  "reader_supplies s off data dealloc cs =
     map (reader_supply s off data False) (butlast cs) @ [reader_supply s off data dealloc (last cs)]"

abbreviation is_reader :: "WAITLIST_client \<Rightarrow> bool" where
  "is_reader w \<equiv> \<not> write_access_requested w"

lemma reader_supply_events [simp]: "reader_supply (s\<lparr>events := es\<rparr>) = reader_supply s"
  by (intro ext) (simp add: reader_supply_def PRECIOUS_def)

lemma reader_supplies_events [simp]: "reader_supplies (s\<lparr>events := es\<rparr>) = reader_supplies s"
  by (intro ext) (simp add: reader_supplies_def)

lemma service_readers_eq:
  assumes "WAITLIST tmp = w # ws"
  shows "service_readers off data dealloc w s tmp =
    Inr (s\<lparr>events := events s @ reader_supplies s off data dealloc
              (map client (w # takeWhile is_reader ws))\<rparr>,
         tmp\<lparr>ACCESSLIST := fold oset_insert (map client (w # takeWhile is_reader ws)) (ACCESSLIST tmp),
             WAITLIST := dropWhile is_reader ws\<rparr>)"
  using assms
proof (induction ws arbitrary: w s tmp)
  case Nil
  then show ?case
    by (simp add: service_readers.simps [of off data dealloc w s tmp] pop_first_WAITLIST_client_def
      reader_supplies_def reader_supply_def emit_def)
next
  case (Cons v vs)
  let ?tmp = "tmp\<lparr>ACCESSLIST := oset_insert (client w) (ACCESSLIST tmp), WAITLIST := v # vs\<rparr>"
  show ?case
  proof (cases "write_access_requested v")
    case True
    with Cons.prems show ?thesis
      by (simp add: service_readers.simps [of off data dealloc w s tmp] pop_first_WAITLIST_client_def
        first_WAITLIST_client_def reader_supplies_def reader_supply_def emit_def)
  next
    case False
    let ?s = "emit (reader_supply s off data False (client w)) s"
    have "service_readers off data dealloc w s tmp = service_readers off data dealloc v ?s ?tmp"
      using Cons.prems False
      by (simp add: service_readers.simps [of off data dealloc w s tmp] pop_first_WAITLIST_client_def
        first_WAITLIST_client_def reader_supply_def)
    also have "\<dots> = Inr (?s\<lparr>events := events ?s @ reader_supplies ?s off data dealloc
              (map client (v # takeWhile is_reader vs))\<rparr>,
         ?tmp\<lparr>ACCESSLIST := fold oset_insert (map client (v # takeWhile is_reader vs)) (ACCESSLIST ?tmp),
             WAITLIST := dropWhile is_reader vs\<rparr>)"
      by (rule Cons.IH) simp
    finally show ?thesis
      using False by (simp add: emit_def) (simp add: reader_supplies_def)
  qed
qed


section \<open>What serving the WAITLIST does, in closed form\<close>

text \<open>The clients served in one go: a single writer, or the first client and the readers behind it.\<close>

definition served_batch :: "bool \<Rightarrow> WAITLIST_client list \<Rightarrow> WAITLIST_client list" where
  "served_batch allow ws = (case ws of [] \<Rightarrow> []
     | w # vs \<Rightarrow> if allow \<and> write_access_requested w then [w] else w # takeWhile is_reader vs)"

definition grants_write :: "bool \<Rightarrow> WAITLIST_client list \<Rightarrow> bool" where
  "grants_write allow ws \<longleftrightarrow> allow \<and> ws \<noteq> [] \<and> write_access_requested (hd ws)"

definition serviced_page :: "bool \<Rightarrow> pagemap_entry_data \<Rightarrow> pagemap_entry_data" where
  "serviced_page allow d =
     d\<lparr>ACCESSLIST := fold oset_insert (map client (served_batch allow (WAITLIST d))) (ACCESSLIST d),
       WAITLIST := drop (length (served_batch allow (WAITLIST d))) (WAITLIST d),
       WRITE_ACCESS_GRANTED := grants_write allow (WAITLIST d)\<rparr>"

definition supply_messages ::
    "pager \<Rightarrow> vm_offset_t \<Rightarrow> vm_address_t \<Rightarrow> bool \<Rightarrow> bool \<Rightarrow> WAITLIST_client list \<Rightarrow> event list" where
  "supply_messages s off data allow dealloc ws =
     (if grants_write allow ws
      then [Data_supply (client (hd ws)) off data (page_size s) dealloc VM_PROT_NONE (PRECIOUS s)]
      else reader_supplies s off data dealloc (map client (served_batch allow ws)))"

definition serviced_pager ::
    "vm_offset_t \<Rightarrow> vm_address_t \<Rightarrow> bool \<Rightarrow> bool \<Rightarrow> pager \<Rightarrow> pagemap_entry_data \<Rightarrow> pager" where
  "serviced_pager off data allow dealloc s d =
     (let s' = s\<lparr>events := events s @ supply_messages s off data allow dealloc (WAITLIST d)\<rparr>
      in if WAITLIST (serviced_page allow d) \<noteq> []
         then flush_clients (ACCESSLIST (serviced_page allow d)) off s' else s')"

lemma dropWhile_takeWhile_drop: "drop (length (takeWhile P xs)) xs = dropWhile P xs"
  by (induction xs) auto

lemma service_WAITLIST_eq:
  assumes "\<not> terminating s" and ws: "WAITLIST tmp \<noteq> []"
  shows "service_WAITLIST off data allow dealloc s tmp =
    Inr (serviced_pager off data allow dealloc s tmp, serviced_page allow tmp)"
proof -
  from ws obtain w vs where w: "WAITLIST tmp = w # vs" by (cases "WAITLIST tmp") auto
  show ?thesis
  proof (cases "allow \<and> write_access_requested w")
    case True
    with assms(1) w show ?thesis
      by (simp add: service_WAITLIST_def first_WAITLIST_client_def pop_first_WAITLIST_client_def
        serviced_pager_def serviced_page_def served_batch_def grants_write_def supply_messages_def
        emit_def Let_def)
  next
    case False
    then have "served_batch allow (WAITLIST tmp) = w # takeWhile is_reader vs"
      and "\<not> grants_write allow (WAITLIST tmp)"
      using w by (auto simp: served_batch_def grants_write_def)
    with False assms(1) w show ?thesis
      by (cases allow; cases "write_access_requested w")
        (simp_all add: service_WAITLIST_def first_WAITLIST_client_def service_readers_eq
        serviced_pager_def serviced_page_def supply_messages_def
        dropWhile_takeWhile_drop Let_def)
  qed
qed

lemma service_WAITLIST_terminating:
  "terminating s \<Longrightarrow> service_WAITLIST off data allow dealloc s tmp = Inr (s, tmp)"
  by (simp add: service_WAITLIST_def)

lemma service_WAITLIST_empty:
  "\<not> terminating s \<Longrightarrow> WAITLIST tmp = [] \<Longrightarrow>
     service_WAITLIST off data allow dealloc s tmp = Inl (Out_of_range ''WAITLIST.at(0)'')"
  by (simp add: service_WAITLIST_def first_WAITLIST_client_def)

lemma service_WAITLIST_cases:
  assumes "service_WAITLIST off data allow dealloc s tmp = Inr (s', tmp')"
  obtains (terminating) "terminating s" "s' = s" "tmp' = tmp"
  | (served) "\<not> terminating s" "WAITLIST tmp \<noteq> []" "s' = serviced_pager off data allow dealloc s tmp"
      "tmp' = serviced_page allow tmp"
  using assms service_WAITLIST_eq [of s tmp off data allow dealloc]
    service_WAITLIST_terminating service_WAITLIST_empty
  by (cases "terminating s"; cases "WAITLIST tmp = []") auto

lemma serviced_pager_frame [frame_simps, simp]:
  "port_right (serviced_pager off data allow dealloc s d) = port_right s"
  "page_size (serviced_pager off data allow dealloc s d) = page_size s"
  "may_cache (serviced_pager off data allow dealloc s d) = may_cache s"
  "copy_strategy (serviced_pager off data allow dealloc s d) = copy_strategy s"
  "notify_on_evict (serviced_pager off data allow dealloc s d) = notify_on_evict s"
  "terminating (serviced_pager off data allow dealloc s d) = terminating s"
  "clients (serviced_pager off data allow dealloc s d) = clients s"
  "WRITEWAIT (serviced_pager off data allow dealloc s d) = WRITEWAIT s"
  "NEXTERROR (serviced_pager off data allow dealloc s d) = NEXTERROR s"
  "outstanding_change_requests (serviced_pager off data allow dealloc s d) = outstanding_change_requests s"
  "pagemap (serviced_pager off data allow dealloc s d) = pagemap s"
  by (simp_all add: serviced_pager_def Let_def)

lemma serviced_pager_events:
  "events (serviced_pager off data allow dealloc s d) =
     events s @ supply_messages s off data allow dealloc (WAITLIST d) @
     (if WAITLIST (serviced_page allow d) \<noteq> []
      then map (flush_message s off) (ACCESSLIST (serviced_page allow d)) else [])"
  by (simp add: serviced_pager_def Let_def flush_message_def)

lemma set_fold_oset_insert [simp]: "set (fold oset_insert xs ys) = set xs \<union> set ys"
  by (induction xs arbitrary: ys) auto

lemma oset_ok_fold_insert [simp]: "oset_ok ys \<Longrightarrow> oset_ok (fold oset_insert xs ys)"
  by (induction xs arbitrary: ys) auto

lemma serviced_page_fields [simp]:
  "PAGINGOUT (serviced_page allow d) = PAGINGOUT d" "INVALID (serviced_page allow d) = INVALID d"
  "ERROR (serviced_page allow d) = ERROR d"
  "WRITE_ACCESS_GRANTED (serviced_page allow d) = grants_write allow (WAITLIST d)"
  "set (ACCESSLIST (serviced_page allow d)) =
     client ` set (served_batch allow (WAITLIST d)) \<union> set (ACCESSLIST d)"
  "oset_ok (ACCESSLIST d) \<Longrightarrow> oset_ok (ACCESSLIST (serviced_page allow d))"
  by (simp_all add: serviced_page_def)

section \<open>Errors and unlocks\<close>

lemma send_error_to_client_frame [frame_simps, simp]:
  "port_right (send_error_to_client off d w s) = port_right s"
  "page_size (send_error_to_client off d w s) = page_size s"
  "may_cache (send_error_to_client off d w s) = may_cache s"
  "copy_strategy (send_error_to_client off d w s) = copy_strategy s"
  "notify_on_evict (send_error_to_client off d w s) = notify_on_evict s"
  "terminating (send_error_to_client off d w s) = terminating s"
  "clients (send_error_to_client off d w s) = clients s"
  "WRITEWAIT (send_error_to_client off d w s) = WRITEWAIT s"
  "outstanding_change_requests (send_error_to_client off d w s) = outstanding_change_requests s"
  "pagemap (send_error_to_client off d w s) = pagemap s"
  by (simp_all add: send_error_to_client_def Let_def)

lemma send_error_to_WAITLIST_frame [frame_simps, simp]:
  "port_right (fst (send_error_to_WAITLIST off s d)) = port_right s"
  "page_size (fst (send_error_to_WAITLIST off s d)) = page_size s"
  "may_cache (fst (send_error_to_WAITLIST off s d)) = may_cache s"
  "copy_strategy (fst (send_error_to_WAITLIST off s d)) = copy_strategy s"
  "notify_on_evict (fst (send_error_to_WAITLIST off s d)) = notify_on_evict s"
  "terminating (fst (send_error_to_WAITLIST off s d)) = terminating s"
  "clients (fst (send_error_to_WAITLIST off s d)) = clients s"
  "WRITEWAIT (fst (send_error_to_WAITLIST off s d)) = WRITEWAIT s"
  "outstanding_change_requests (fst (send_error_to_WAITLIST off s d)) = outstanding_change_requests s"
  "pagemap (fst (send_error_to_WAITLIST off s d)) = pagemap s"
  "snd (send_error_to_WAITLIST off s d) = d\<lparr>WAITLIST := []\<rparr>"
  by (simp_all add: send_error_to_WAITLIST_def fold_invariant_field)

definition unlocked_page :: "kern_return_t \<Rightarrow> pagemap_entry_data \<Rightarrow> pagemap_entry_data" where
  "unlocked_page err d =
     (if err = KERN_SUCCESS then d\<lparr>WAITLIST := tl (WAITLIST d), WRITE_ACCESS_GRANTED := True\<rparr>
      else d\<lparr>WAITLIST := tl (WAITLIST d)\<rparr>)"

lemma finalize_unlock_cases:
  assumes "finalize_unlock off err s d = Inr (s', d')"
  shows "WAITLIST d \<noteq> []" "d' = unlocked_page err d"
    "pagemap s' = pagemap s" "port_right s' = port_right s" "page_size s' = page_size s"
    "may_cache s' = may_cache s" "copy_strategy s' = copy_strategy s"
    "notify_on_evict s' = notify_on_evict s" "terminating s' = terminating s" "clients s' = clients s"
    "WRITEWAIT s' = WRITEWAIT s" "outstanding_change_requests s' = outstanding_change_requests s"
  using assms by (auto simp: finalize_unlock_def unlocked_page_def Let_def split: if_splits)

lemma finalize_unlock_succeeds:
  "WAITLIST d \<noteq> [] \<Longrightarrow> \<exists>s'. finalize_unlock off err s d = Inr (s', unlocked_page err d)"
  by (cases "WAITLIST d")
    (auto simp: finalize_unlock_def first_WAITLIST_client_def pop_first_WAITLIST_client_def
      unlocked_page_def Let_def)

end
