(* ===== verification/Pager_Requests.thy ===== *)
theory Pager_Requests
  imports Pager_Service
begin

text \<open>
  The handlers of the messages by which a kernel asks for a page, for write access to a page it
  has, and confirms a lock request (\<^verbatim>\<open>libpager/pagemap.cc\<close>: \<^verbatim>\<open>data_request\<close>, \<^verbatim>\<open>data_unlock\<close>,
  \<^verbatim>\<open>internal_lock_completed\<close>, \<^verbatim>\<open>lock_completed\<close>).

  Each handler holds the pager's lock except around the calls of the file system's functions, so
  it is modelled by its critical sections and the calls between them: \<open>data_request_locked\<close>, the
  read, \<open>data_request_supply\<close>; \<open>ilc_scan\<close>, \<open>ilc_upcalls\<close>, \<open>ilc_finish\<close>; \<open>unlock_scan\<close>,
  \<open>unlock_upcalls\<close>, \<open>unlock_finish\<close>. The handler itself is their composition: the messages of the
  kernels are served one after the other by the one worker thread of \<^verbatim>\<open>demuxer.c\<close>.

  A page number is the natural number \<^verbatim>\<open>OFFSET / page_size + i\<close>; it stays below \<^verbatim>\<open>2^32\<close> as soon as a
  page has two bytes. Offsets \<^verbatim>\<open>page * page_size\<close> are 32-bit and wrap around as in the code.
\<close>

section \<open>data_request\<close>

datatype after_request = Request_done | Request_page_in | Request_flushed

fun erase_first :: "('a \<Rightarrow> bool) \<Rightarrow> 'a list \<Rightarrow> 'a list" where
  "erase_first P [] = []"
| "erase_first P (x # xs) = (if P x then xs else x # erase_first P xs)"

definition is_next_error :: "mach_port_t \<Rightarrow> vm_offset_t \<Rightarrow> NEXTERROR_entry \<Rightarrow> bool" where
  "is_next_error c off e \<longleftrightarrow> ne_client e = c \<and> ne_offset e = off"

text \<open>
  The first critical section. In the branch for a pending error the code also sets ERROR in
  \<^verbatim>\<open>tmp_pagemap_entry\<close>, but returns without storing it.
\<close>

definition data_request_locked ::
    "mach_port_t \<Rightarrow> vm_offset_t \<Rightarrow> vm_size_t \<Rightarrow> vm_prot_t \<Rightarrow> pager \<Rightarrow> (pager \<times> after_request) result" where
  "data_request_locked MEMORY_CONTROL OFFSET LEN DESIRED_ACCESS s =
     (if LEN \<noteq> page_size s then Inl (Assert_failed ''LENGTH == page_size'')
      else if OFFSET mod page_size s \<noteq> 0 then Inl (Assert_failed ''OFFSET % page_size == 0'')
      else if terminating s then Inr (s, Request_done)
      else
        let n = page_of s OFFSET; tmp = page_read s n;
            queued = add_client_to_WAITLIST MEMORY_CONTROL (wants_write DESIRED_ACCESS)
        in case List.find (is_next_error MEMORY_CONTROL OFFSET) (NEXTERROR s) of
          Some e \<Rightarrow>
            let s = emit (Data_error MEMORY_CONTROL OFFSET LEN (ne_error e)) s
            in Inr (s\<lparr>NEXTERROR := erase_first (is_next_error MEMORY_CONTROL OFFSET) (NEXTERROR s)\<rparr>,
                    Request_done)
        | None \<Rightarrow>
            if PAGINGOUT tmp then
              let s = (if is_WAITLIST_empty tmp \<and> \<not> is_ACCESSLIST_empty tmp
                       then flush_clients (ACCESSLIST tmp) OFFSET s else s)
              in Inr (page_write n (queued tmp) s, Request_done)
            else if is_client_on_ACCESSLIST MEMORY_CONTROL tmp \<and> \<not> is_WAITLIST_empty tmp then
              Inr (page_write n (queued tmp) s, Request_flushed)
            else
              let tmp = (if is_client_on_ACCESSLIST MEMORY_CONTROL tmp
                         then set_WRITE_ACCESS_GRANTED False
                                (remove_client_from_ACCESSLIST MEMORY_CONTROL tmp)
                         else tmp)
              in if \<not> is_WAITLIST_empty tmp then Inr (page_write n (queued tmp) s, Request_done)
                 else if WRITE_ACCESS_GRANTED tmp then
                   Inr (page_write n (queued tmp) (flush_clients (ACCESSLIST tmp) OFFSET s), Request_done)
                 else if wants_write DESIRED_ACCESS \<and> \<not> is_ACCESSLIST_empty tmp then
                   Inr (page_write n (queued tmp) (flush_clients (ACCESSLIST tmp) OFFSET s), Request_done)
                 else
                   let s = (if INVALID tmp
                            then emit (Data_error MEMORY_CONTROL OFFSET LEN (ERROR tmp)) s else s)
                   in Inr (page_write n (queued tmp) s, Request_page_in))"

definition data_request_supply ::
    "vm_offset_t \<Rightarrow> kern_return_t \<Rightarrow> vm_address_t \<Rightarrow> bool \<Rightarrow> pager \<Rightarrow> pager result" where
  "data_request_supply OFFSET err buffer write_lock s =
     (let n = page_of s OFFSET; tmp = set_ERROR err (page_read s n)
      in andThen (if err \<noteq> KERN_SUCCESS then Inr (send_error_to_WAITLIST OFFSET s tmp)
                  else service_WAITLIST OFFSET buffer (\<not> write_lock) True s tmp)
           (\<lambda>(s, tmp). Inr (page_write n tmp s)))"

section \<open>internal_lock_completed\<close>

datatype page_operation = NOTHING | PAGEIN | UNLOCK

datatype upcall_result =
    No_result
  | Read_result kern_return_t vm_address_t bool
  | Unlock_result kern_return_t

definition ilc_scan_page :: "mach_port_t \<Rightarrow> nat \<Rightarrow> pager \<Rightarrow> (pager \<times> page_operation) result" where
  "ilc_scan_page MEMORY_CONTROL n s =
     (if WRITE_ACCESS_GRANTED (page_read s n)
      then Inl (Assert_failed ''! pagemap[page]->get_WRITE_ACCESS_GRANTED()'')
      else if is_client_on_ACCESSLIST MEMORY_CONTROL (page_read s n)
              \<and> \<not> is_WAITLIST_empty (page_read s n) then
        let tmp = remove_client_from_ACCESSLIST MEMORY_CONTROL (page_read s n)
        in if is_ACCESSLIST_empty tmp then
             if \<not> INVALID tmp then Inr (page_write n tmp s, PAGEIN)
             else let (s, tmp) = send_error_to_WAITLIST (offset_of s n) s tmp
                  in Inr (page_write n tmp s, NOTHING)
           else if ACCESSLIST_num_clients tmp = 1 then
             andThen (first_WAITLIST_client tmp) (\<lambda>w.
               Inr (page_write n tmp s,
                    if is_client_on_ACCESSLIST (client w) tmp then UNLOCK else NOTHING))
           else Inr (page_write n tmp s, NOTHING)
      else Inr (s, NOTHING))"

fun ilc_scan :: "mach_port_t \<Rightarrow> nat list \<Rightarrow> pager \<Rightarrow> (pager \<times> page_operation list) result" where
  "ilc_scan MEMORY_CONTROL [] s = Inr (s, [])"
| "ilc_scan MEMORY_CONTROL (n # ns) s =
     andThen (ilc_scan_page MEMORY_CONTROL n s) (\<lambda>(s, op).
     andThen (ilc_scan MEMORY_CONTROL ns s) (\<lambda>(s, ops). Inr (s, op # ops)))"

fun ilc_upcalls ::
    "user_pager \<Rightarrow> (nat \<times> page_operation) list \<Rightarrow> pager \<Rightarrow> pager \<times> upcall_result list" where
  "ilc_upcalls U [] s = (s, [])"
| "ilc_upcalls U ((n, op) # rest) s =
     (let off = offset_of s n;
          (s, r) = (case op of
              PAGEIN \<Rightarrow> (let (err, buffer, write_lock) = pager_read_page U (events s) off
                         in (emit (Read_page off) s, Read_result err buffer write_lock))
            | UNLOCK \<Rightarrow> (emit (Unlock_page off) s, Unlock_result (pager_unlock_page U (events s) off))
            | NOTHING \<Rightarrow> (s, No_result));
          (s, rs) = ilc_upcalls U rest s
      in (s, r # rs))"

definition ilc_finish_page :: "nat \<Rightarrow> upcall_result \<Rightarrow> pager \<Rightarrow> pager result" where
  "ilc_finish_page n r s =
     (case r of
        Read_result err buffer write_lock \<Rightarrow>
          let tmp = set_ERROR err (page_read s n)
          in andThen (if err = KERN_SUCCESS
                      then service_WAITLIST (offset_of s n) buffer (\<not> write_lock) True s tmp
                      else Inr (send_error_to_WAITLIST (offset_of s n) s tmp))
               (\<lambda>(s, tmp). Inr (page_write n tmp s))
      | Unlock_result err \<Rightarrow>
          andThen (finalize_unlock (offset_of s n) err s (page_read s n))
            (\<lambda>(s, tmp). Inr (page_write n tmp s))
      | No_result \<Rightarrow> Inr s)"

fun ilc_finish :: "(nat \<times> upcall_result) list \<Rightarrow> pager \<Rightarrow> pager result" where
  "ilc_finish [] s = Inr s"
| "ilc_finish ((n, r) # rest) s = andThen (ilc_finish_page n r s) (ilc_finish rest)"

definition page_range :: "pager \<Rightarrow> vm_offset_t \<Rightarrow> vm_size_t \<Rightarrow> nat list" where
  "page_range s OFFSET LEN = [page_of s OFFSET ..< page_of s OFFSET + npages s LEN]"

definition internal_lock_completed ::
    "user_pager \<Rightarrow> mach_port_t \<Rightarrow> vm_offset_t \<Rightarrow> vm_size_t \<Rightarrow> pager \<Rightarrow> pager result" where
  "internal_lock_completed U MEMORY_CONTROL OFFSET LEN s =
     (if LEN mod page_size s \<noteq> 0 then Inl (Assert_failed ''LENGTH % page_size == 0'')
      else if OFFSET mod page_size s \<noteq> 0 then Inl (Assert_failed ''OFFSET % page_size == 0'')
      else if terminating s then Inr s
      else let ns = page_range s OFFSET LEN
        in andThen (ilc_scan MEMORY_CONTROL ns s) (\<lambda>(s, ops).
             let (s, rs) = ilc_upcalls U (zip ns ops) s
             in ilc_finish (zip ns rs) s))"

text \<open>The whole of \<^verbatim>\<open>data_request\<close>.\<close>

definition data_request ::
    "user_pager \<Rightarrow> mach_port_t \<Rightarrow> vm_offset_t \<Rightarrow> vm_size_t \<Rightarrow> vm_prot_t \<Rightarrow> pager \<Rightarrow> pager result" where
  "data_request U MEMORY_CONTROL OFFSET LEN DESIRED_ACCESS s =
     andThen (data_request_locked MEMORY_CONTROL OFFSET LEN DESIRED_ACCESS s) (\<lambda>(s, next).
       case next of
         Request_done \<Rightarrow> Inr s
       | Request_flushed \<Rightarrow> internal_lock_completed U MEMORY_CONTROL OFFSET (page_size s) s
       | Request_page_in \<Rightarrow>
           let (err, buffer, write_lock) = pager_read_page U (events s) OFFSET
           in data_request_supply OFFSET err buffer write_lock (emit (Read_page OFFSET) s))"

section \<open>lock_completed\<close>

definition lock_completed ::
    "user_pager \<Rightarrow> mach_port_t \<Rightarrow> vm_offset_t \<Rightarrow> vm_size_t \<Rightarrow> pager \<Rightarrow> pager result" where
  "lock_completed U MEMORY_CONTROL OFFSET LEN s =
     (case omap_get (OFFSET, LEN) (outstanding_locks s) of
        None \<Rightarrow> Inl (Assert_failed ''it != outstanding_locks.end()'')
      | Some record \<Rightarrow>
          let r = omap_at fresh_client_lock MEMORY_CONTROL record
          in if \<not> 0 < count r then Inl (Assert_failed ''record.locks[MEMORY_CONTROL].count > 0'')
             else
               let r = r\<lparr>count := count r - 1\<rparr>;
                   internal_lock_required = (count r = 0 \<and> internal_lock_outstanding r);
                   record = (if count r = 0 then omap_erase MEMORY_CONTROL record
                             else omap_put MEMORY_CONTROL r record);
                   s = (if record = []
                        then emit (Wake_lock_waiters (OFFSET, LEN))
                               (s\<lparr>outstanding_locks := omap_erase (OFFSET, LEN) (outstanding_locks s)\<rparr>)
                        else s\<lparr>outstanding_locks := omap_put (OFFSET, LEN) record (outstanding_locks s)\<rparr>)
               in if internal_lock_required then internal_lock_completed U MEMORY_CONTROL OFFSET LEN s
                  else Inr s)"

section \<open>data_unlock\<close>

text \<open>
  The flush requests of a page go out for \<^verbatim>\<open>OFFSET\<close>, the offset of the first page of the message,
  as they do in the code.
\<close>

definition unlock_scan_page ::
    "mach_port_t \<Rightarrow> vm_offset_t \<Rightarrow> nat \<Rightarrow> pager \<Rightarrow> (pager \<times> bool) result" where
  "unlock_scan_page MEMORY_CONTROL OFFSET n s =
     (let tmp = page_read s n; queued = add_client_to_WAITLIST MEMORY_CONTROL True tmp
      in if \<not> is_client_on_ACCESSLIST MEMORY_CONTROL tmp
         then Inl (Assert_failed ''is_client_on_ACCESSLIST(MEMORY_CONTROL)'')
         else if WRITE_ACCESS_GRANTED tmp then Inl (Assert_failed ''! get_WRITE_ACCESS_GRANTED()'')
         else if PAGINGOUT tmp then Inl (Assert_failed ''! get_PAGINGOUT()'')
         else if is_any_client_waiting_for_write_access tmp then Inr (page_write n tmp s, False)
         else if \<not> is_WAITLIST_empty tmp then Inr (page_write n queued s, False)
         else if ACCESSLIST_num_clients tmp > 1 then
           Inr (page_write n queued (flush_clients (ACCESSLIST queued) OFFSET s), False)
         else Inr (page_write n queued s, True))"

fun unlock_scan ::
    "mach_port_t \<Rightarrow> vm_offset_t \<Rightarrow> nat list \<Rightarrow> pager \<Rightarrow> (pager \<times> bool list) result" where
  "unlock_scan MEMORY_CONTROL OFFSET [] s = Inr (s, [])"
| "unlock_scan MEMORY_CONTROL OFFSET (n # ns) s =
     andThen (unlock_scan_page MEMORY_CONTROL OFFSET n s) (\<lambda>(s, b).
     andThen (unlock_scan MEMORY_CONTROL OFFSET ns s) (\<lambda>(s, bs). Inr (s, b # bs)))"

fun unlock_upcalls ::
    "user_pager \<Rightarrow> (nat \<times> bool) list \<Rightarrow> pager \<Rightarrow> pager \<times> kern_return_t option list" where
  "unlock_upcalls U [] s = (s, [])"
| "unlock_upcalls U ((n, do_unlock) # rest) s =
     (let off = offset_of s n;
          (s, err) = (if do_unlock
                      then (emit (Unlock_page off) s, Some (pager_unlock_page U (events s) off))
                      else (s, None));
          (s, errs) = unlock_upcalls U rest s
      in (s, err # errs))"

fun unlock_finish :: "(nat \<times> kern_return_t option) list \<Rightarrow> pager \<Rightarrow> pager result" where
  "unlock_finish [] s = Inr s"
| "unlock_finish ((n, None) # rest) s = unlock_finish rest s"
| "unlock_finish ((n, Some err) # rest) s =
     andThen (finalize_unlock (offset_of s n) err s (page_read s n)) (\<lambda>(s, tmp).
       unlock_finish rest (page_write n tmp s))"

definition data_unlock ::
    "user_pager \<Rightarrow> mach_port_t \<Rightarrow> vm_offset_t \<Rightarrow> vm_size_t \<Rightarrow> vm_prot_t \<Rightarrow> pager \<Rightarrow> pager result" where
  "data_unlock U MEMORY_CONTROL OFFSET LEN DESIRED_ACCESS s =
     (if LEN mod page_size s \<noteq> 0 then Inl (Assert_failed ''LENGTH % page_size == 0'')
      else if OFFSET mod page_size s \<noteq> 0 then Inl (Assert_failed ''OFFSET % page_size == 0'')
      else if terminating s then Inr s
      else let ns = page_range s OFFSET LEN
        in andThen (unlock_scan MEMORY_CONTROL OFFSET ns s) (\<lambda>(s, do_unlock).
             let (s, errs) = unlock_upcalls U (zip ns do_unlock) s
             in unlock_finish (zip ns errs) s))"

section \<open>Members no handler of kernel messages changes\<close>

text \<open>The members that the handlers of kernel messages only read, WRITEWAIT apart.\<close>

definition same_config :: "pager \<Rightarrow> pager \<Rightarrow> bool" where
  "same_config s s' \<longleftrightarrow>
     port_right s' = port_right s \<and> page_size s' = page_size s \<and> may_cache s' = may_cache s \<and>
     copy_strategy s' = copy_strategy s \<and> notify_on_evict s' = notify_on_evict s \<and>
     terminating s' = terminating s \<and> clients s' = clients s \<and>
     outstanding_change_requests s' = outstanding_change_requests s"

definition same_queue :: "pager \<Rightarrow> pager \<Rightarrow> bool" where
  "same_queue s s' \<longleftrightarrow> same_config s s' \<and> WRITEWAIT s' = WRITEWAIT s"

lemma same_config_refl [simp, intro]: "same_config s s"
  by (simp add: same_config_def)

lemma same_queue_refl [simp, intro]: "same_queue s s"
  by (simp add: same_queue_def)

lemma same_config_trans [trans]: "same_config s t \<Longrightarrow> same_config t u \<Longrightarrow> same_config s u"
  by (simp add: same_config_def)

lemma same_queue_trans [trans]: "same_queue s t \<Longrightarrow> same_queue t u \<Longrightarrow> same_queue s u"
  by (simp add: same_queue_def same_config_def)

lemma same_queueD: "same_queue s t \<Longrightarrow> same_config s t" "same_queue s t \<Longrightarrow> WRITEWAIT t = WRITEWAIT s"
  by (simp_all add: same_queue_def)

lemmas same_queue_unfold = same_queue_def same_config_def

lemma same_queue_page_write [simp]: "same_queue s (page_write n d t) \<longleftrightarrow> same_queue s t"
  by (simp add: same_queue_unfold)

lemma same_queue_emit [simp]: "same_queue s (emit e t) \<longleftrightarrow> same_queue s t"
  by (simp add: same_queue_unfold)

lemma same_queue_left [simp]:
  "same_queue (emit e s) t \<longleftrightarrow> same_queue s t"
  "same_queue (page_write n d s) t \<longleftrightarrow> same_queue s t"
  by (simp_all add: same_queue_unfold)

lemma same_queue_flush_clients [simp]: "same_queue s (flush_clients cs off t) \<longleftrightarrow> same_queue s t"
  by (simp add: same_queue_unfold)

lemma same_queue_NEXTERROR [simp]: "same_queue s (t\<lparr>NEXTERROR := es\<rparr>) \<longleftrightarrow> same_queue s t"
  by (simp add: same_queue_unfold)

lemma same_queue_outstanding_locks [simp]:
  "same_queue s (t\<lparr>outstanding_locks := ls\<rparr>) \<longleftrightarrow> same_queue s t"
  by (simp add: same_queue_unfold)

lemma same_queue_send_error:
  "send_error_to_WAITLIST off s d = (s', d') \<Longrightarrow> same_queue s s' \<and> pagemap s' = pagemap s \<and> d' = d\<lparr>WAITLIST := []\<rparr>"
  using send_error_to_WAITLIST_frame [of off s d] by (simp add: same_queue_unfold)

lemma same_queue_service:
  "service_WAITLIST off data allow dealloc s d = Inr (s', d') \<Longrightarrow> same_queue s s' \<and> pagemap s' = pagemap s"
  by (elim service_WAITLIST_cases) (simp_all add: same_queue_unfold)

lemma same_queue_finalize_unlock:
  "finalize_unlock off err s d = Inr (s', d') \<Longrightarrow> same_queue s s' \<and> pagemap s' = pagemap s"
  using finalize_unlock_cases [of off err s d s' d'] by (simp add: same_queue_unfold)

lemma same_queue_ilc_scan_page:
  "ilc_scan_page c n s = Inr (s', op) \<Longrightarrow> same_queue s s'"
  by (auto simp: ilc_scan_page_def Let_def dest!: same_queue_send_error split: if_splits prod.splits)

lemma same_queue_ilc_scan: "ilc_scan c ns s = Inr (s', ops) \<Longrightarrow> same_queue s s'"
proof (induction ns arbitrary: s s' ops)
  case Nil
  then show ?case by simp
next
  case (Cons n ns)
  then show ?case by (fastforce dest: same_queue_ilc_scan_page intro: same_queue_trans)
qed

lemma ilc_upcalls_same: "ilc_upcalls U xs s = (s', rs) \<Longrightarrow> same_queue s s' \<and> pagemap s' = pagemap s
    \<and> outstanding_locks s' = outstanding_locks s \<and> NEXTERROR s' = NEXTERROR s \<and> length rs = length xs"
proof (induction xs arbitrary: s s' rs)
  case Nil
  then show ?case by auto
next
  case (Cons x xs)
  obtain n op where x: "x = (n, op)" by force
  from Cons.prems Cons.IH show ?case
    unfolding x by (fastforce simp: Let_def same_queue_unfold split: prod.splits page_operation.splits)
qed

lemma same_queue_ilc_finish_page: "ilc_finish_page n r s = Inr s' \<Longrightarrow> same_queue s s'"
  by (auto simp: ilc_finish_page_def Let_def split: upcall_result.splits if_splits prod.splits
    dest!: same_queue_service same_queue_finalize_unlock same_queue_send_error)

lemma same_queue_ilc_finish: "ilc_finish xs s = Inr s' \<Longrightarrow> same_queue s s'"
proof (induction xs arbitrary: s)
  case Nil
  then show ?case by simp
next
  case (Cons x xs)
  then show ?case
    by (cases x) (fastforce dest: same_queue_ilc_finish_page intro: same_queue_trans)
qed

lemma internal_lock_completed_cases:
  assumes "internal_lock_completed U c off len s = Inr s'"
  obtains (terminating) "terminating s" "s' = s"
  | (phases) s1 ops s2 rs where "\<not> terminating s"
      "ilc_scan c (page_range s off len) s = Inr (s1, ops)"
      "ilc_upcalls U (zip (page_range s off len) ops) s1 = (s2, rs)"
      "ilc_finish (zip (page_range s off len) rs) s2 = Inr s'"
proof (cases "terminating s")
  case True
  with assms terminating show ?thesis by (auto simp: internal_lock_completed_def split: if_splits)
next
  case False
  with assms obtain s1 ops where scan: "ilc_scan c (page_range s off len) s = Inr (s1, ops)"
    and fin: "(case ilc_upcalls U (zip (page_range s off len) ops) s1 of (s2, rs) \<Rightarrow>
        ilc_finish (zip (page_range s off len) rs) s2) = Inr s'"
    by (auto simp: internal_lock_completed_def Let_def split: if_splits)
  from fin phases [OF False scan] show ?thesis
    by (cases "ilc_upcalls U (zip (page_range s off len) ops) s1") auto
qed

lemma same_queue_internal_lock_completed:
  "internal_lock_completed U c off len s = Inr s' \<Longrightarrow> same_queue s s'"
  by (erule internal_lock_completed_cases)
    (auto dest!: same_queue_ilc_scan ilc_upcalls_same same_queue_ilc_finish intro: same_queue_trans)

lemma same_queue_data_request_locked:
  "data_request_locked c off len prot s = Inr (s', next) \<Longrightarrow> same_queue s s'"
  by (auto simp: data_request_locked_def Let_def split: if_splits option.splits)

lemma same_queue_data_request_supply:
  "data_request_supply off err buf wl s = Inr s' \<Longrightarrow> same_queue s s'"
  by (auto simp: data_request_supply_def Let_def split: if_splits prod.splits
    dest!: same_queue_service same_queue_send_error)

lemma data_request_cases:
  assumes "data_request U c off len prot s = Inr s'"
  obtains (don) "data_request_locked c off len prot s = Inr (s', Request_done)"
  | (flushed) s1 where "data_request_locked c off len prot s = Inr (s1, Request_flushed)"
      "internal_lock_completed U c off (page_size s1) s1 = Inr s'"
  | (page_in) s1 err buf wl where "data_request_locked c off len prot s = Inr (s1, Request_page_in)"
      "pager_read_page U (events s1) off = (err, buf, wl)"
      "data_request_supply off err buf wl (emit (Read_page off) s1) = Inr s'"
proof -
  from assms obtain s1 nxt where l: "data_request_locked c off len prot s = Inr (s1, nxt)"
    by (auto simp: data_request_def)
  show ?thesis
    using assms l don flushed page_in
    by (cases nxt; cases "pager_read_page U (events s1) off") (auto simp: data_request_def)
qed

lemma same_queue_data_request: "data_request U c off len prot s = Inr s' \<Longrightarrow> same_queue s s'"
  by (erule data_request_cases)
    (auto dest!: same_queue_data_request_locked same_queue_data_request_supply
      same_queue_internal_lock_completed intro: same_queue_trans)

lemma same_queue_lock_completed: "lock_completed U c off len s = Inr s' \<Longrightarrow> same_queue s s'"
  by (auto simp: lock_completed_def Let_def split: option.splits if_splits
    dest!: same_queue_internal_lock_completed)
    (simp_all add: same_queue_unfold)

lemma same_queue_unlock_scan_page: "unlock_scan_page c off n s = Inr (s', b) \<Longrightarrow> same_queue s s'"
  by (auto simp: unlock_scan_page_def Let_def split: if_splits)

lemma same_queue_unlock_scan: "unlock_scan c off ns s = Inr (s', bs) \<Longrightarrow> same_queue s s'"
proof (induction ns arbitrary: s s' bs)
  case Nil
  then show ?case by simp
next
  case (Cons n ns)
  then show ?case by (fastforce dest: same_queue_unlock_scan_page intro: same_queue_trans)
qed

lemma unlock_upcalls_same: "unlock_upcalls U xs s = (s', rs) \<Longrightarrow> same_queue s s' \<and> pagemap s' = pagemap s
    \<and> outstanding_locks s' = outstanding_locks s \<and> NEXTERROR s' = NEXTERROR s \<and> length rs = length xs"
proof (induction xs arbitrary: s s' rs)
  case Nil
  then show ?case by auto
next
  case (Cons x xs)
  obtain n b where x: "x = (n, b)" by force
  from Cons.prems Cons.IH show ?case
    unfolding x by (cases b) (fastforce simp: Let_def same_queue_unfold split: prod.splits)+
qed

lemma same_queue_unlock_finish: "unlock_finish xs s = Inr s' \<Longrightarrow> same_queue s s'"
proof (induction xs s arbitrary: s' rule: unlock_finish.induct)
  case (3 n err rest s)
  then show ?case by (fastforce dest: same_queue_finalize_unlock intro: same_queue_trans)
qed auto

lemma data_unlock_cases:
  assumes "data_unlock U c off len prot s = Inr s'"
  obtains (terminating) "terminating s" "s' = s"
  | (phases) s1 bs s2 errs where "\<not> terminating s"
      "unlock_scan c off (page_range s off len) s = Inr (s1, bs)"
      "unlock_upcalls U (zip (page_range s off len) bs) s1 = (s2, errs)"
      "unlock_finish (zip (page_range s off len) errs) s2 = Inr s'"
proof (cases "terminating s")
  case True
  with assms terminating show ?thesis by (auto simp: data_unlock_def split: if_splits)
next
  case False
  with assms obtain s1 bs where scan: "unlock_scan c off (page_range s off len) s = Inr (s1, bs)"
    and fin: "(case unlock_upcalls U (zip (page_range s off len) bs) s1 of (s2, errs) \<Rightarrow>
        unlock_finish (zip (page_range s off len) errs) s2) = Inr s'"
    by (auto simp: data_unlock_def Let_def split: if_splits)
  from fin phases [OF False scan] show ?thesis
    by (cases "unlock_upcalls U (zip (page_range s off len) bs) s1") auto
qed

lemma same_queue_data_unlock: "data_unlock U c off len prot s = Inr s' \<Longrightarrow> same_queue s s'"
  by (erule data_unlock_cases)
    (auto dest!: same_queue_unlock_scan unlock_upcalls_same same_queue_unlock_finish intro: same_queue_trans)

end
