(* ===== verification/Pager_Write.thy ===== *)
theory Pager_Write
  imports Pager_Requests
begin

text \<open>
  Pages that come back from a kernel (\<^verbatim>\<open>libpager/pagemap.cc\<close>: \<^verbatim>\<open>data_return\<close> and
  \<^verbatim>\<open>service_first_WRITEWAIT_entry\<close>). A dirty page is queued on WRITEWAIT; the handler that finds the
  queue empty writes every entry to the backing store, skipping a page when a later entry holds
  newer data for it. As in \<open>Pager_Requests\<close> a handler is the composition of its critical sections
  and the calls between them.

  \<^verbatim>\<open>data_return\<close> allocates \<^verbatim>\<open>do_notify\<close> with \<^verbatim>\<open>alloca\<close> and sets an element only when the page is to be
  notified; the value of the other elements is whatever the stack holds, the argument \<open>stack\<close>.
\<close>

section \<open>Writing out one entry of WRITEWAIT\<close>

text \<open>The condition under which an entry covers a page, in 32-bit arithmetic as in the code.\<close>

definition covers_page :: "pager \<Rightarrow> WRITEWAIT_entry \<Rightarrow> nat \<Rightarrow> bool" where
  "covers_page s e n \<longleftrightarrow>
     ww_OFFSET e \<le> offset_of s n \<and> ww_OFFSET e + ww_LENGTH e \<ge> offset_of s (n + 1)"

fun count_matching :: "('a \<Rightarrow> bool) \<Rightarrow> 'a list \<Rightarrow> nat" where
  "count_matching P [] = 0"
| "count_matching P (x # xs) = (if P x then Suc (count_matching P xs) else count_matching P xs)"

definition matching_page_count_on_WRITEWAIT :: "pager \<Rightarrow> nat \<Rightarrow> nat" where
  "matching_page_count_on_WRITEWAIT s n = count_matching (\<lambda>e. covers_page s e n) (WRITEWAIT s)"

definition pageout_flags :: "pager \<Rightarrow> nat list \<Rightarrow> bool list" where
  "pageout_flags s ns = map (\<lambda>n. matching_page_count_on_WRITEWAIT s n = 1) ns"

definition data_at :: "pager \<Rightarrow> vm_address_t \<Rightarrow> nat \<Rightarrow> vm_address_t" where
  "data_at s DATA i = DATA + of_nat i * page_size s"

text \<open>A page of the entry: its position in the entry, its number, whether to write it.\<close>

fun write_upcalls ::
    "user_pager \<Rightarrow> vm_address_t \<Rightarrow> (nat \<times> nat \<times> bool) list \<Rightarrow> pager \<Rightarrow> pager \<times> kern_return_t option list" where
  "write_upcalls U DATA [] s = (s, [])"
| "write_upcalls U DATA ((i, n, do_pageout) # rest) s =
     (let off = offset_of s n; buf = data_at s DATA i;
          (s, err) = (if do_pageout
                      then (emit (Write_page off buf) s, Some (pager_write_page U (events s) off buf))
                      else (s, None));
          (s, errs) = write_upcalls U DATA rest s
      in (s, err # errs))"

definition drop_errors_of_page :: "nat \<Rightarrow> pager \<Rightarrow> pager" where
  "drop_errors_of_page n s =
     s\<lparr>NEXTERROR := filter (\<lambda>e. ne_offset e \<noteq> offset_of s n) (NEXTERROR s)\<rparr>"

definition finish_write_page ::
    "WRITEWAIT_entry \<Rightarrow> nat \<Rightarrow> nat \<Rightarrow> kern_return_t option \<Rightarrow> pager \<Rightarrow> (pager \<times> bool) result" where
  "finish_write_page current i n err s =
     (case err of None \<Rightarrow> Inr (s, False)
      | Some err \<Rightarrow>
          let tmp = page_read s n;
              tmp = (if err = KERN_SUCCESS then set_INVALID False tmp
                     else set_ERROR err (set_INVALID True tmp))
          in if matching_page_count_on_WRITEWAIT s n = 1 then
               let tmp = set_PAGINGOUT False tmp
               in if \<not> ww_KERNEL_COPY current then
                    if \<not> is_WAITLIST_empty tmp then
                      andThen (service_WAITLIST (offset_of s n) (data_at s (ww_DATA current) i) True False s tmp)
                        (\<lambda>(s, tmp). Inr (page_write n tmp s, False))
                    else
                      let tmp = set_ERROR KERN_SUCCESS (set_INVALID False tmp)
                      in Inr (page_write n tmp (drop_errors_of_page n s), True)
                  else Inr (page_write n tmp s, False)
             else if ww_KERNEL_COPY current then Inr (page_write n tmp s, False)
             else Inl (Assert_failed ''current.KERNEL_COPY''))"

fun finish_writes ::
    "WRITEWAIT_entry \<Rightarrow> (nat \<times> nat \<times> kern_return_t option) list \<Rightarrow> pager \<Rightarrow> (pager \<times> bool list) result" where
  "finish_writes current [] s = Inr (s, [])"
| "finish_writes current ((i, n, err) # rest) s =
     andThen (finish_write_page current i n err s) (\<lambda>(s, b).
     andThen (finish_writes current rest s) (\<lambda>(s, bs). Inr (s, b # bs)))"

fun notify_upcalls :: "(nat \<times> bool) list \<Rightarrow> pager \<Rightarrow> pager" where
  "notify_upcalls [] s = s"
| "notify_upcalls ((n, do_notify) # rest) s =
     notify_upcalls rest (if do_notify then emit (Notify_evict (offset_of s n)) s else s)"

definition pop_WRITEWAIT :: "pager \<Rightarrow> pager" where
  "pop_WRITEWAIT s = emit Wake_write_waiters (s\<lparr>WRITEWAIT := tl (WRITEWAIT s)\<rparr>)"

definition service_first_WRITEWAIT_entry :: "user_pager \<Rightarrow> pager \<Rightarrow> pager result" where
  "service_first_WRITEWAIT_entry U s =
     (case WRITEWAIT s of [] \<Rightarrow> Inl (Out_of_range ''WRITEWAIT.front()'')
      | current # _ \<Rightarrow>
          let ns = page_range s (ww_OFFSET current) (ww_LENGTH current);
              is = [0 ..< length ns];
              do_pageout = pageout_flags s ns;
              (s, errs) = write_upcalls U (ww_DATA current) (zip is (zip ns do_pageout)) s
          in andThen (finish_writes current (zip is (zip ns errs)) s) (\<lambda>(s, do_notify).
               let s = emit (Munmap (ww_DATA current) (ww_LENGTH current)) s;
                   s = (if notify_on_evict s \<and> list_ex (\<lambda>b. b) do_notify
                        then notify_upcalls (zip ns do_notify) s else s)
               in Inr (pop_WRITEWAIT s)))"

lemma write_upcalls_same:
  "write_upcalls U DATA xs s = (s', rs) \<Longrightarrow> same_queue s s' \<and> pagemap s' = pagemap s
    \<and> outstanding_locks s' = outstanding_locks s \<and> NEXTERROR s' = NEXTERROR s \<and> length rs = length xs"
proof (induction xs arbitrary: s s' rs)
  case Nil
  then show ?case by auto
next
  case (Cons x xs)
  obtain i n b where x: "x = (i, n, b)" by (cases x) auto
  from Cons.prems Cons.IH show ?case
    unfolding x by (cases b) (fastforce simp: Let_def same_queue_unfold split: prod.splits)+
qed

lemma same_queue_drop_errors [simp]:
  "same_queue s (drop_errors_of_page n t) \<longleftrightarrow> same_queue s t"
  "pagemap (drop_errors_of_page n t) = pagemap t"
  by (simp_all add: drop_errors_of_page_def)

lemma same_queue_finish_write_page:
  "finish_write_page current i n err s = Inr (s', b) \<Longrightarrow> same_queue s s'"
  by (auto simp: finish_write_page_def Let_def split: option.splits if_splits dest!: same_queue_service)

lemma same_queue_finish_writes: "finish_writes current xs s = Inr (s', bs) \<Longrightarrow> same_queue s s'"
proof (induction xs arbitrary: s s' bs)
  case Nil
  then show ?case by simp
next
  case (Cons x xs)
  then show ?case
    by (cases x) (fastforce dest: same_queue_finish_write_page intro: same_queue_trans)
qed

lemma notify_upcalls_same:
  "same_queue t (notify_upcalls xs s) \<longleftrightarrow> same_queue t s" "pagemap (notify_upcalls xs s) = pagemap s"
  by (induction xs s rule: notify_upcalls.induct) simp_all

lemma service_first_WRITEWAIT_entry_cases:
  assumes "service_first_WRITEWAIT_entry U s = Inr s'"
  obtains current rest s1 errs s2 bs s3 where "WRITEWAIT s = current # rest"
    "write_upcalls U (ww_DATA current)
       (zip [0 ..< length (page_range s (ww_OFFSET current) (ww_LENGTH current))]
         (zip (page_range s (ww_OFFSET current) (ww_LENGTH current))
           (pageout_flags s (page_range s (ww_OFFSET current) (ww_LENGTH current))))) s = (s1, errs)"
    "finish_writes current
       (zip [0 ..< length (page_range s (ww_OFFSET current) (ww_LENGTH current))]
         (zip (page_range s (ww_OFFSET current) (ww_LENGTH current)) errs)) s1 = Inr (s2, bs)"
    "s3 = emit (Munmap (ww_DATA current) (ww_LENGTH current)) s2"
    "s' = pop_WRITEWAIT (if notify_on_evict s3 \<and> list_ex (\<lambda>b. b) bs
       then notify_upcalls (zip (page_range s (ww_OFFSET current) (ww_LENGTH current)) bs) s3 else s3)"
proof -
  from assms obtain current rest where w: "WRITEWAIT s = current # rest"
    by (auto simp: service_first_WRITEWAIT_entry_def split: list.splits)
  obtain s1 errs where u: "write_upcalls U (ww_DATA current)
       (zip [0 ..< length (page_range s (ww_OFFSET current) (ww_LENGTH current))]
         (zip (page_range s (ww_OFFSET current) (ww_LENGTH current))
           (pageout_flags s (page_range s (ww_OFFSET current) (ww_LENGTH current))))) s = (s1, errs)"
    by force
  from assms w u that show ?thesis
    by (auto simp: service_first_WRITEWAIT_entry_def Let_def)
qed

lemma same_config_pop_WRITEWAIT:
  "same_config s (pop_WRITEWAIT t) \<longleftrightarrow> same_config s t" "WRITEWAIT (pop_WRITEWAIT t) = tl (WRITEWAIT t)"
  "pagemap (pop_WRITEWAIT t) = pagemap t"
  by (simp_all add: pop_WRITEWAIT_def same_config_def)

lemma service_first_WRITEWAIT_entry_frame:
  assumes "service_first_WRITEWAIT_entry U s = Inr s'"
  shows "same_config s s' \<and> WRITEWAIT s' = tl (WRITEWAIT s) \<and> WRITEWAIT s \<noteq> []"
  using assms
proof (cases rule: service_first_WRITEWAIT_entry_cases)
  case (1 current rest s1 errs s2 bs s3)
  let ?t = "if notify_on_evict s3 \<and> list_ex (\<lambda>b. b) bs
       then notify_upcalls (zip (page_range s (ww_OFFSET current) (ww_LENGTH current)) bs) s3 else s3"
  from 1(2,3) have "same_queue s s2"
    by (auto dest!: write_upcalls_same same_queue_finish_writes intro: same_queue_trans)
  then have "same_queue s ?t" using 1(4) by (simp add: notify_upcalls_same)
  then show ?thesis using 1(1,5) by (auto simp: same_config_pop_WRITEWAIT same_queue_def)
qed

text \<open>
  The loop \<^verbatim>\<open>while (! WRITEWAIT.empty())\<close>. It ends: every round removes the entry it served, and no
  other thread removes entries.
\<close>

function drain_WRITEWAIT :: "user_pager \<Rightarrow> pager \<Rightarrow> pager result" where
  "drain_WRITEWAIT U s =
     (if WRITEWAIT s = [] then Inr s
      else andThen (service_first_WRITEWAIT_entry U s) (drain_WRITEWAIT U))"
  by pat_completeness auto
termination
  by (relation "measure (\<lambda>(U, s). length (WRITEWAIT s))")
    (auto dest!: service_first_WRITEWAIT_entry_frame)

declare drain_WRITEWAIT.simps [simp del]

section \<open>data_return\<close>

record return_flags =
  do_unlock :: bool
  do_notify :: bool
  required :: bool

definition return_scan_page ::
    "(nat \<Rightarrow> bool) \<Rightarrow> mach_port_t \<Rightarrow> vm_address_t \<Rightarrow> bool \<Rightarrow> bool \<Rightarrow> nat \<Rightarrow> nat \<Rightarrow> pager
     \<Rightarrow> (pager \<times> return_flags) result" where
  "return_scan_page stack MEMORY_CONTROL DATA DIRTY KERNEL_COPY i n s =
     andThen
       (let tmp = page_read s n; idle = \<lparr>do_unlock = False, do_notify = stack i, required = False\<rparr>
        in if \<not> KERNEL_COPY then
             let tmp = (if MEMORY_CONTROL \<noteq> MACH_PORT_DEAD
                        then remove_client_from_ACCESSLIST MEMORY_CONTROL tmp else tmp)
             in if is_ACCESSLIST_empty tmp \<and> \<not> is_WAITLIST_empty tmp then
                  andThen (service_WAITLIST (offset_of s n) (data_at s DATA i) True False s tmp)
                    (\<lambda>(s, tmp). Inr (s, tmp, idle))
                else if ACCESSLIST_num_clients tmp = 1 \<and> \<not> WRITE_ACCESS_GRANTED tmp
                        \<and> \<not> is_WAITLIST_empty tmp
                        \<and> is_client_on_ACCESSLIST (client (hd (WAITLIST tmp))) tmp
                        \<and> \<not> terminating s then
                  Inr (s, tmp, idle\<lparr>do_unlock := True, required := True\<rparr>)
                else if is_ACCESSLIST_empty tmp \<and> is_WAITLIST_empty tmp \<and> \<not> DIRTY then
                  Inr (drop_errors_of_page n s, set_ERROR KERN_SUCCESS (set_INVALID False tmp),
                       idle\<lparr>do_notify := True, required := True\<rparr>)
                else Inr (s, tmp, idle)
           else Inr (s, tmp, idle))
       (\<lambda>(s, tmp, fl).
          let tmp = (if DIRTY then set_PAGINGOUT True tmp else tmp)
          in Inr (page_write n tmp s, fl))"

fun return_scan ::
    "(nat \<Rightarrow> bool) \<Rightarrow> mach_port_t \<Rightarrow> vm_address_t \<Rightarrow> bool \<Rightarrow> bool \<Rightarrow> (nat \<times> nat) list \<Rightarrow> pager
     \<Rightarrow> (pager \<times> return_flags list) result" where
  "return_scan stack MEMORY_CONTROL DATA DIRTY KERNEL_COPY [] s = Inr (s, [])"
| "return_scan stack MEMORY_CONTROL DATA DIRTY KERNEL_COPY ((i, n) # rest) s =
     andThen (return_scan_page stack MEMORY_CONTROL DATA DIRTY KERNEL_COPY i n s) (\<lambda>(s, fl).
     andThen (return_scan stack MEMORY_CONTROL DATA DIRTY KERNEL_COPY rest s) (\<lambda>(s, fls).
       Inr (s, fl # fls)))"

fun return_upcalls ::
    "user_pager \<Rightarrow> (nat \<times> return_flags) list \<Rightarrow> pager \<Rightarrow> pager \<times> kern_return_t option list" where
  "return_upcalls U [] s = (s, [])"
| "return_upcalls U ((n, fl) # rest) s =
     (let off = offset_of s n;
          (s, err) = (if do_unlock fl
                      then (emit (Unlock_page off) s, Some (pager_unlock_page U (events s) off))
                      else (s, None));
          s = (if do_notify fl then emit (Notify_evict off) s else s);
          (s, errs) = return_upcalls U rest s
      in (s, err # errs))"

definition queue_write :: "vm_offset_t \<Rightarrow> vm_address_t \<Rightarrow> vm_size_t \<Rightarrow> bool \<Rightarrow> pager \<Rightarrow> pager" where
  "queue_write OFFSET DATA LEN KERNEL_COPY s =
     s\<lparr>WRITEWAIT := WRITEWAIT s @
         [\<lparr>ww_OFFSET = OFFSET, ww_DATA = DATA, ww_LENGTH = LEN, ww_KERNEL_COPY = KERNEL_COPY\<rparr>]\<rparr>"

text \<open>Up to the point where the dirty pages are queued.\<close>

definition data_return_pages ::
    "user_pager \<Rightarrow> (nat \<Rightarrow> bool) \<Rightarrow> mach_port_t \<Rightarrow> vm_offset_t \<Rightarrow> vm_address_t \<Rightarrow> vm_size_t \<Rightarrow> bool \<Rightarrow> bool
     \<Rightarrow> pager \<Rightarrow> pager result" where
  "data_return_pages U stack MEMORY_CONTROL OFFSET DATA LEN DIRTY KERNEL_COPY s =
     (if LEN mod page_size s \<noteq> 0 then Inl (Assert_failed ''LENGTH % page_size == 0'')
      else if OFFSET mod page_size s \<noteq> 0 then Inl (Assert_failed ''OFFSET % page_size == 0'')
      else
        let ns = page_range s OFFSET LEN
        in andThen (return_scan stack MEMORY_CONTROL DATA DIRTY KERNEL_COPY (zip [0 ..< length ns] ns) s)
             (\<lambda>(s, fls).
                if list_ex required fls then
                  if DIRTY then Inl (Assert_failed ''!DIRTY'')
                  else let (s, errs) = return_upcalls U (zip ns fls) s
                       in unlock_finish (zip ns errs) s
                else Inr s))"

text \<open>
  The whole handler. When another thread is already draining WRITEWAIT the entry is left to it;
  otherwise this call drains the queue.
\<close>

definition data_return ::
    "user_pager \<Rightarrow> (nat \<Rightarrow> bool) \<Rightarrow> mach_port_t \<Rightarrow> vm_offset_t \<Rightarrow> vm_address_t \<Rightarrow> vm_size_t \<Rightarrow> bool \<Rightarrow> bool
     \<Rightarrow> pager \<Rightarrow> pager result" where
  "data_return U stack MEMORY_CONTROL OFFSET DATA LEN DIRTY KERNEL_COPY s =
     andThen (data_return_pages U stack MEMORY_CONTROL OFFSET DATA LEN DIRTY KERNEL_COPY s) (\<lambda>s.
       if DIRTY then
         if WRITEWAIT s \<noteq> [] then Inr (queue_write OFFSET DATA LEN KERNEL_COPY s)
         else drain_WRITEWAIT U (queue_write OFFSET DATA LEN KERNEL_COPY s)
       else Inr (emit (Munmap DATA LEN) s))"

end
