(* ===== verification/Pager_Clients.thy ===== *)
theory Pager_Clients
  imports Pager_Write
begin

text \<open>
  The clients of a pager and the calls of the file system (\<^verbatim>\<open>libpager/pagemap.cc\<close>: \<^verbatim>\<open>object_init\<close>,
  \<^verbatim>\<open>drop_client\<close>, \<^verbatim>\<open>object_terminate\<close>, \<^verbatim>\<open>dead_name\<close>, \<^verbatim>\<open>lock_object\<close>, \<^verbatim>\<open>change_attributes\<close>, \<^verbatim>\<open>shutdown\<close>,
  \<^verbatim>\<open>get_error\<close>, the destructor; and the entry points in \<^verbatim>\<open>pager-*.cc\<close>).

  A call that blocks is modelled by its critical sections: \<open>lock_object_request\<close> sends the lock
  requests and says whether the caller now waits, \<open>lock_object_resume\<close> is what it does when the
  locks are answered; \<open>change_attributes_send\<close> and \<open>change_attributes_receive\<close> likewise. The names
  of ports that the kernel allocates are arguments.
\<close>

section \<open>Clients come\<close>

definition object_init :: "mach_port_t \<Rightarrow> mach_port_t \<Rightarrow> vm_size_t \<Rightarrow> pager \<Rightarrow> pager result" where
  "object_init control name pagesize s =
     (if pagesize \<noteq> page_size s then Inl (Assert_failed ''pagesize == page_size'')
      else if terminating s then Inr s
      else
        let s = s\<lparr>clients := oset_insert control (clients s)\<rparr>;
            s = emit (Request_dead_name control (pager_port s)) s
        in Inr (emit (Object_ready control (may_cache s) (copy_strategy s)) s))"

section \<open>Clients go\<close>

definition next_key :: "'k::linorder \<Rightarrow> ('k \<times> 'v) list \<Rightarrow> 'k option" where
  "next_key k m = List.find (\<lambda>k'. k < k') (map fst m)"

lemma next_key_greater: "next_key k m = Some k' \<Longrightarrow> k < k'"
  by (auto simp: next_key_def find_Some_iff)

text \<open>
  The loop over \<^verbatim>\<open>outstanding_locks\<close>. The iterator moves on before \<^verbatim>\<open>internal_lock_completed\<close> runs,
  which may add entries; the cursor \<open>k\<close> only grows.
\<close>

definition release_client_locks :: "mach_port_t \<Rightarrow> lock_range \<Rightarrow> outstanding_lock \<Rightarrow> pager \<Rightarrow> pager" where
  "release_client_locks control k locks s =
     (let locks' = omap_erase control locks
      in if locks' = []
         then emit (Wake_lock_waiters k) (s\<lparr>outstanding_locks := omap_erase k (outstanding_locks s)\<rparr>)
         else s\<lparr>outstanding_locks := omap_put k locks' (outstanding_locks s)\<rparr>)"

function drop_client_locks :: "user_pager \<Rightarrow> mach_port_t \<Rightarrow> lock_range \<Rightarrow> pager \<Rightarrow> pager result" where
  "drop_client_locks U control k s =
     (case omap_get k (outstanding_locks s) of None \<Rightarrow> Inr s
      | Some locks \<Rightarrow>
          let internal_lock_required =
                (case omap_get control locks of None \<Rightarrow> False | Some r \<Rightarrow> internal_lock_outstanding r);
              it = next_key k (outstanding_locks s);
              s = release_client_locks control k locks s
          in andThen (if internal_lock_required
                      then internal_lock_completed U control (fst k) (snd k) s else Inr s)
               (\<lambda>s. case it of None \<Rightarrow> Inr s | Some k' \<Rightarrow> drop_client_locks U control k' s))"
  by pat_completeness auto
termination
proof (relation "measure (\<lambda>(U, control, k, s). card {k' :: lock_range. k < k'})", simp)
  fix U control and k k' :: lock_range and s s' s'' :: pager and locks and it :: "lock_range option"
  assume "it = next_key k (outstanding_locks s)" and "it = Some k'"
  then have "k < k'" using next_key_greater by metis
  then have "{k''. k' < k''} \<subset> {k''. k < k''}" by auto
  then show "((U, control, k', s''), U, control, k, s) \<in>
      measure (\<lambda>(U, control, k, s). card {k' :: lock_range. k < k'})"
    by (auto intro: psubset_card_mono)
qed

declare drop_client_locks.simps [simp del]

text \<open>An invariant of the two things the loop does is an invariant of the loop.\<close>

lemma drop_client_locks_invariant:
  assumes "drop_client_locks U c k s = Inr s'" and "I s"
    and release: "\<And>k s locks. I s \<Longrightarrow> omap_get k (outstanding_locks s) = Some locks \<Longrightarrow>
      I (release_client_locks c k locks s)"
    and complete: "\<And>off len s s'. I s \<Longrightarrow> internal_lock_completed U c off len s = Inr s' \<Longrightarrow> I s'"
  shows "I s'"
  using assms(1,2)
proof (induction U\<equiv>U c\<equiv>c k s arbitrary: s' rule: drop_client_locks.induct)
  case (1 k s)
  show ?case
  proof (cases "omap_get k (outstanding_locks s)")
    case None
    with 1 show ?thesis by (simp add: drop_client_locks.simps [of U c k s])
  next
    case (Some locks)
    define req where "req = (case omap_get c locks of None \<Rightarrow> False | Some r \<Rightarrow> internal_lock_outstanding r)"
    define t where "t = release_client_locks c k locks s"
    obtain u where u: "(if req then internal_lock_completed U c (fst k) (snd k) t else Inr t) = Inr u"
      and v: "(case next_key k (outstanding_locks s) of None \<Rightarrow> Inr u
         | Some k' \<Rightarrow> drop_client_locks U c k' u) = Inr s'"
      unfolding req_def t_def using 1(2) Some
      by (auto simp: drop_client_locks.simps [of U c k s] Let_def)
    have "I t" using 1(3) Some release by (simp add: t_def)
    with u complete have "I u" by (cases req) auto
    with v show ?thesis
      using 1(1) [OF Some refl refl refl u [unfolded req_def t_def]] by (auto split: option.splits)
  qed
qed

text \<open>
  One page: the client loses its access. For a client on WAITLIST the code edits \<open>wl2\<close>, a copy
  of the list, and stores the page unchanged.
\<close>

definition drop_client_page :: "mach_port_t \<Rightarrow> pagemap_entry_data \<Rightarrow> pagemap_entry_data" where
  "drop_client_page control pm =
     (let pm = (if is_client_on_ACCESSLIST control pm
                then set_WRITE_ACCESS_GRANTED False (remove_client_from_ACCESSLIST control pm)
                else pm)
      in if list_ex (\<lambda>wl. client wl = control) (WAITLIST pm)
         then let tmp = pm; wl2 = filter (\<lambda>x. client x \<noteq> control) (WAITLIST tmp) in tmp
         else pm)"

definition complete_changes :: "mach_port_t \<Rightarrow> pager \<Rightarrow> pager" where
  "complete_changes control s =
     fold (\<lambda>it. if cr_client it = control then emit (Change_completed (cr_reply it)) else id)
       (outstanding_change_requests s) s"

definition drop_client :: "user_pager \<Rightarrow> mach_port_t \<Rightarrow> pager \<Rightarrow> pager result" where
  "drop_client U control s =
     andThen (case outstanding_locks s of [] \<Rightarrow> Inr s
              | (k, _) # _ \<Rightarrow> drop_client_locks U control k s)
       (\<lambda>s. let s = s\<lparr>pagemap := map (drop_client_page control) (pagemap s)\<rparr>;
                 s = complete_changes control s;
                 s = emit (Request_dead_name control MACH_PORT_NULL) s
             in Inr (s\<lparr>clients := oset_erase control (clients s)\<rparr>))"

definition object_terminate :: "user_pager \<Rightarrow> mach_port_t \<Rightarrow> mach_port_t \<Rightarrow> pager \<Rightarrow> pager result" where
  "object_terminate U control name s =
     andThen (drop_client U control s) (\<lambda>s. Inr (emit (Port_destroy name) (emit (Port_destroy control) s)))"

definition dead_name :: "user_pager \<Rightarrow> mach_port_t \<Rightarrow> pager \<Rightarrow> pager result" where
  "dead_name U DEADNAME s = drop_client U DEADNAME s"

section \<open>Locks asked for by the file system\<close>

definition only_signal_WRITE_clients :: "memory_object_return_t \<Rightarrow> bool \<Rightarrow> bool" where
  "only_signal_WRITE_clients RETURN FLUSH \<longleftrightarrow> \<not> FLUSH \<and> RETURN \<noteq> MEMORY_OBJECT_RETURN_ALL"

definition lock_object_clients ::
    "vm_offset_t \<Rightarrow> vm_size_t \<Rightarrow> memory_object_return_t \<Rightarrow> bool \<Rightarrow> pager \<Rightarrow> mach_port_t list" where
  "lock_object_clients OFFSET LEN RETURN FLUSH s =
     fold (\<lambda>n. fold (\<lambda>c cs. if \<not> only_signal_WRITE_clients RETURN FLUSH \<or> WRITE_ACCESS_GRANTED (page_read s n)
                            then oset_insert c cs else cs)
                 (ACCESSLIST (page_read s n)))
       (page_range s OFFSET LEN) []"

definition lock_object_request ::
    "vm_offset_t \<Rightarrow> vm_size_t \<Rightarrow> memory_object_return_t \<Rightarrow> bool \<Rightarrow> bool \<Rightarrow> pager \<Rightarrow> pager \<times> bool" where
  "lock_object_request OFFSET LEN RETURN FLUSH sync s =
     (let cs = lock_object_clients OFFSET LEN RETURN FLUSH s
      in if cs = [] then (s, False)
         else if \<not> sync then
           (fold (\<lambda>c. emit (Lock_request c OFFSET LEN RETURN FLUSH VM_PROT_NO_CHANGE MACH_PORT_NULL)) cs s,
            False)
         else
           (fold (\<lambda>c s.
              let s = emit (Lock_request c OFFSET LEN RETURN FLUSH VM_PROT_NO_CHANGE (pager_port s)) s;
                  r = client_lock s (OFFSET, LEN) c
              in put_client_lock (OFFSET, LEN) c (r\<lparr>count := count r + 1\<rparr>) s) cs s,
            True))"

text \<open>After the locks are answered: the write the caller still waits for, if any.\<close>

definition lock_object_resume :: "vm_offset_t \<Rightarrow> vm_size_t \<Rightarrow> pager \<Rightarrow> WRITEWAIT_entry option" where
  "lock_object_resume OFFSET LEN s =
     List.find (\<lambda>e. ww_OFFSET e \<le> OFFSET + LEN \<and> ww_OFFSET e + ww_LENGTH e \<ge> OFFSET) (rev (WRITEWAIT s))"

section \<open>Attributes, errors, shutdown\<close>

text \<open>\<open>replies\<close> are the reply ports the kernel allocates, one for each client in turn.\<close>

definition change_attributes_send ::
    "bool \<Rightarrow> int \<Rightarrow> bool \<Rightarrow> mach_port_t \<Rightarrow> mach_port_t list \<Rightarrow> pager \<Rightarrow> pager \<times> nat" where
  "change_attributes_send mc cs sync portset replies s =
     (if \<not> sync then
        (fold (\<lambda>c. emit (Change_attributes c mc cs MACH_PORT_NULL)) (clients s) s, 0)
      else
        let s = emit (Port_allocate portset) s
        in (fold (\<lambda>(c, reply) s.
               let s = emit (Port_allocate reply) s;
                   s = emit (Change_attributes c mc cs reply) s
               in s\<lparr>outstanding_change_requests :=
                     oset_insert (outstanding_change_request c reply) (outstanding_change_requests s)\<rparr>)
              (zip (clients s) replies) s,
            length (clients s)))"

definition change_attributes_receive ::
    "int \<Rightarrow> mach_port_t \<Rightarrow> pager \<times> nat \<Rightarrow> (pager \<times> nat) result" where
  "change_attributes_receive msgh_id msgh_local_port st =
     (case st of (s, locks_outstanding) \<Rightarrow>
        if msgh_id \<noteq> 2209 then Inl (Assert_failed ''msg->msgh_id == 2209'')
        else
          let s = s\<lparr>outstanding_change_requests :=
                     erase_first (\<lambda>it. cr_reply it = msgh_local_port) (outstanding_change_requests s)\<rparr>
          in Inr (emit (Port_destroy msgh_local_port) s, locks_outstanding - 1))"

definition get_error :: "vm_offset_t \<Rightarrow> pager \<Rightarrow> kern_return_t" where
  "get_error OFFSET s = ERROR (page_read s (page_of s OFFSET))"

definition pager_return :: "user_pager \<Rightarrow> bool \<Rightarrow> pager \<Rightarrow> pager \<times> bool" where
  "pager_return U wait s =
     (let (offset, len) = pager_report_extent U (events s)
      in lock_object_request offset len MEMORY_OBJECT_RETURN_ALL True wait s)"

definition pager_return_some :: "vm_address_t \<Rightarrow> vm_size_t \<Rightarrow> bool \<Rightarrow> pager \<Rightarrow> pager \<times> bool" where
  "pager_return_some offset len wait s =
     lock_object_request offset len MEMORY_OBJECT_RETURN_ALL True wait s"

definition pager_flush :: "user_pager \<Rightarrow> bool \<Rightarrow> pager \<Rightarrow> pager \<times> bool" where
  "pager_flush U wait s =
     (let (offset, len) = pager_report_extent U (events s)
      in lock_object_request offset len MEMORY_OBJECT_RETURN_NONE True wait s)"

definition pager_flush_some :: "vm_address_t \<Rightarrow> vm_size_t \<Rightarrow> bool \<Rightarrow> pager \<Rightarrow> pager \<times> bool" where
  "pager_flush_some offset len wait s =
     lock_object_request offset len MEMORY_OBJECT_RETURN_NONE True wait s"

definition pager_sync :: "user_pager \<Rightarrow> bool \<Rightarrow> pager \<Rightarrow> pager \<times> bool" where
  "pager_sync U wait s =
     (let (offset, len) = pager_report_extent U (events s)
      in lock_object_request offset len MEMORY_OBJECT_RETURN_ALL False wait s)"

definition pager_sync_some :: "vm_address_t \<Rightarrow> vm_size_t \<Rightarrow> bool \<Rightarrow> pager \<Rightarrow> pager \<times> bool" where
  "pager_sync_some offset len wait s =
     lock_object_request offset len MEMORY_OBJECT_RETURN_ALL False wait s"

text \<open>\<^verbatim>\<open>pager::shutdown\<close> up to the wait of \<^verbatim>\<open>pager_return\<close>, and what follows it.\<close>

definition shutdown_begin :: "user_pager \<Rightarrow> pager \<Rightarrow> pager \<times> bool" where
  "shutdown_begin U s = pager_return U True (s\<lparr>terminating := True\<rparr>)"

definition shutdown_end :: "pager \<Rightarrow> pager" where
  "shutdown_end s = emit Ports_destroy_right s"

text \<open>
  The destructor, when no write is pending. The code walks over \<^verbatim>\<open>clients\<close> while \<^verbatim>\<open>drop_client\<close>
  erases from it, which invalidates the iterator; the model walks over the clients there were.
\<close>

definition destroy_pager :: "user_pager \<Rightarrow> pager \<Rightarrow> pager result" where
  "destroy_pager U s =
     andThen (for_each (drop_client U) (clients s) s) (\<lambda>s.
       if outstanding_locks s \<noteq> [] then Inl (Assert_failed ''outstanding_locks.empty()'')
       else if outstanding_change_requests s \<noteq> []
       then Inl (Assert_failed ''outstanding_change_requests.empty()'')
       else Inr (emit Clear_user_data s))"

end
