(* ===== verification/Pager_Invariant.thy ===== *)
theory Pager_Invariant
  imports Pager_Clients
begin

text \<open>
  The invariant of the page data: ACCESSLIST is a set in order, and write access is granted to
  at most one client. Every critical section keeps it, except the one that finishes a write
  (\<open>finish_write_page\<close>), which keeps it when no client is left waiting for a page that others hold.
\<close>

definition page_ok :: "pagemap_entry_data \<Rightarrow> bool" where
  "page_ok d \<longleftrightarrow> oset_ok (ACCESSLIST d) \<and> (WRITE_ACCESS_GRANTED d \<longrightarrow> length (ACCESSLIST d) \<le> 1)"

definition exclusive :: "pager \<Rightarrow> bool" where
  "exclusive s \<longleftrightarrow> list_all page_ok (pagemap s)"

text \<open>The pages outside \<open>ns\<close> are the same.\<close>

definition only_pages :: "nat list \<Rightarrow> pager \<Rightarrow> pager \<Rightarrow> bool" where
  "only_pages ns s s' \<longleftrightarrow> (\<forall>n. n \<notin> set ns \<longrightarrow> page_read s' n = page_read s n)"

lemma page_ok_empty [simp]: "page_ok empty_page"
  by (simp add: page_ok_def empty_page_def)

lemma exclusive_iff: "exclusive s \<longleftrightarrow> (\<forall>n. page_ok (page_read s n))"
  by (auto simp: exclusive_def page_read_def vec_get_def list_all_length)

lemma exclusive_page: "exclusive s \<Longrightarrow> page_ok (page_read s n)"
  by (simp add: exclusive_iff)

lemma exclusive_page_write [simp]: "exclusive s \<Longrightarrow> page_ok d \<Longrightarrow> exclusive (page_write n d s)"
  by (simp add: exclusive_iff)

lemma exclusive_cong: "pagemap s' = pagemap s \<Longrightarrow> exclusive s' \<longleftrightarrow> exclusive s"
  by (simp add: exclusive_def)

lemma exclusive_simps [simp]:
  "exclusive (emit e s) \<longleftrightarrow> exclusive s"
  "exclusive (flush_clients cs off s) \<longleftrightarrow> exclusive s"
  "exclusive (internal_flush_request c off s) \<longleftrightarrow> exclusive s"
  "exclusive (put_client_lock k c r s) \<longleftrightarrow> exclusive s"
  "exclusive (drop_errors_of_page n s) \<longleftrightarrow> exclusive s"
  "exclusive (s\<lparr>NEXTERROR := es\<rparr>) \<longleftrightarrow> exclusive s"
  "exclusive (s\<lparr>outstanding_locks := ls\<rparr>) \<longleftrightarrow> exclusive s"
  "exclusive (s\<lparr>clients := cs\<rparr>) \<longleftrightarrow> exclusive s"
  "exclusive (s\<lparr>WRITEWAIT := ws\<rparr>) \<longleftrightarrow> exclusive s"
  by (simp_all add: exclusive_def)

lemma oset_ok_singleton [simp]: "oset_ok [x]"
  by (simp add: oset_ok_def)

lemma page_ok_no_clients [simp]: "page_ok (d\<lparr>ACCESSLIST := []\<rparr>)"
  "page_ok (d\<lparr>ACCESSLIST := [], WRITE_ACCESS_GRANTED := b\<rparr>)"
  by (simp_all add: page_ok_def)

lemma page_ok_simps [simp]:
  "page_ok (d\<lparr>WAITLIST := ws\<rparr>) \<longleftrightarrow> page_ok d"
  "page_ok (d\<lparr>PAGINGOUT := b\<rparr>) \<longleftrightarrow> page_ok d"
  "page_ok (d\<lparr>INVALID := b\<rparr>) \<longleftrightarrow> page_ok d"
  "page_ok (d\<lparr>ERROR := e\<rparr>) \<longleftrightarrow> page_ok d"
  by (simp_all add: page_ok_def)

lemma page_ok_not_granted: "page_ok d \<Longrightarrow> page_ok (d\<lparr>WRITE_ACCESS_GRANTED := False\<rparr>)"
  by (simp add: page_ok_def)

lemma page_ok_erase [simp]: "page_ok d \<Longrightarrow> page_ok (d\<lparr>ACCESSLIST := oset_erase c (ACCESSLIST d)\<rparr>)"
  using length_oset_erase [of c "ACCESSLIST d"] by (auto simp: page_ok_def)

lemma page_ok_unlocked: "page_ok d \<Longrightarrow> length (ACCESSLIST d) \<le> 1 \<Longrightarrow> page_ok (unlocked_page err d)"
  by (simp add: page_ok_def unlocked_page_def)

lemma page_ok_serviced:
  assumes "page_ok d" and "grants_write allow (WAITLIST d) \<Longrightarrow> ACCESSLIST d = []"
  shows "page_ok (serviced_page allow d)"
proof (cases "grants_write allow (WAITLIST d)")
  case True
  then obtain w where "served_batch allow (WAITLIST d) = [w]"
    by (auto simp: grants_write_def served_batch_def neq_Nil_conv)
  with True assms show ?thesis
    by (simp add: page_ok_def serviced_page_def)
next
  case False
  with assms show ?thesis by (simp add: page_ok_def)
qed

lemma page_ok_service:
  assumes "service_WAITLIST off data allow dealloc s d = Inr (s', d')"
    and "page_ok d" and "grants_write allow (WAITLIST d) \<Longrightarrow> ACCESSLIST d = []"
  shows "page_ok d'"
  using assms by (cases rule: service_WAITLIST_cases) (auto intro: page_ok_serviced)

lemma exclusive_service:
  "service_WAITLIST off data allow dealloc s d = Inr (s', d') \<Longrightarrow> exclusive s \<Longrightarrow> exclusive s'"
  using same_queue_service exclusive_cong by blast

lemma exclusive_finalize_unlock:
  "finalize_unlock off err s d = Inr (s', d') \<Longrightarrow> exclusive s \<Longrightarrow> exclusive s'"
  using same_queue_finalize_unlock exclusive_cong by blast

lemma exclusive_send_error:
  "send_error_to_WAITLIST off s d = (s', d') \<Longrightarrow> exclusive s \<Longrightarrow>
     exclusive s' \<and> d' = d\<lparr>WAITLIST := []\<rparr> \<and> pagemap s' = pagemap s"
  using same_queue_send_error exclusive_cong by blast

lemma only_pages_refl [simp]: "only_pages ns s s"
  by (simp add: only_pages_def)

lemma only_pages_trans: "only_pages ns s t \<Longrightarrow> only_pages ms t u \<Longrightarrow> only_pages (ns @ ms) s u"
  by (simp add: only_pages_def)

lemma only_pagesD: "only_pages ns s s' \<Longrightarrow> n \<notin> set ns \<Longrightarrow> page_read s' n = page_read s n"
  by (simp add: only_pages_def)

lemma only_pages_page_write: "pagemap s' = pagemap s \<Longrightarrow> only_pages [n] s (page_write n d s')"
  using page_read_cong [of s' s] by (simp add: only_pages_def)

text \<open>The three ways a critical section ends on a page: served, unlocked, in error.\<close>

lemma service_step:
  assumes "service_WAITLIST off data allow dealloc s d = Inr (s', d')" and "exclusive s" and "page_ok d"
    and "grants_write allow (WAITLIST d) \<Longrightarrow> ACCESSLIST d = []"
  shows "exclusive (page_write n d' s') \<and> only_pages [n] s (page_write n d' s')"
  using assms page_ok_service exclusive_service same_queue_service only_pages_page_write by auto

lemma finalize_unlock_step:
  assumes "finalize_unlock off err s d = Inr (s', d')" and "exclusive s" and "page_ok d"
    and "length (ACCESSLIST d) \<le> 1"
  shows "exclusive (page_write n d' s') \<and> only_pages [n] s (page_write n d' s')"
  using assms page_ok_unlocked finalize_unlock_cases [OF assms(1)] exclusive_finalize_unlock
    only_pages_page_write by auto

lemma send_error_step:
  assumes "send_error_to_WAITLIST off s d = (s', d')" and "exclusive s" and "page_ok d"
  shows "exclusive (page_write n d' s') \<and> only_pages [n] s (page_write n d' s')"
  using exclusive_send_error [OF assms(1,2)] assms(3) only_pages_page_write by auto

section \<open>data_request\<close>

lemma page_in_page:
  assumes "data_request_locked c off len prot s = Inr (s', Request_page_in)"
  shows "\<exists>w. WAITLIST (page_read s' (page_of s off)) = [w] \<and>
    (write_access_requested w \<longrightarrow> ACCESSLIST (page_read s' (page_of s off)) = [])"
  using assms by (auto simp: data_request_locked_def Let_def split: if_splits option.splits)

lemma exclusive_data_request_locked:
  assumes "data_request_locked c off len prot s = Inr (s', next)" and "exclusive s"
  shows "exclusive s'"
  using assms exclusive_page [of s "page_of s off"]
  by (auto simp: data_request_locked_def Let_def page_ok_not_granted split: if_splits option.splits)

lemma exclusive_data_request_supply:
  assumes "data_request_supply off err buf wl s = Inr s'" and "exclusive s"
    and "WAITLIST (page_read s (page_of s off)) = [w]"
    and "write_access_requested w \<Longrightarrow> ACCESSLIST (page_read s (page_of s off)) = []"
  shows "exclusive s'"
proof (cases "err = KERN_SUCCESS")
  case True
  with assms(1) obtain t d where "service_WAITLIST off buf (\<not> wl) True s
      (page_read s (page_of s off)\<lparr>ERROR := KERN_SUCCESS\<rparr>) = Inr (t, d)"
    and "s' = page_write (page_of s off) d t"
    by (auto simp: data_request_supply_def Let_def)
  with service_step assms exclusive_page show ?thesis by (fastforce simp: grants_write_def)
next
  case False
  with assms exclusive_page [of s "page_of s off"] show ?thesis
    by (auto simp: data_request_supply_def Let_def dest!: send_error_step split: prod.splits)
qed

section \<open>internal_lock_completed\<close>

text \<open>What the scan promises for the operations it chose, as long as nobody touches the page.\<close>

definition operation_ok :: "page_operation \<Rightarrow> pagemap_entry_data \<Rightarrow> bool" where
  "operation_ok op d \<longleftrightarrow> (op = PAGEIN \<longrightarrow> ACCESSLIST d = [] \<and> WAITLIST d \<noteq> []) \<and>
     (op = UNLOCK \<longrightarrow> length (ACCESSLIST d) \<le> 1 \<and> WAITLIST d \<noteq> [])"

definition result_ok :: "upcall_result \<Rightarrow> pagemap_entry_data \<Rightarrow> bool" where
  "result_ok r d \<longleftrightarrow> (case r of No_result \<Rightarrow> True
     | Read_result _ _ _ \<Rightarrow> ACCESSLIST d = [] \<and> WAITLIST d \<noteq> []
     | Unlock_result _ \<Rightarrow> length (ACCESSLIST d) \<le> 1 \<and> WAITLIST d \<noteq> [])"

lemma ilc_scan_page_ok:
  assumes "ilc_scan_page c n s = Inr (s', op)" and "exclusive s"
  shows "exclusive s' \<and> only_pages [n] s s' \<and> operation_ok op (page_read s' n)"
  using assms exclusive_page [of s n]
  by (auto simp: ilc_scan_page_def Let_def operation_ok_def only_pages_page_write
    split: if_splits prod.splits dest!: send_error_step)

lemma ilc_scan_ok:
  assumes "ilc_scan c ns s = Inr (s', ops)" and "exclusive s" and "distinct ns"
  shows "exclusive s' \<and> only_pages ns s s' \<and> list_all2 (\<lambda>n op. operation_ok op (page_read s' n)) ns ops"
  using assms
proof (induction ns arbitrary: s ops)
  case Nil
  then show ?case by simp
next
  case (Cons n ns)
  from Cons.prems(1) obtain s1 op ops' where 1: "ilc_scan_page c n s = Inr (s1, op)"
    and 2: "ilc_scan c ns s1 = Inr (s', ops')" and ops: "ops = op # ops'" by auto
  note p = ilc_scan_page_ok [OF 1 Cons.prems(2)]
  with Cons.IH [OF 2] Cons.prems(3) have q: "exclusive s' \<and> only_pages ns s1 s' \<and>
      list_all2 (\<lambda>n op. operation_ok op (page_read s' n)) ns ops'" by simp
  moreover have "page_read s' n = page_read s1 n"
    using q Cons.prems(3) by (auto intro: only_pagesD)
  ultimately show ?case using p only_pages_trans [of "[n]" s s1 ns s'] by (simp add: ops)
qed

lemma ilc_upcalls_Cons:
  "ilc_upcalls U ((n, op) # xs) s = (s', rs) \<Longrightarrow> operation_ok op d \<Longrightarrow>
     \<exists>t r rs'. rs = r # rs' \<and> ilc_upcalls U xs t = (s', rs') \<and> pagemap t = pagemap s \<and> result_ok r d"
  by (cases op; auto simp: Let_def result_ok_def operation_ok_def split: prod.splits; blast intro: emit_frame)

lemma ilc_upcalls_ok:
  assumes "ilc_upcalls U (zip ns ops) s = (s', rs)"
    and "list_all2 (\<lambda>n op. operation_ok op (page_read s n)) ns ops"
  shows "list_all2 (\<lambda>n r. result_ok r (page_read s n)) ns rs"
  using assms
proof (induction ns arbitrary: s rs ops)
  case Nil
  then show ?case by simp
next
  case (Cons n ns)
  then obtain op ops' where ops: "ops = op # ops'" by (auto simp: list_all2_Cons1)
  have hyps: "operation_ok op (page_read s n)"
    "list_all2 (\<lambda>n op. operation_ok op (page_read s n)) ns ops'" using Cons.prems(2) by (simp_all add: ops)
  obtain t r rs' where "rs = r # rs'" "pagemap t = pagemap s"
    "ilc_upcalls U (zip ns ops') t = (s', rs')" "result_ok r (page_read s n)"
    using ilc_upcalls_Cons [OF Cons.prems(1) [unfolded ops zip_Cons_Cons] hyps(1)] by metis
  moreover have "page_read t = page_read s" using calculation(2) page_read_cong by blast
  ultimately show ?case using Cons.IH [of ops' t rs'] hyps by simp
qed

lemma ilc_finish_page_ok:
  assumes "ilc_finish_page n r s = Inr s'" and "exclusive s" and "result_ok r (page_read s n)"
  shows "exclusive s' \<and> only_pages [n] s s'"
proof (cases r)
  case No_result
  with assms show ?thesis by (simp add: ilc_finish_page_def)
next
  case (Read_result err buf wl)
  then show ?thesis
    using assms exclusive_page [of s n]
    by (cases "err = KERN_SUCCESS")
      (auto simp: ilc_finish_page_def Let_def result_ok_def split: prod.splits
        dest: send_error_step service_step)
next
  case (Unlock_result err)
  then show ?thesis
    using assms exclusive_page [of s n]
    by (auto simp: ilc_finish_page_def result_ok_def dest: finalize_unlock_step)
qed

lemma ilc_finish_ok:
  assumes "ilc_finish (zip ns rs) s = Inr s'" and "exclusive s" and "distinct ns"
    and "list_all2 (\<lambda>n r. result_ok r (page_read s n)) ns rs"
  shows "exclusive s' \<and> only_pages ns s s'"
  using assms
proof (induction ns arbitrary: s rs)
  case Nil
  then show ?case by simp
next
  case (Cons n ns)
  then obtain r rs' where rs: "rs = r # rs'" by (auto simp: list_all2_Cons1)
  have hyps: "result_ok r (page_read s n)" "list_all2 (\<lambda>n r. result_ok r (page_read s n)) ns rs'"
    using Cons.prems(4) by (simp_all add: rs)
  from Cons.prems(1) obtain t where 1: "ilc_finish_page n r s = Inr t" "ilc_finish (zip ns rs') t = Inr s'"
    by (auto simp: rs)
  have t: "exclusive t" "only_pages [n] s t"
    using ilc_finish_page_ok [OF 1(1) Cons.prems(2) hyps(1)] by auto
  then have "list_all2 (\<lambda>n r. result_ok r (page_read t n)) ns rs'"
    using hyps(2) Cons.prems(3) only_pagesD [OF t(2)]
    by (auto simp: list_all2_conv_all_nth) (metis nth_mem)
  with Cons.IH [of rs' t] t 1(2) Cons.prems(3) have "exclusive s' \<and> only_pages ns t s'" by auto
  with t(2) only_pages_trans show ?case by fastforce
qed

lemma distinct_page_range [simp]: "distinct (page_range s off len)"
  by (simp add: page_range_def)

lemma internal_lock_completed_ok:
  assumes "internal_lock_completed U c off len s = Inr s'" and "exclusive s"
  shows "exclusive s' \<and> only_pages (page_range s off len) s s'"
  using assms(1)
proof (cases rule: internal_lock_completed_cases)
  case terminating
  with assms(2) show ?thesis by simp
next
  case (phases s1 ops s2 rs)
  let ?ns = "page_range s off len"
  note p = ilc_scan_ok [OF phases(2) assms(2)]
  have same: "pagemap s2 = pagemap s1" using ilc_upcalls_same [OF phases(3)] by simp
  then have r: "page_read s2 = page_read s1" using page_read_cong by blast
  from p ilc_upcalls_ok [OF phases(3)] have "list_all2 (\<lambda>n r. result_ok r (page_read s2 n)) ?ns rs"
    by (simp add: r)
  with ilc_finish_ok [OF phases(4)] p same have "exclusive s' \<and> only_pages ?ns s2 s'"
    by (simp add: exclusive_cong [OF same])
  with p r show ?thesis by (auto simp: only_pages_def)
qed

lemmas exclusive_internal_lock_completed = internal_lock_completed_ok [THEN conjunct1]

lemma exclusive_data_request:
  assumes "data_request U c off len prot s = Inr s'" and "exclusive s"
  shows "exclusive s'"
  using assms(1)
proof (cases rule: data_request_cases)
  case don
  with assms(2) show ?thesis by (auto intro: exclusive_data_request_locked)
next
  case (flushed s1)
  with assms(2) show ?thesis
    by (auto intro: exclusive_data_request_locked exclusive_internal_lock_completed)
next
  case (page_in s1 err buf wl)
  have "page_of s1 off = page_of s off"
    using same_queue_data_request_locked [OF page_in(1)] by (simp add: page_of_def same_queue_unfold)
  with page_in_page [OF page_in(1)] obtain w where "WAITLIST (page_read s1 (page_of s1 off)) = [w]"
    "write_access_requested w \<longrightarrow> ACCESSLIST (page_read s1 (page_of s1 off)) = []" by auto
  moreover have "exclusive s1" using page_in(1) assms(2) by (rule exclusive_data_request_locked)
  moreover have "page_of (emit (Read_page off) s1) off = page_of s1 off" by (simp add: page_of_def)
  ultimately show ?thesis
    using exclusive_data_request_supply [OF page_in(3)] by simp
qed

section \<open>lock_completed and data_unlock\<close>

lemma exclusive_lock_completed:
  assumes "lock_completed U c off len s = Inr s'" and "exclusive s"
  shows "exclusive s'"
  using assms
  by (auto simp: lock_completed_def Let_def split: option.splits if_splits
    elim!: exclusive_internal_lock_completed)

definition unlock_ok :: "bool \<Rightarrow> pagemap_entry_data \<Rightarrow> bool" where
  "unlock_ok b d \<longleftrightarrow> (b \<longrightarrow> length (ACCESSLIST d) \<le> 1 \<and> WAITLIST d \<noteq> [])"

lemma unlock_scan_page_ok:
  assumes "unlock_scan_page c off n s = Inr (s', b)" and "exclusive s"
  shows "exclusive s' \<and> only_pages [n] s s' \<and> unlock_ok b (page_read s' n)"
  using assms exclusive_page [of s n]
  by (auto simp: unlock_scan_page_def Let_def unlock_ok_def only_pages_page_write split: if_splits)

lemma unlock_scan_ok:
  assumes "unlock_scan c off ns s = Inr (s', bs)" and "exclusive s" and "distinct ns"
  shows "exclusive s' \<and> only_pages ns s s' \<and> list_all2 (\<lambda>n b. unlock_ok b (page_read s' n)) ns bs"
  using assms
proof (induction ns arbitrary: s bs)
  case Nil
  then show ?case by simp
next
  case (Cons n ns)
  from Cons.prems(1) obtain s1 b bs' where 1: "unlock_scan_page c off n s = Inr (s1, b)"
    and 2: "unlock_scan c off ns s1 = Inr (s', bs')" and bs: "bs = b # bs'" by auto
  note p = unlock_scan_page_ok [OF 1 Cons.prems(2)]
  with Cons.IH [OF 2] Cons.prems(3) have q: "exclusive s' \<and> only_pages ns s1 s' \<and>
      list_all2 (\<lambda>n b. unlock_ok b (page_read s' n)) ns bs'" by simp
  moreover have "page_read s' n = page_read s1 n"
    using q Cons.prems(3) by (auto intro: only_pagesD)
  ultimately show ?case using p only_pages_trans [of "[n]" s s1 ns s'] by (simp add: bs)
qed

lemma unlock_upcalls_flags:
  "unlock_upcalls U (zip ns bs) s = (s', errs) \<Longrightarrow> length bs = length ns \<Longrightarrow>
     map (\<lambda>e. e \<noteq> None) errs = bs"
proof (induction ns arbitrary: bs s errs)
  case Nil
  then show ?case by simp
next
  case (Cons n ns)
  then show ?case
    by (cases bs; cases "hd bs") (auto simp: Let_def split: prod.splits)
qed

text \<open>The finishing loop of \<^verbatim>\<open>data_unlock\<close> and \<^verbatim>\<open>data_return\<close>.\<close>

lemma unlock_finish_ok:
  assumes "unlock_finish (zip ns errs) s = Inr s'" and "exclusive s" and "distinct ns"
    and "list_all2 (\<lambda>n e. unlock_ok (e \<noteq> None) (page_read s n)) ns errs"
  shows "exclusive s' \<and> only_pages ns s s'"
  using assms
proof (induction ns arbitrary: s errs)
  case Nil
  then show ?case by simp
next
  case (Cons n ns)
  then obtain e errs' where errs: "errs = e # errs'" by (auto simp: list_all2_Cons1)
  have hyps: "unlock_ok (e \<noteq> None) (page_read s n)"
    "list_all2 (\<lambda>n e. unlock_ok (e \<noteq> None) (page_read s n)) ns errs'"
    using Cons.prems(4) by (simp_all add: errs)
  have "\<exists>t. unlock_finish (zip ns errs') t = Inr s' \<and> exclusive t \<and> only_pages [n] s t"
    using Cons.prems(1,2) hyps(1) exclusive_page [of s n]
    by (cases e) (auto simp: errs unlock_ok_def dest!: finalize_unlock_step)
  then obtain t where t: "unlock_finish (zip ns errs') t = Inr s'" "exclusive t" "only_pages [n] s t"
    by blast
  have "list_all2 (\<lambda>n e. unlock_ok (e \<noteq> None) (page_read t n)) ns errs'"
    using hyps(2) Cons.prems(3) only_pagesD [OF t(3)]
    by (auto simp: list_all2_conv_all_nth) (metis nth_mem)
  with Cons.IH [of errs' t] t Cons.prems(3) have "exclusive s' \<and> only_pages ns t s'" by auto
  with t(3) only_pages_trans show ?case by fastforce
qed

lemma exclusive_data_unlock:
  assumes "data_unlock U c off len prot s = Inr s'" and "exclusive s"
  shows "exclusive s'"
  using assms(1)
proof (cases rule: data_unlock_cases)
  case terminating
  with assms(2) show ?thesis by simp
next
  case (phases s1 bs s2 errs)
  let ?ns = "page_range s off len"
  note p = unlock_scan_ok [OF phases(2) assms(2) distinct_page_range]
  have same: "pagemap s2 = pagemap s1" using unlock_upcalls_same [OF phases(3)] by simp
  then have r: "page_read s2 = page_read s1" using page_read_cong by blast
  have "map (\<lambda>e. e \<noteq> None) errs = bs"
    using unlock_upcalls_flags [OF phases(3)] list_all2_lengthD [OF p [THEN conjunct2, THEN conjunct2]]
    by simp
  then have "list_all2 (\<lambda>n e. unlock_ok (e \<noteq> None) (page_read s2 n)) ?ns errs"
    using p r by (auto simp: list_all2_map2)
  with unlock_finish_ok [OF phases(4)] p show ?thesis
    by (simp add: exclusive_cong [OF same])
qed

end
