(* ===== verification/Pager_Writeback.thy ===== *)
theory Pager_Writeback
  imports Pager_Invariant
begin

text \<open>
  Facts about \<^verbatim>\<open>data_return\<close> and the WRITEWAIT queue: the scan keeps the invariant, writing out an
  entry cannot fail, draining the queue ends with an empty queue, and the pages written are the
  ones of which the queue holds no newer copy.
\<close>

section \<open>The scan of data_return\<close>

definition returned_entry :: "mach_port_t \<Rightarrow> pagemap_entry_data \<Rightarrow> pagemap_entry_data" where
  "returned_entry c d = (if c \<noteq> MACH_PORT_DEAD then remove_client_from_ACCESSLIST c d else d)"

definition mark_dirty :: "bool \<Rightarrow> pagemap_entry_data \<Rightarrow> pagemap_entry_data" where
  "mark_dirty dirty d = (if dirty then set_PAGINGOUT True d else d)"

definition idle_flags :: "(nat \<Rightarrow> bool) \<Rightarrow> nat \<Rightarrow> return_flags" where
  "idle_flags stack i = \<lparr>do_unlock = False, do_notify = stack i, required = False\<rparr>"

definition unlock_possible :: "pager \<Rightarrow> pagemap_entry_data \<Rightarrow> bool" where
  "unlock_possible s d \<longleftrightarrow> length (ACCESSLIST d) = 1 \<and> \<not> WRITE_ACCESS_GRANTED d \<and> WAITLIST d \<noteq> [] \<and>
     client (hd (WAITLIST d)) \<in> set (ACCESSLIST d) \<and> \<not> terminating s"

lemmas return_scan_unfold = return_scan_page_def Let_def returned_entry_def mark_dirty_def idle_flags_def
  unlock_possible_def

text \<open>What the scan does with one page, case by case.\<close>

lemma return_scan_page_eq:
  fixes s n c defines "d \<equiv> returned_entry c (page_read s n)"
  shows return_kept: "kcopy \<Longrightarrow> return_scan_page stack c DATA dirty kcopy i n s =
      Inr (page_write n (mark_dirty dirty (page_read s n)) s, idle_flags stack i)"
    and return_served: "\<not> kcopy \<Longrightarrow> ACCESSLIST d = [] \<Longrightarrow> WAITLIST d \<noteq> [] \<Longrightarrow>
      return_scan_page stack c DATA dirty kcopy i n s =
      andThen (service_WAITLIST (offset_of s n) (data_at s DATA i) True False s d)
        (\<lambda>(t, e). Inr (page_write n (mark_dirty dirty e) t, idle_flags stack i))"
    and return_unlock: "\<not> kcopy \<Longrightarrow> unlock_possible s d \<Longrightarrow>
      return_scan_page stack c DATA dirty kcopy i n s =
      Inr (page_write n (mark_dirty dirty d) s, (idle_flags stack i)\<lparr>do_unlock := True, required := True\<rparr>)"
    and return_evicted: "\<not> kcopy \<Longrightarrow> ACCESSLIST d = [] \<Longrightarrow> WAITLIST d = [] \<Longrightarrow> \<not> dirty \<Longrightarrow>
      return_scan_page stack c DATA dirty kcopy i n s =
      Inr (page_write n (d\<lparr>INVALID := False, ERROR := KERN_SUCCESS\<rparr>) (drop_errors_of_page n s),
        (idle_flags stack i)\<lparr>do_notify := True, required := True\<rparr>)"
    and return_noted: "\<not> kcopy \<Longrightarrow> \<not> unlock_possible s d \<Longrightarrow> \<not> (ACCESSLIST d = [] \<and> WAITLIST d \<noteq> []) \<Longrightarrow>
      \<not> (ACCESSLIST d = [] \<and> WAITLIST d = [] \<and> \<not> dirty) \<Longrightarrow>
      return_scan_page stack c DATA dirty kcopy i n s =
      Inr (page_write n (mark_dirty dirty d) s, idle_flags stack i)"
proof -
  show "kcopy \<Longrightarrow> return_scan_page stack c DATA dirty kcopy i n s =
      Inr (page_write n (mark_dirty dirty (page_read s n)) s, idle_flags stack i)"
    by (simp add: return_scan_unfold)
  show "\<not> kcopy \<Longrightarrow> ACCESSLIST d = [] \<Longrightarrow> WAITLIST d \<noteq> [] \<Longrightarrow>
      return_scan_page stack c DATA dirty kcopy i n s =
      andThen (service_WAITLIST (offset_of s n) (data_at s DATA i) True False s d)
        (\<lambda>(t, e). Inr (page_write n (mark_dirty dirty e) t, idle_flags stack i))"
    unfolding d_def by (cases "c = MACH_PORT_DEAD"; cases dirty)
      (simp_all add: return_scan_unfold andThen_def split: sum.split prod.split)
  show "\<not> kcopy \<Longrightarrow> unlock_possible s d \<Longrightarrow> return_scan_page stack c DATA dirty kcopy i n s =
      Inr (page_write n (mark_dirty dirty d) s, (idle_flags stack i)\<lparr>do_unlock := True, required := True\<rparr>)"
    unfolding d_def by (cases "c = MACH_PORT_DEAD") (auto simp: return_scan_unfold)
  show "\<not> kcopy \<Longrightarrow> ACCESSLIST d = [] \<Longrightarrow> WAITLIST d = [] \<Longrightarrow> \<not> dirty \<Longrightarrow>
      return_scan_page stack c DATA dirty kcopy i n s =
      Inr (page_write n (d\<lparr>INVALID := False, ERROR := KERN_SUCCESS\<rparr>) (drop_errors_of_page n s),
        (idle_flags stack i)\<lparr>do_notify := True, required := True\<rparr>)"
    unfolding d_def by (cases "c = MACH_PORT_DEAD") (simp_all add: return_scan_unfold)
  show "\<not> kcopy \<Longrightarrow> \<not> unlock_possible s d \<Longrightarrow> \<not> (ACCESSLIST d = [] \<and> WAITLIST d \<noteq> []) \<Longrightarrow>
      \<not> (ACCESSLIST d = [] \<and> WAITLIST d = [] \<and> \<not> dirty) \<Longrightarrow>
      return_scan_page stack c DATA dirty kcopy i n s =
      Inr (page_write n (mark_dirty dirty d) s, idle_flags stack i)"
    unfolding d_def by (cases "c = MACH_PORT_DEAD"; cases dirty) (auto simp: return_scan_unfold)
qed

lemma return_scan_page_cases:
  assumes "return_scan_page stack c DATA dirty kcopy i n s = Inr (s', fl)"
  obtains (kept) "kcopy" "s' = page_write n (mark_dirty dirty (page_read s n)) s" "fl = idle_flags stack i"
  | (served) t e where "\<not> kcopy" "ACCESSLIST (returned_entry c (page_read s n)) = []"
      "WAITLIST (returned_entry c (page_read s n)) \<noteq> []"
      "service_WAITLIST (offset_of s n) (data_at s DATA i) True False s (returned_entry c (page_read s n)) = Inr (t, e)"
      "s' = page_write n (mark_dirty dirty e) t" "fl = idle_flags stack i"
  | (unlock) "\<not> kcopy" "unlock_possible s (returned_entry c (page_read s n))"
      "s' = page_write n (mark_dirty dirty (returned_entry c (page_read s n))) s"
      "fl = (idle_flags stack i)\<lparr>do_unlock := True, required := True\<rparr>"
  | (evicted) "\<not> kcopy" "ACCESSLIST (returned_entry c (page_read s n)) = []"
      "WAITLIST (returned_entry c (page_read s n)) = []" "\<not> dirty"
      "s' = page_write n ((returned_entry c (page_read s n))\<lparr>INVALID := False, ERROR := KERN_SUCCESS\<rparr>)
         (drop_errors_of_page n s)"
      "fl = (idle_flags stack i)\<lparr>do_notify := True, required := True\<rparr>"
  | (noted) "\<not> kcopy" "s' = page_write n (mark_dirty dirty (returned_entry c (page_read s n))) s"
      "fl = idle_flags stack i"
      "dirty \<or> ACCESSLIST (returned_entry c (page_read s n)) \<noteq> []"
proof -
  let ?d = "returned_entry c (page_read s n)"
  consider "kcopy" | "\<not> kcopy" "ACCESSLIST ?d = []" "WAITLIST ?d \<noteq> []"
    | "\<not> kcopy" "unlock_possible s ?d"
    | "\<not> kcopy" "ACCESSLIST ?d = []" "WAITLIST ?d = []" "\<not> dirty"
    | "\<not> kcopy" "\<not> unlock_possible s ?d" "\<not> (ACCESSLIST ?d = [] \<and> WAITLIST ?d \<noteq> [])"
      "\<not> (ACCESSLIST ?d = [] \<and> WAITLIST ?d = [] \<and> \<not> dirty)"
    by blast
  then show ?thesis
  proof cases
    case 1
    with assms kept show ?thesis by (simp add: return_kept)
  next
    case 2
    with assms served show ?thesis by (auto simp: return_served)
  next
    case 3
    with assms unlock show ?thesis by (simp add: return_unlock)
  next
    case 4
    with assms evicted show ?thesis by (simp add: return_evicted)
  next
    case 5
    with assms have "s' = page_write n (mark_dirty dirty ?d) s" "fl = idle_flags stack i"
      by (simp_all add: return_noted)
    with 5 noted show ?thesis by blast
  qed
qed

lemma returned_entry_ok: "page_ok d \<Longrightarrow> page_ok (returned_entry c d)"
  by (simp add: returned_entry_def)

lemma mark_dirty_fields [simp]:
  "page_ok (mark_dirty b d) \<longleftrightarrow> page_ok d" "ACCESSLIST (mark_dirty b d) = ACCESSLIST d"
  "WAITLIST (mark_dirty b d) = WAITLIST d" "WRITE_ACCESS_GRANTED (mark_dirty b d) = WRITE_ACCESS_GRANTED d"
  by (simp_all add: mark_dirty_def)

lemma idle_flags_fields [simp]: "do_unlock (idle_flags stack i) = False" "required (idle_flags stack i) = False"
  by (simp_all add: idle_flags_def)

lemma return_scan_page_ok:
  assumes "return_scan_page stack c DATA dirty kcopy i n s = Inr (s', fl)" and "exclusive s"
  shows "exclusive s' \<and> only_pages [n] s s' \<and> unlock_ok (do_unlock fl) (page_read s' n) \<and> same_queue s s'"
  using assms(1)
proof (cases rule: return_scan_page_cases)
  case (served t e)
  have "page_ok e"
    using page_ok_service [OF served(4)] served(2) exclusive_page [OF assms(2)] by (simp add: returned_entry_ok)
  moreover have "exclusive t" using served(4) assms(2) by (rule exclusive_service)
  moreover have "pagemap t = pagemap s" "same_queue s t" using same_queue_service [OF served(4)] by simp_all
  ultimately show ?thesis using served by (simp add: unlock_ok_def only_pages_page_write)
qed (use exclusive_page [OF assms(2), of n] assms(2) in
  \<open>simp_all add: unlock_ok_def only_pages_page_write returned_entry_ok unlock_possible_def\<close>)

lemma return_scan_ok:
  assumes "return_scan stack c DATA dirty kcopy (zip is ns) s = Inr (s', fls)" and "exclusive s"
    and "distinct ns" and "length is = length ns"
  shows "exclusive s' \<and> only_pages ns s s' \<and>
    list_all2 (\<lambda>n fl. unlock_ok (do_unlock fl) (page_read s' n)) ns fls \<and> same_queue s s'"
  using assms
proof (induction ns arbitrary: s fls "is")
  case Nil
  then show ?case by simp
next
  case (Cons n ns)
  then obtain i is' where "is": "is = i # is'" by (cases "is") auto
  from Cons.prems(1) obtain s1 fl fls' where
      1: "return_scan_page stack c DATA dirty kcopy i n s = Inr (s1, fl)"
    and 2: "return_scan stack c DATA dirty kcopy (zip is' ns) s1 = Inr (s', fls')"
    and fls: "fls = fl # fls'" by (auto simp: "is")
  note p = return_scan_page_ok [OF 1 Cons.prems(2)]
  with Cons.IH [OF 2] Cons.prems(3,4) have q: "exclusive s' \<and> only_pages ns s1 s' \<and>
      list_all2 (\<lambda>n fl. unlock_ok (do_unlock fl) (page_read s' n)) ns fls' \<and> same_queue s1 s'"
    by (simp add: "is")
  moreover have "page_read s' n = page_read s1 n"
    using q Cons.prems(3) by (auto intro: only_pagesD)
  ultimately show ?case
    using p only_pages_trans [of "[n]" s s1 ns s'] same_queue_trans [of s s1 s'] by (simp add: fls)
qed

lemma return_upcalls_same:
  "return_upcalls U xs s = (s', rs) \<Longrightarrow> same_queue s s' \<and> pagemap s' = pagemap s
    \<and> outstanding_locks s' = outstanding_locks s \<and> NEXTERROR s' = NEXTERROR s \<and>
    map (\<lambda>e. e \<noteq> None) rs = map (\<lambda>(n, fl). do_unlock fl) xs"
proof (induction xs arbitrary: s s' rs)
  case Nil
  then show ?case by auto
next
  case (Cons x xs)
  obtain n fl where x: "x = (n, fl)" by force
  show ?case
    using Cons.prems unfolding x
    by (cases "do_unlock fl"; cases "do_notify fl")
      (auto simp: Let_def split: prod.splits dest!: Cons.IH)
qed

lemma same_config_drop_errors [simp]: "same_config s (drop_errors_of_page n t) \<longleftrightarrow> same_config s t"
  by (simp add: drop_errors_of_page_def same_config_def)

lemma data_return_pages_cases:
  assumes "data_return_pages U stack c off DATA len dirty kcopy s = Inr s'"
  obtains (plain) fls where
      "return_scan stack c DATA dirty kcopy (zip [0 ..< length (page_range s off len)] (page_range s off len)) s = Inr (s', fls)"
      "\<not> list_ex required fls"
  | (upcalls) s1 fls s2 errs where "\<not> dirty" "list_ex required fls"
      "return_scan stack c DATA dirty kcopy (zip [0 ..< length (page_range s off len)] (page_range s off len)) s = Inr (s1, fls)"
      "return_upcalls U (zip (page_range s off len) fls) s1 = (s2, errs)"
      "unlock_finish (zip (page_range s off len) errs) s2 = Inr s'"
proof -
  from assms obtain s1 fls where scan: "return_scan stack c DATA dirty kcopy
      (zip [0 ..< length (page_range s off len)] (page_range s off len)) s = Inr (s1, fls)"
    by (auto simp: data_return_pages_def Let_def split: if_splits)
  obtain s2 errs where up: "return_upcalls U (zip (page_range s off len) fls) s1 = (s2, errs)" by force
  show ?thesis
    using assms scan up plain upcalls [of fls s1 s2 errs]
    by (auto simp: data_return_pages_def Let_def split: if_splits)
qed

lemma data_return_pages_ok:
  assumes "data_return_pages U stack c off DATA len dirty kcopy s = Inr s'" and "exclusive s"
  shows "exclusive s' \<and> same_queue s s'"
  using assms(1)
proof (cases rule: data_return_pages_cases)
  case (plain fls)
  with assms(2) show ?thesis
    using return_scan_ok [OF plain(1) assms(2)] by simp
next
  case (upcalls s1 fls s2 errs)
  let ?ns = "page_range s off len"
  note p = return_scan_ok [OF upcalls(3) assms(2) distinct_page_range]
  note u = return_upcalls_same [OF upcalls(4)]
  then have r: "page_read s2 = page_read s1" and same: "pagemap s2 = pagemap s1"
    using page_read_cong by blast+
  have len: "length fls = length ?ns" using p by (auto dest: list_all2_lengthD)
  then have "map (\<lambda>e. e \<noteq> None) errs = map do_unlock fls"
    using u by (simp add: case_prod_beta' flip: map_map [of do_unlock snd, unfolded comp_def])
  moreover from this len have "length errs = length ?ns" by (metis length_map)
  ultimately have "list_all2 (\<lambda>n e. unlock_ok (e \<noteq> None) (page_read s2 n)) ?ns errs"
    using p unfolding r list_all2_conv_all_nth by (metis length_map length_upt minus_nat.diff_0 nth_map)
  with unlock_finish_ok [OF upcalls(5)] p have "exclusive s'"
    by (simp add: exclusive_cong [OF same])
  moreover have "same_queue s s'"
    using same_queue_trans [of s s1 s2] same_queue_trans [of s s2 s'] p u
      same_queue_unlock_finish [OF upcalls(5)] by simp
  ultimately show ?thesis by simp
qed

section \<open>Writing out the queue\<close>

lemma matching_count_cong:
  "same_queue s s' \<Longrightarrow> matching_page_count_on_WRITEWAIT s' n = matching_page_count_on_WRITEWAIT s n"
  by (simp add: matching_page_count_on_WRITEWAIT_def same_queue_unfold covers_page_def offset_of_def)

lemma service_WAITLIST_succeeds:
  "WAITLIST d \<noteq> [] \<Longrightarrow> \<exists>s' d'. service_WAITLIST off data allow dealloc s d = Inr (s', d')"
  by (cases "terminating s") (simp_all add: service_WAITLIST_terminating service_WAITLIST_eq)

lemma finish_write_page_succeeds:
  assumes "err \<noteq> None \<longrightarrow> matching_page_count_on_WRITEWAIT s n = 1"
  shows "\<exists>s' b. finish_write_page current i n err s = Inr (s', b)"
proof (cases err)
  case None
  then show ?thesis by (auto simp: finish_write_page_def)
next
  case (Some e)
  define d where "d = set_PAGINGOUT False (if e = KERN_SUCCESS then set_INVALID False (page_read s n)
    else set_ERROR e (set_INVALID True (page_read s n)))"
  show ?thesis
  proof (cases "\<not> ww_KERNEL_COPY current \<and> WAITLIST d \<noteq> []")
    case True
    with Some assms service_WAITLIST_succeeds [of d "offset_of s n" "data_at s (ww_DATA current) i" True False s]
    show ?thesis
      by (auto simp: finish_write_page_def Let_def d_def [simplified] simp del: if_cancel)
  next
    case False
    with Some assms show ?thesis
      by (auto simp: finish_write_page_def Let_def d_def)
  qed
qed

lemma finish_writes_succeeds:
  assumes "\<forall>(i, n, err) \<in> set xs. err \<noteq> None \<longrightarrow> matching_page_count_on_WRITEWAIT s n = 1"
  shows "\<exists>s' bs. finish_writes current xs s = Inr (s', bs)"
  using assms
proof (induction xs arbitrary: s)
  case Nil
  then show ?case by simp
next
  case (Cons x xs)
  obtain i n err where x: "x = (i, n, err)" by (cases x) auto
  from Cons.prems finish_write_page_succeeds [of err s n current i] obtain t b
    where t: "finish_write_page current i n err s = Inr (t, b)" by (auto simp: x)
  from same_queue_finish_write_page [OF t] Cons.prems
  have "\<forall>(i, n, err) \<in> set xs. err \<noteq> None \<longrightarrow> matching_page_count_on_WRITEWAIT t n = 1"
    by (auto simp: matching_count_cong)
  from Cons.IH [OF this] t show ?case by (auto simp: x)
qed

lemma write_upcalls_flags:
  "write_upcalls U DATA (zip is (zip ns flags)) s = (s', errs) \<Longrightarrow> length is = length ns \<Longrightarrow>
     length flags = length ns \<Longrightarrow> map (\<lambda>e. e \<noteq> None) errs = flags"
proof (induction ns arbitrary: "is" flags s errs)
  case Nil
  then show ?case by simp
next
  case (Cons n ns)
  then obtain i is' f flags' where "is = i # is'" "flags = f # flags'"
    by (cases "is"; cases flags) auto
  with Cons show ?case by (cases f) (auto simp: Let_def split: prod.splits)
qed

lemma service_first_succeeds:
  assumes "WRITEWAIT s \<noteq> []"
  shows "\<exists>s'. service_first_WRITEWAIT_entry U s = Inr s'"
proof -
  from assms obtain current rest where w: "WRITEWAIT s = current # rest" by (cases "WRITEWAIT s") auto
  define ns where "ns = page_range s (ww_OFFSET current) (ww_LENGTH current)"
  obtain s1 errs where u: "write_upcalls U (ww_DATA current)
      (zip [0 ..< length ns] (zip ns (pageout_flags s ns))) s = (s1, errs)" by force
  have flags: "map (\<lambda>e. e \<noteq> None) errs = pageout_flags s ns"
    using write_upcalls_flags [OF u] by (simp add: pageout_flags_def)
  then have len: "length errs = length ns" by (metis length_map pageout_flags_def)
  have "err \<noteq> None \<longrightarrow> matching_page_count_on_WRITEWAIT s1 n = 1"
    if "(i, n, err) \<in> set (zip [0 ..< length ns] (zip ns errs))" for i n err
  proof -
    from that obtain j where j: "j < length ns" "n = ns ! j" "err = errs ! j"
      by (auto simp: in_set_zip len)
    then have "(err \<noteq> None) = (matching_page_count_on_WRITEWAIT s n = 1)"
      using arg_cong [OF flags, of "\<lambda>xs. xs ! j"] by (simp add: len pageout_flags_def)
    moreover have "same_queue s s1" using write_upcalls_same [OF u] by simp
    ultimately show ?thesis using matching_count_cong by simp
  qed
  then obtain s2 bs where "finish_writes current (zip [0 ..< length ns] (zip ns errs)) s1 = Inr (s2, bs)"
    using finish_writes_succeeds [of "zip [0 ..< length ns] (zip ns errs)" s1 current] by blast
  with u w show ?thesis
    by (simp add: service_first_WRITEWAIT_entry_def Let_def ns_def)
qed

lemma drain_succeeds:
  "\<exists>s'. drain_WRITEWAIT U s = Inr s' \<and> WRITEWAIT s' = [] \<and> same_config s s'"
proof (induction "length (WRITEWAIT s)" arbitrary: s)
  case 0
  then show ?case by (simp add: drain_WRITEWAIT.simps)
next
  case (Suc k)
  then have "WRITEWAIT s \<noteq> []" by auto
  with service_first_succeeds obtain t where t: "service_first_WRITEWAIT_entry U s = Inr t" by blast
  note frame = service_first_WRITEWAIT_entry_frame [OF t]
  with Suc(2) have "k = length (WRITEWAIT t)" by (metis diff_Suc_1 length_tl)
  from Suc(1) [OF this] frame t show ?case
    by (auto simp: drain_WRITEWAIT.simps [of U s] intro: same_config_trans)
qed

section \<open>Exclusive access while the queue is written\<close>

text \<open>Nobody waits for the page, or nobody has it.\<close>

definition race_free :: "pagemap_entry_data \<Rightarrow> bool" where
  "race_free d \<longleftrightarrow> WAITLIST d = [] \<or> ACCESSLIST d = []"

lemma finish_write_page_ok:
  assumes "finish_write_page current i n err s = Inr (s', b)" and "exclusive s"
    and "\<not> ww_KERNEL_COPY current \<Longrightarrow> race_free (page_read s n)"
  shows "exclusive s' \<and> only_pages [n] s s'"
proof (cases err)
  case None
  with assms show ?thesis by (simp add: finish_write_page_def)
next
  case (Some e)
  define d where "d = (if e = KERN_SUCCESS then (page_read s n)\<lparr>INVALID := False\<rparr>
    else (page_read s n)\<lparr>INVALID := True, ERROR := e\<rparr>)"
  have d: "page_ok d" "ACCESSLIST d = ACCESSLIST (page_read s n)" "WAITLIST d = WAITLIST (page_read s n)"
    using exclusive_page [OF assms(2), of n] by (simp_all add: d_def)
  have fin: "finish_write_page current i n err s =
      (if matching_page_count_on_WRITEWAIT s n = 1 then
         if \<not> ww_KERNEL_COPY current then
           if WAITLIST d \<noteq> [] then
             andThen (service_WAITLIST (offset_of s n) (data_at s (ww_DATA current) i) True False s (d\<lparr>PAGINGOUT := False\<rparr>))
               (\<lambda>(s, tmp). Inr (page_write n tmp s, False))
           else Inr (page_write n (d\<lparr>PAGINGOUT := False, INVALID := False, ERROR := KERN_SUCCESS\<rparr>)
                       (drop_errors_of_page n s), True)
         else Inr (page_write n (d\<lparr>PAGINGOUT := False\<rparr>) s, False)
       else if ww_KERNEL_COPY current then Inr (page_write n d s, False)
       else Inl (Assert_failed ''current.KERNEL_COPY''))"
    by (simp add: finish_write_page_def Let_def Some d_def)
  show ?thesis
  proof (cases "matching_page_count_on_WRITEWAIT s n = 1 \<and> \<not> ww_KERNEL_COPY current \<and> WAITLIST d \<noteq> []")
    case True
    with assms(1) [unfolded fin] obtain t tmp where t: "service_WAITLIST (offset_of s n)
        (data_at s (ww_DATA current) i) True False s (d\<lparr>PAGINGOUT := False\<rparr>) = Inr (t, tmp)"
      and s': "s' = page_write n tmp t" by auto
    have "ACCESSLIST (d\<lparr>PAGINGOUT := False\<rparr>) = []"
      using assms(3) True d by (simp add: race_free_def)
    with service_step [OF t assms(2)] d(1) s' show ?thesis by simp
  next
    case False
    with assms(1) [unfolded fin] assms(2) d(1) show ?thesis
      by (auto simp: only_pages_page_write split: if_splits)
  qed
qed

definition entry_pages :: "(nat \<times> nat \<times> 'a) list \<Rightarrow> nat list" where
  "entry_pages xs = map (fst \<circ> snd) xs"

lemma entry_pages_Nil [simp]: "entry_pages [] = []"
  by (simp add: entry_pages_def)

lemma entry_pages_Cons [simp]: "entry_pages ((i, n, e) # xs) = n # entry_pages xs"
  by (simp add: entry_pages_def)

lemma entry_pages_zip [simp]:
  "length is = length ns \<Longrightarrow> length errs = length ns \<Longrightarrow> entry_pages (zip is (zip ns errs)) = ns"
  by (simp add: entry_pages_def flip: map_map)

lemma finish_writes_ok:
  assumes "finish_writes current xs s = Inr (s', bs)" and "exclusive s"
    and "distinct (entry_pages xs)"
    and "\<not> ww_KERNEL_COPY current \<Longrightarrow> \<forall>n \<in> set (entry_pages xs). race_free (page_read s n)"
  shows "exclusive s' \<and> only_pages (entry_pages xs) s s'"
  using assms
proof (induction xs arbitrary: s bs)
  case Nil
  then show ?case by simp
next
  case (Cons x xs)
  obtain i n err where x: "x = (i, n, err)" by (cases x) auto
  from Cons.prems(1) obtain t b bs' where 1: "finish_write_page current i n err s = Inr (t, b)"
    and 2: "finish_writes current xs t = Inr (s', bs')" by (auto simp: x)
  have t: "exclusive t" "only_pages [n] s t"
    using finish_write_page_ok [OF 1 Cons.prems(2)] Cons.prems(4) by (auto simp: x)
  have "exclusive s' \<and> only_pages (entry_pages xs) t s'"
  proof (rule Cons.IH [OF 2 t(1)])
    show "distinct (entry_pages xs)" using Cons.prems(3) by (simp add: x)
    show "\<forall>n \<in> set (entry_pages xs). race_free (page_read t n)" if "\<not> ww_KERNEL_COPY current"
    proof
      fix m assume m: "m \<in> set (entry_pages xs)"
      then have "m \<noteq> n" using Cons.prems(3) by (auto simp: x)
      with m Cons.prems(4) [OF that] only_pagesD [OF t(2), of m] show "race_free (page_read t m)" by (simp add: x)
    qed
  qed
  with t(2) only_pages_trans show ?case by (fastforce simp: x)
qed

lemma exclusive_service_first:
  assumes "service_first_WRITEWAIT_entry U s = Inr s'" and "exclusive s" and "WRITEWAIT s = e # rest"
    and "\<not> ww_KERNEL_COPY e \<Longrightarrow>
      \<forall>n \<in> set (page_range s (ww_OFFSET e) (ww_LENGTH e)). race_free (page_read s n)"
  shows "exclusive s'"
  using assms(1)
proof (cases rule: service_first_WRITEWAIT_entry_cases)
  case (1 current rest' s1 errs s2 bs s3)
  define ns where "ns = page_range s (ww_OFFSET e) (ww_LENGTH e)"
  have e: "current = e" using 1(1) assms(3) by simp
  note u = write_upcalls_same [OF 1(2)]
  have r: "page_read s1 = page_read s" using u page_read_cong by blast
  have "length errs = length ns" using u by (simp add: e ns_def pageout_flags_def)
  then have pages: "entry_pages (zip [0 ..< length ns] (zip ns errs)) = ns" by simp
  have "exclusive s1" using u assms(2) exclusive_cong by blast
  then have "exclusive s2"
    using finish_writes_ok [OF 1(3) [unfolded e, folded ns_def]] assms(4) r pages by (simp add: ns_def)
  then show ?thesis
    using 1(4,5) by (simp add: exclusive_def same_config_pop_WRITEWAIT notify_upcalls_same)
qed

text \<open>
  The condition under which a dirty return keeps write access exclusive: once the page is taken
  back from the client and the first waiting clients are served, nobody is left waiting for a
  page that somebody holds.
\<close>

definition return_race_free ::
    "user_pager \<Rightarrow> (nat \<Rightarrow> bool) \<Rightarrow> mach_port_t \<Rightarrow> vm_offset_t \<Rightarrow> vm_address_t \<Rightarrow> vm_size_t \<Rightarrow> bool \<Rightarrow> bool
     \<Rightarrow> pager \<Rightarrow> bool" where
  "return_race_free U stack c off DATA len dirty kcopy s \<longleftrightarrow> \<not> dirty \<or> kcopy \<or>
     (case data_return_pages U stack c off DATA len dirty kcopy s of Inl _ \<Rightarrow> True
      | Inr t \<Rightarrow> list_all (\<lambda>n. race_free (page_read t n)) (page_range s off len))"

lemma exclusive_data_return:
  assumes "data_return U stack c off DATA len dirty kcopy s = Inr s'" and "exclusive s"
    and "return_race_free U stack c off DATA len dirty kcopy s"
  shows "exclusive s'"
proof -
  from assms(1) obtain t where t: "data_return_pages U stack c off DATA len dirty kcopy s = Inr t"
    and s': "(if dirty then if WRITEWAIT t \<noteq> [] then Inr (queue_write off DATA len kcopy t)
         else drain_WRITEWAIT U (queue_write off DATA len kcopy t)
       else Inr (emit (Munmap DATA len) t)) = Inr s'" by (auto simp: data_return_def)
  note p = data_return_pages_ok [OF t assms(2)]
  show ?thesis
  proof (cases "dirty \<and> WRITEWAIT t = []")
    case False
    with s' p show ?thesis by (auto simp: queue_write_def split: if_splits)
  next
    case True
    define q where "q = queue_write off DATA len kcopy t"
    have q: "WRITEWAIT q = [\<lparr>ww_OFFSET = off, ww_DATA = DATA, ww_LENGTH = len, ww_KERNEL_COPY = kcopy\<rparr>]"
      "exclusive q" "page_read q = page_read t" "page_range q = page_range s"
      using p True by (auto simp: q_def queue_write_def page_read_def fun_eq_iff page_range_def page_of_def
        npages_def same_queue_unfold)
    from s' True have "drain_WRITEWAIT U q = Inr s'" by (simp add: q_def)
    then obtain v where v: "service_first_WRITEWAIT_entry U q = Inr v" "drain_WRITEWAIT U v = Inr s'"
      by (auto simp: drain_WRITEWAIT.simps [of U q] q(1))
    moreover have "s' = v"
      using v service_first_WRITEWAIT_entry_frame [OF v(1)] q(1) by (simp add: drain_WRITEWAIT.simps [of U v])
    moreover have "\<not> kcopy \<Longrightarrow> \<forall>n \<in> set (page_range q off len). race_free (page_read q n)"
      using assms(3) True t q by (simp add: return_race_free_def list_all_iff)
    ultimately show ?thesis using exclusive_service_first [OF v(1) q(2) q(1)] by simp
  qed
qed

end
