(* ===== verification/Pager_Relations.thy ===== *)
theory Pager_Relations
  imports Pager_Writeback
begin

text \<open>
  The elementary changes from which every handler is built are: storing a page, sending a message
  that asks for no confirmation, an internal flush request, and a new list of pending errors. The locale
  \<open>handler_relation\<close> states that a relation holds across each of them; its lemmas show that it then
  holds across every handler of kernel messages that does not complete locks or drop clients. It is
  interpreted with the accounting of outstanding locks and with the well-formedness of the lock
  table.
\<close>

text \<open>Events other than lock requests that ask for a confirmation.\<close>

definition harmless :: "event \<Rightarrow> bool" where
  "harmless e \<longleftrightarrow> (case e of Lock_request _ _ _ _ _ _ reply \<Rightarrow> reply = MACH_PORT_NULL | _ \<Rightarrow> True)"

lemma harmless_simps [simp]:
  "harmless (Data_supply c off data len dealloc prot precious)" "harmless (Data_error c off len err)"
  "harmless (Lock_request c off len ret fl prot MACH_PORT_NULL)"
  "harmless (Read_page off)" "harmless (Write_page off data)" "harmless (Unlock_page off)"
  "harmless (Notify_evict off)" "harmless (Munmap data len)" "harmless Wake_write_waiters"
  by (simp_all add: harmless_def)

locale handler_relation =
  fixes R :: "pager \<Rightarrow> pager \<Rightarrow> bool"
  assumes R_refl: "R s s"
    and R_trans: "R s t \<Longrightarrow> R t u \<Longrightarrow> R s u"
    and R_page_write: "R s (page_write n d s)"
    and R_emit: "harmless e \<Longrightarrow> R s (emit e s)"
    and R_flush: "R s (internal_flush_request c off s)"
    and R_NEXTERROR: "R s (s\<lparr>NEXTERROR := es\<rparr>)"
    and R_WRITEWAIT: "R s (s\<lparr>WRITEWAIT := ws\<rparr>)"
begin

lemma R_emit' [intro!]: "R s t \<Longrightarrow> harmless e \<Longrightarrow> R s (emit e t)"
  using R_emit R_trans by blast

lemma R_page_write' [intro!]: "R s t \<Longrightarrow> R s (page_write n d t)"
  using R_page_write R_trans by blast

lemma R_flush' [intro!]: "R s t \<Longrightarrow> R s (internal_flush_request c off t)"
  using R_flush R_trans by blast

lemma R_NEXTERROR' [intro!]: "R s t \<Longrightarrow> R s (t\<lparr>NEXTERROR := es\<rparr>)"
  using R_NEXTERROR R_trans by blast

lemma R_fold: "(\<And>x s. R s (f x s)) \<Longrightarrow> R s (fold f xs s)"
  by (induction xs arbitrary: s) (auto intro: R_refl R_trans)

lemma R_flush_clients' [intro!]: "R s t \<Longrightarrow> R s (flush_clients cs off t)"
  unfolding flush_clients_def by (erule R_trans, rule R_fold, rule R_flush)

lemma R_events: "list_all harmless es \<Longrightarrow> R s (s\<lparr>events := events s @ es\<rparr>)"
proof (induction es arbitrary: s rule: rev_induct)
  case Nil
  then show ?case using R_refl by simp
next
  case (snoc e es)
  then have "R s (emit e (s\<lparr>events := events s @ es\<rparr>))" by (intro R_emit') simp_all
  then show ?case by (simp add: emit_def)
qed

lemma harmless_supply: "list_all harmless (supply_messages s off data allow dealloc ws)"
  by (simp add: supply_messages_def reader_supplies_def reader_supply_def list_all_iff)

lemma R_service: "service_WAITLIST off data allow dealloc s d = Inr (s', d') \<Longrightarrow> R s s'"
  by (elim service_WAITLIST_cases)
    (auto simp: serviced_pager_def Let_def intro: R_refl R_events harmless_supply)

lemma R_send_error_to_client: "R s (send_error_to_client off d w s)"
  by (auto simp: send_error_to_client_def Let_def intro: R_refl)

lemma R_send_error: "send_error_to_WAITLIST off s d = (s', d') \<Longrightarrow> R s s'"
  by (auto simp: send_error_to_WAITLIST_def intro: R_fold R_send_error_to_client)

lemma R_finalize_unlock: "finalize_unlock off err s d = Inr (s', d') \<Longrightarrow> R s s'"
  by (auto simp: finalize_unlock_def Let_def intro: R_refl split: if_splits)

lemma R_ilc_scan_page: "ilc_scan_page c n s = Inr (s', op) \<Longrightarrow> R s s'"
  by (auto simp: ilc_scan_page_def Let_def intro: R_refl split: if_splits prod.splits dest!: R_send_error)

lemma R_ilc_scan: "ilc_scan c ns s = Inr (s', ops) \<Longrightarrow> R s s'"
proof (induction ns arbitrary: s ops)
  case Nil
  then show ?case using R_refl by simp
next
  case (Cons n ns)
  then show ?case by (fastforce dest: R_ilc_scan_page intro: R_trans)
qed

lemma R_ilc_upcalls: "ilc_upcalls U xs s = (s', rs) \<Longrightarrow> R s s'"
proof (induction xs arbitrary: s rs)
  case Nil
  then show ?case using R_refl by simp
next
  case (Cons x xs)
  obtain n op where x: "x = (n, op)" by force
  obtain t rs' where "ilc_upcalls U xs t = (s', rs')" "R s t"
    using Cons.prems R_refl [of s] R_emit [of "Read_page (offset_of s n)" s]
      R_emit [of "Unlock_page (offset_of s n)" s]
    by (cases op) (auto simp: x Let_def split: prod.splits)
  then show ?case using Cons.IH R_trans by blast
qed

lemma R_ilc_finish_page: "ilc_finish_page n r s = Inr s' \<Longrightarrow> R s s'"
  by (auto simp: ilc_finish_page_def Let_def intro: R_refl split: upcall_result.splits if_splits prod.splits
    dest!: R_service R_finalize_unlock R_send_error)

lemma R_ilc_finish: "ilc_finish xs s = Inr s' \<Longrightarrow> R s s'"
proof (induction xs arbitrary: s)
  case Nil
  then show ?case using R_refl by simp
next
  case (Cons x xs)
  then show ?case by (cases x) (fastforce dest: R_ilc_finish_page intro: R_trans)
qed

lemma R_internal_lock_completed: "internal_lock_completed U c off len s = Inr s' \<Longrightarrow> R s s'"
proof (erule internal_lock_completed_cases)
  show "s' = s \<Longrightarrow> R s s'" using R_refl by simp
qed (blast dest: R_ilc_scan R_ilc_upcalls R_ilc_finish intro: R_trans)

lemma R_data_request_locked: "data_request_locked c off len prot s = Inr (s', next) \<Longrightarrow> R s s'"
  by (auto simp: data_request_locked_def Let_def intro: R_refl split: if_splits option.splits)

lemma R_data_request_supply: "data_request_supply off err buf wl s = Inr s' \<Longrightarrow> R s s'"
  by (auto simp: data_request_supply_def Let_def split: if_splits prod.splits
    dest!: R_service R_send_error)

lemma R_data_request: "data_request U c off len prot s = Inr s' \<Longrightarrow> R s s'"
proof (erule data_request_cases)
  show "R s s'" if "data_request_locked c off len prot s = Inr (s1, Request_page_in)"
    "data_request_supply off err buf wl (emit (Read_page off) s1) = Inr s'" for s1 err buf wl
    using R_data_request_locked [OF that(1)] R_data_request_supply [OF that(2)]
      R_emit [of "Read_page off" s1] R_trans by (metis harmless_simps(4))
qed (blast dest: R_data_request_locked R_internal_lock_completed intro: R_trans)+

lemma R_unlock_scan_page: "unlock_scan_page c off n s = Inr (s', b) \<Longrightarrow> R s s'"
  by (auto simp: unlock_scan_page_def Let_def intro: R_refl split: if_splits)

lemma R_unlock_scan: "unlock_scan c off ns s = Inr (s', bs) \<Longrightarrow> R s s'"
proof (induction ns arbitrary: s bs)
  case Nil
  then show ?case using R_refl by simp
next
  case (Cons n ns)
  then show ?case by (fastforce dest: R_unlock_scan_page intro: R_trans)
qed

lemma R_unlock_upcalls: "unlock_upcalls U xs s = (s', rs) \<Longrightarrow> R s s'"
proof (induction xs arbitrary: s rs)
  case Nil
  then show ?case using R_refl by simp
next
  case (Cons x xs)
  obtain n b where x: "x = (n, b)" by force
  obtain t rs' where "unlock_upcalls U xs t = (s', rs')" "R s t"
    using Cons.prems R_refl [of s] R_emit [of "Unlock_page (offset_of s n)" s]
    by (cases b) (auto simp: x Let_def split: prod.splits)
  then show ?case using Cons.IH R_trans by blast
qed

lemma R_unlock_finish: "unlock_finish xs s = Inr s' \<Longrightarrow> R s s'"
proof (induction xs s rule: unlock_finish.induct)
  case (1 s)
  then show ?case using R_refl by simp
next
  case (3 n err rest s)
  from 3(2) obtain t d where t: "finalize_unlock (offset_of s n) err s (page_read s n) = Inr (t, d)"
    and u: "unlock_finish rest (page_write n d t) = Inr s'" by auto
  have "R s (page_write n d t)" using R_finalize_unlock [OF t] by (rule R_page_write')
  moreover have "R (page_write n d t) s'" using 3(1) [OF t refl] u by simp
  ultimately show ?case by (rule R_trans)
qed auto

lemma R_data_unlock: "data_unlock U c off len prot s = Inr s' \<Longrightarrow> R s s'"
proof (erule data_unlock_cases)
  show "s' = s \<Longrightarrow> R s s'" using R_refl by simp
qed (blast dest: R_unlock_scan R_unlock_upcalls R_unlock_finish intro: R_trans)

lemma R_drop_errors' [intro!]: "R s t \<Longrightarrow> R s (drop_errors_of_page n t)"
  unfolding drop_errors_of_page_def by (rule R_NEXTERROR')

lemma R_return_scan_page: "return_scan_page stack c DATA dirty kcopy i n s = Inr (s', fl) \<Longrightarrow> R s s'"
  by (erule return_scan_page_cases) (auto intro: R_refl dest: R_service)

lemma R_return_scan: "return_scan stack c DATA dirty kcopy xs s = Inr (s', fls) \<Longrightarrow> R s s'"
proof (induction xs arbitrary: s fls)
  case Nil
  then show ?case using R_refl by simp
next
  case (Cons x xs)
  then show ?case by (cases x) (fastforce dest: R_return_scan_page intro: R_trans)
qed

lemma R_return_upcalls: "return_upcalls U xs s = (s', rs) \<Longrightarrow> R s s'"
proof (induction xs arbitrary: s rs)
  case Nil
  then show ?case using R_refl by simp
next
  case (Cons x xs)
  obtain n fl where x: "x = (n, fl)" by force
  define t where "t = (if do_unlock fl then emit (Unlock_page (offset_of s n)) s else s)"
  define u where "u = (if do_notify fl then emit (Notify_evict (offset_of s n)) t else t)"
  have "R s u" using R_refl by (auto simp: t_def u_def)
  moreover obtain rs' where "return_upcalls U xs u = (s', rs')"
    using Cons.prems by (cases "do_unlock fl"; cases "do_notify fl")
      (auto simp: x t_def u_def Let_def split: prod.splits)
  ultimately show ?case using Cons.IH R_trans by blast
qed

lemma R_data_return_pages: "data_return_pages U stack c off DATA len dirty kcopy s = Inr s' \<Longrightarrow> R s s'"
  by (erule data_return_pages_cases)
    (blast dest: R_return_scan R_return_upcalls R_unlock_finish intro: R_trans)+

lemma R_write_upcalls: "write_upcalls U DATA xs s = (s', rs) \<Longrightarrow> R s s'"
proof (induction xs arbitrary: s rs)
  case Nil
  then show ?case using R_refl by simp
next
  case (Cons x xs)
  obtain i n b where x: "x = (i, n, b)" by (cases x) auto
  obtain t rs' where "write_upcalls U DATA xs t = (s', rs')" "R s t"
    using Cons.prems R_refl [of s] R_emit [of "Write_page (offset_of s n) (data_at s DATA i)" s]
    by (cases b) (auto simp: x Let_def split: prod.splits)
  then show ?case using Cons.IH R_trans by blast
qed

lemma R_finish_write_page: "finish_write_page current i n err s = Inr (s', b) \<Longrightarrow> R s s'"
  by (auto simp: finish_write_page_def Let_def intro: R_refl split: option.splits if_splits dest!: R_service)

lemma R_finish_writes: "finish_writes current xs s = Inr (s', bs) \<Longrightarrow> R s s'"
proof (induction xs arbitrary: s bs)
  case Nil
  then show ?case using R_refl by simp
next
  case (Cons x xs)
  then show ?case by (cases x) (fastforce dest: R_finish_write_page intro: R_trans)
qed

lemma R_notify_upcalls': "R t s \<Longrightarrow> R t (notify_upcalls xs s)"
proof (induction xs s rule: notify_upcalls.induct)
  case (2 n do_notify rest s)
  have "R t (if do_notify then emit (Notify_evict (offset_of s n)) s else s)" using 2(2) by auto
  with 2(1) show ?case by simp
qed simp

lemma R_pop_WRITEWAIT': "R s t \<Longrightarrow> R s (pop_WRITEWAIT t)"
  unfolding pop_WRITEWAIT_def by (rule R_emit', erule R_trans, rule R_WRITEWAIT) simp

lemma R_service_first: "service_first_WRITEWAIT_entry U s = Inr s' \<Longrightarrow> R s s'"
proof (erule service_first_WRITEWAIT_entry_cases, goal_cases)
  case (1 current rest s1 errs s2 bs s3)
  have "R s s2" using R_write_upcalls [OF 1(2)] R_finish_writes [OF 1(3)] by (rule R_trans)
  then have "R s s3" using 1(4) by auto
  then show ?case using 1(5) by (auto intro!: R_pop_WRITEWAIT' R_notify_upcalls')
qed

lemma R_drain: "drain_WRITEWAIT U s = Inr s' \<Longrightarrow> R s s'"
proof (induction U s rule: drain_WRITEWAIT.induct)
  case (1 U s)
  then show ?case
    using R_refl by (auto simp: drain_WRITEWAIT.simps [of U s] split: if_splits dest: R_service_first intro: R_trans)
qed

lemma R_queue_write: "R s (queue_write off DATA len kcopy s)"
  unfolding queue_write_def by (rule R_WRITEWAIT)

lemma R_data_return: "data_return U stack c off DATA len dirty kcopy s = Inr s' \<Longrightarrow> R s s'"
proof -
  assume "data_return U stack c off DATA len dirty kcopy s = Inr s'"
  then obtain t where t: "data_return_pages U stack c off DATA len dirty kcopy s = Inr t"
    and s': "(if dirty then if WRITEWAIT t \<noteq> [] then Inr (queue_write off DATA len kcopy t)
         else drain_WRITEWAIT U (queue_write off DATA len kcopy t)
       else Inr (emit (Munmap DATA len) t)) = Inr s'" by (auto simp: data_return_def)
  have "R t s'"
  proof (cases dirty)
    case True
    with s' R_queue_write [of t off DATA len kcopy] R_trans R_drain show ?thesis
      by (cases "WRITEWAIT t = []") auto
  next
    case False
    with s' R_refl show ?thesis by auto
  qed
  with R_data_return_pages [OF t] show ?thesis by (rule R_trans)
qed

end

end
