(* ===== verification/Pager_Example.thy ===== *)
theory Pager_Example
  imports Pager_Clients
begin

text \<open>
  Concrete data for the witnesses: a file system whose reads, writes and unlocks succeed, one
  whose reads and unlocks fail, and a pager with pages of 4096 bytes.
\<close>

definition good_fs :: user_pager where
  "good_fs = \<lparr>pager_read_page = (\<lambda>_ off. (KERN_SUCCESS, off + 0x100000, False)),
     pager_write_page = (\<lambda>_ _ _. KERN_SUCCESS), pager_unlock_page = (\<lambda>_ _. KERN_SUCCESS),
     pager_report_extent = (\<lambda>_. (0, 0x4000))\<rparr>"

definition bad_fs :: user_pager where
  "bad_fs = \<lparr>pager_read_page = (\<lambda>_ off. (5, 0, False)),
     pager_write_page = (\<lambda>_ _ _. 5), pager_unlock_page = (\<lambda>_ _. 5),
     pager_report_extent = (\<lambda>_. (0, 0x4000))\<rparr>"

definition example_pager :: pager where
  "example_pager = new_pager 7 4096 False 0 False"

end
