(* ===== verification/Pager_Steps.thy ===== *)
theory Pager_Steps
  imports Pager_Writeback Pager_Example
begin

text \<open>
  The pager as a state machine. A step is one message of a kernel, served from beginning to end
  (the queue of \<^verbatim>\<open>demuxer.c\<close> has one worker), or one call of the file system. A dirty return is a
  step only when it is race free (\<open>return_race_free\<close>); what happens otherwise is shown by a run in
  \<open>Pager_Properties\<close>. The invariant holds in every state that can be reached.
\<close>

section \<open>Clients that leave keep the invariant\<close>

lemma exclusive_drop_client_locks:
  "drop_client_locks U c k s = Inr s' \<Longrightarrow> exclusive s \<Longrightarrow> exclusive s'"
  by (erule drop_client_locks_invariant)
    (auto simp: release_client_locks_def Let_def intro: exclusive_internal_lock_completed)

lemma page_ok_drop_client_page: "page_ok d \<Longrightarrow> page_ok (drop_client_page c d)"
  by (auto simp: drop_client_page_def Let_def page_ok_not_granted)

lemma complete_changes_frame [simp]:
  "pagemap (complete_changes c s) = pagemap s" "clients (complete_changes c s) = clients s"
  "outstanding_locks (complete_changes c s) = outstanding_locks s"
  "terminating (complete_changes c s) = terminating s"
  "WRITEWAIT (complete_changes c s) = WRITEWAIT s"
  "NEXTERROR (complete_changes c s) = NEXTERROR s"
  "page_size (complete_changes c s) = page_size s"
  "port_right (complete_changes c s) = port_right s"
  by (simp_all add: complete_changes_def fold_invariant_field)

lemma drop_client_cases:
  assumes "drop_client U c s = Inr s'"
  obtains t where "(case outstanding_locks s of [] \<Rightarrow> Inr s | (k, _) # _ \<Rightarrow> drop_client_locks U c k s) = Inr t"
    "pagemap s' = map (drop_client_page c) (pagemap t)" "clients s' = oset_erase c (clients t)"
    "outstanding_locks s' = outstanding_locks t" "WRITEWAIT s' = WRITEWAIT t"
    "terminating s' = terminating t" "page_size s' = page_size t" "port_right s' = port_right t"
  using assms by (auto simp: drop_client_def Let_def)

lemma exclusive_drop_client:
  assumes "drop_client U c s = Inr s'" and "exclusive s"
  shows "exclusive s'"
  using assms(1)
proof (cases rule: drop_client_cases)
  case (1 t)
  then have "exclusive t"
    using assms(2) exclusive_drop_client_locks by (auto split: list.splits)
  with 1(2) show ?thesis by (simp add: exclusive_def list_all_iff page_ok_drop_client_page)
qed

section \<open>Steps\<close>

inductive pager_step :: "user_pager \<Rightarrow> pager \<Rightarrow> pager \<Rightarrow> bool" for U where
  init: "object_init control name pagesize s = Inr s' \<Longrightarrow> pager_step U s s'"
| request: "data_request U c off len prot s = Inr s' \<Longrightarrow> pager_step U s s'"
| unlock: "data_unlock U c off len prot s = Inr s' \<Longrightarrow> pager_step U s s'"
| completed: "lock_completed U c off len s = Inr s' \<Longrightarrow> pager_step U s s'"
| returned: "data_return U stack c off DATA len dirty kcopy s = Inr s' \<Longrightarrow>
    return_race_free U stack c off DATA len dirty kcopy s \<Longrightarrow> pager_step U s s'"
| terminate: "object_terminate U control name s = Inr s' \<Longrightarrow> pager_step U s s'"
| dead: "dead_name U c s = Inr s' \<Longrightarrow> pager_step U s s'"
| lock_object: "lock_object_request off len return flush sync s = (s', waiting) \<Longrightarrow> pager_step U s s'"
| change: "change_attributes_send mc cs sync portset replies s = (s', outstanding) \<Longrightarrow> pager_step U s s'"
| changed: "change_attributes_receive msgh_id port (s, outstanding) = Inr (s', outstanding') \<Longrightarrow>
    pager_step U s s'"
| shutdown: "shutdown_begin U s = (s', waiting) \<Longrightarrow> pager_step U s s'"

inductive pager_reachable :: "user_pager \<Rightarrow> pager \<Rightarrow> pager \<Rightarrow> bool" for U and s\<^sub>0 where
  initial: "pager_reachable U s\<^sub>0 s\<^sub>0"
| step: "pager_reachable U s\<^sub>0 s \<Longrightarrow> pager_step U s s' \<Longrightarrow> pager_reachable U s\<^sub>0 s'"

inductive_cases pager_stepE: "pager_step U s s'"

section \<open>What the steps keep\<close>

lemma fold_same_pagemap: "(\<And>x s. pagemap (f x s) = pagemap s) \<Longrightarrow> pagemap (fold f xs s) = pagemap s"
  by (rule fold_invariant_field)

lemma lock_object_request_frame:
  assumes "lock_object_request off len return flush sync s = (s', waiting)"
  shows "pagemap s' = pagemap s \<and> WRITEWAIT s' = WRITEWAIT s"
  using assms
  by (auto simp: lock_object_request_def Let_def fold_invariant_field split: if_splits)

lemma change_attributes_send_frame:
  assumes "change_attributes_send mc cs sync portset replies s = (s', outstanding)"
  shows "pagemap s' = pagemap s \<and> WRITEWAIT s' = WRITEWAIT s \<and> may_cache s' = may_cache s \<and>
    copy_strategy s' = copy_strategy s \<and> clients s' = clients s"
  using assms
  by (auto simp: change_attributes_send_def Let_def fold_invariant_field case_prod_unfold split: if_splits)

lemma exclusive_step: "pager_step U s s' \<Longrightarrow> exclusive s \<Longrightarrow> exclusive s'"
proof (induction rule: pager_step.induct)
  case (init control name pagesize s s')
  then show ?case by (auto simp: object_init_def Let_def split: if_splits)
next
  case (terminate control name s s')
  then show ?case by (auto simp: object_terminate_def dest: exclusive_drop_client)
next
  case (dead c s s')
  then show ?case by (auto simp: dead_name_def dest: exclusive_drop_client)
next
  case (lock_object off len return flush sync s s' waiting)
  then show ?case using lock_object_request_frame exclusive_cong by blast
next
  case (change mc cs sync portset replies s s' outstanding)
  then show ?case using change_attributes_send_frame exclusive_cong by blast
next
  case (changed msgh_id port s outstanding s' outstanding')
  then show ?case by (auto simp: change_attributes_receive_def exclusive_def Let_def split: if_splits)
next
  case (shutdown s s' waiting)
  then show ?case
    using lock_object_request_frame exclusive_cong
    by (fastforce simp: shutdown_begin_def pager_return_def exclusive_def split: prod.splits)
qed (auto intro: exclusive_data_request exclusive_data_unlock exclusive_lock_completed exclusive_data_return)

lemma exclusive_reachable: "pager_reachable U s\<^sub>0 s \<Longrightarrow> exclusive s\<^sub>0 \<Longrightarrow> exclusive s"
  by (induction rule: pager_reachable.induct) (auto intro: exclusive_step)

end
