(* ===== verification/Pager_Api.thy ===== *)
theory Pager_Api
  imports Pager_Clients
begin

text \<open>
  The server routines that the message dispatcher calls (\<^verbatim>\<open>libpager/data-request.cc\<close>,
  \<^verbatim>\<open>data-return.cc\<close>, \<^verbatim>\<open>data-unlock.cc\<close>, \<^verbatim>\<open>lock-completed.cc\<close>, \<^verbatim>\<open>object-init.cc\<close>, \<^verbatim>\<open>object-terminate.cc\<close>,
  \<^verbatim>\<open>dead-name.cc\<close>, \<^verbatim>\<open>stubs.c\<close>), the creation of a pager (\<^verbatim>\<open>pager-create.cc\<close>), its end (\<^verbatim>\<open>clean.cc\<close>,
  \<^verbatim>\<open>pager-shutdown.cc\<close>), and the calls that only forward.

  A routine gets the object that the receiving port belongs to: none, an object of another port
  class, or a pager. The dispatcher that decodes a message is generated from
  \<^verbatim>\<open>mach/memory_object.defs\<close>; \<open>kernel_message\<close> is a decoded message.
\<close>

section \<open>Server routines\<close>

record port_object =
  of_pager_class :: bool
  the_pager :: pager

abbreviation EOPNOTSUPP :: kern_return_t where "EOPNOTSUPP \<equiv> 0x4000002D"

type_synonym server_result = "(kern_return_t \<times> port_object option) result"

text \<open>The test that opens every routine, and the method call that follows it.\<close>

definition server_routine :: "(pager \<Rightarrow> pager result) \<Rightarrow> port_object option \<Rightarrow> server_result" where
  "server_routine method p =
     (case p of None \<Rightarrow> Inr (EOPNOTSUPP, p)
      | Some q \<Rightarrow> if \<not> of_pager_class q then Inr (EOPNOTSUPP, p)
          else andThen (method (the_pager q)) (\<lambda>s. Inr (0, Some (q\<lparr>the_pager := s\<rparr>))))"

definition S_memory_object_data_request where
  "S_memory_object_data_request U p control offset len access =
     server_routine (data_request U control offset len access) p"

definition S_memory_object_data_return where
  "S_memory_object_data_return U stack p control offset data len dirty kcopy =
     server_routine (data_return U stack control offset data len dirty kcopy) p"

definition S_memory_object_data_unlock where
  "S_memory_object_data_unlock U p control offset len access =
     server_routine (data_unlock U control offset len access) p"

definition S_memory_object_lock_completed where
  "S_memory_object_lock_completed U p control offset len =
     server_routine (lock_completed U control offset len) p"

definition S_memory_object_init where
  "S_memory_object_init p control name pagesize = server_routine (object_init control name pagesize) p"

definition S_memory_object_terminate where
  "S_memory_object_terminate U p control name = server_routine (object_terminate U control name) p"

text \<open>The routines of \<^verbatim>\<open>stubs.c\<close> are not supported.\<close>

definition S_memory_object_copy :: "port_object option \<Rightarrow> server_result" where
  "S_memory_object_copy p = Inr (EOPNOTSUPP, p)"

definition S_memory_object_supply_completed :: "port_object option \<Rightarrow> server_result" where
  "S_memory_object_supply_completed p = Inr (EOPNOTSUPP, p)"

definition S_memory_object_change_completed :: "port_object option \<Rightarrow> server_result" where
  "S_memory_object_change_completed p = Inr (EOPNOTSUPP, p)"

text \<open>
  \<^verbatim>\<open>_pager_dead_name_notify\<close>: the reply code it leaves is \<^verbatim>\<open>MIG_NO_REPLY\<close>, or what
  \<^verbatim>\<open>mig_reply_setup\<close> wrote (\<^verbatim>\<open>MIG_BAD_ID\<close>) when it returns early.
\<close>

abbreviation MIG_NO_REPLY :: kern_return_t where "MIG_NO_REPLY \<equiv> -305"
abbreviation MIG_BAD_ID :: kern_return_t where "MIG_BAD_ID \<equiv> -303"

definition pager_dead_name_notify :: "user_pager \<Rightarrow> port_object option \<Rightarrow> mach_port_t \<Rightarrow> server_result" where
  "pager_dead_name_notify U p name =
     (case p of None \<Rightarrow> Inr (MIG_BAD_ID, p)
      | Some q \<Rightarrow> if \<not> of_pager_class q then Inr (MIG_BAD_ID, p)
          else andThen (dead_name U name (the_pager q))
            (\<lambda>s. Inr (MIG_NO_REPLY, Some (q\<lparr>the_pager := s\<rparr>))))"

datatype kernel_message =
    Memory_object_init mach_port_t mach_port_t vm_size_t
  | Memory_object_data_request mach_port_t vm_offset_t vm_size_t vm_prot_t
  | Memory_object_data_unlock mach_port_t vm_offset_t vm_size_t vm_prot_t
  | Memory_object_data_return mach_port_t vm_offset_t vm_address_t vm_size_t bool bool
  | Memory_object_lock_completed mach_port_t vm_offset_t vm_size_t
  | Memory_object_terminate mach_port_t mach_port_t
  | Memory_object_copy
  | Memory_object_supply_completed
  | Memory_object_change_completed
  | Dead_name_notification mach_port_t

text \<open>The routine that a message is given to, and its effect on the object.\<close>

fun serve :: "user_pager \<Rightarrow> (nat \<Rightarrow> bool) \<Rightarrow> kernel_message \<Rightarrow> port_object option \<Rightarrow> server_result" where
  "serve U stack (Memory_object_init control name pagesize) p = S_memory_object_init p control name pagesize"
| "serve U stack (Memory_object_data_request c off len access) p = S_memory_object_data_request U p c off len access"
| "serve U stack (Memory_object_data_unlock c off len access) p = S_memory_object_data_unlock U p c off len access"
| "serve U stack (Memory_object_data_return c off data len dirty kcopy) p =
     S_memory_object_data_return U stack p c off data len dirty kcopy"
| "serve U stack (Memory_object_lock_completed c off len) p = S_memory_object_lock_completed U p c off len"
| "serve U stack (Memory_object_terminate control name) p = S_memory_object_terminate U p control name"
| "serve U stack Memory_object_copy p = S_memory_object_copy p"
| "serve U stack Memory_object_supply_completed p = S_memory_object_supply_completed p"
| "serve U stack Memory_object_change_completed p = S_memory_object_change_completed p"
| "serve U stack (Dead_name_notification name) p = pager_dead_name_notify U p name"

text \<open>A sequence of messages, served in turn; the routines' return codes are not used.\<close>

definition serve_next :: "user_pager \<Rightarrow> (nat \<Rightarrow> bool) \<Rightarrow> kernel_message \<Rightarrow> port_object option \<Rightarrow> port_object option result"
  where
  "serve_next U stack m p = andThen (serve U stack m p) (\<lambda>(_, p). Inr p)"

definition serve_all ::
    "user_pager \<Rightarrow> (nat \<Rightarrow> bool) \<Rightarrow> kernel_message list \<Rightarrow> pager \<Rightarrow> pager result" where
  "serve_all U stack ms s =
     andThen (for_each (serve_next U stack) ms (Some \<lparr>of_pager_class = True, the_pager = s\<rparr>))
       (\<lambda>p. Inr (the_pager (the p)))"

section \<open>Creation and end\<close>

text \<open>
  \<^verbatim>\<open>ports_create_port\<close> gives a port or an error. \<open>port\<close> is its answer; \<^verbatim>\<open>vm_page_size\<close> is the
  system's page size.
\<close>

definition pager_create ::
    "(kern_return_t + mach_port_t) \<Rightarrow> vm_size_t \<Rightarrow> bool \<Rightarrow> int \<Rightarrow> bool \<Rightarrow> port_object option" where
  "pager_create port vm_page_size mc cs notify =
     (case port of Inl errno \<Rightarrow> None
      | Inr right \<Rightarrow> Some \<lparr>of_pager_class = True, the_pager = new_pager right vm_page_size mc cs notify\<rparr>)"

definition pager_clean :: "user_pager \<Rightarrow> pager \<Rightarrow> pager result" where
  "pager_clean U s = destroy_pager U s"

text \<open>\<^verbatim>\<open>pager_shutdown\<close> after the wait: the right is destroyed by \<^verbatim>\<open>pager::shutdown\<close> and again by the caller.\<close>

definition pager_shutdown_end :: "pager \<Rightarrow> pager" where
  "pager_shutdown_end s = emit Ports_destroy_right (shutdown_end s)"

definition pager_change_attributes where
  "pager_change_attributes mc cs wait portset replies s = change_attributes_send mc cs wait portset replies s"

definition pager_get_error :: "vm_address_t \<Rightarrow> pager \<Rightarrow> kern_return_t" where
  "pager_get_error addr s = get_error addr s"

section \<open>A message served by a pager is a call of one method\<close>

fun method_of :: "user_pager \<Rightarrow> (nat \<Rightarrow> bool) \<Rightarrow> kernel_message \<Rightarrow> pager \<Rightarrow> pager result" where
  "method_of U stack (Memory_object_init control name pagesize) s = object_init control name pagesize s"
| "method_of U stack (Memory_object_data_request c off len access) s = data_request U c off len access s"
| "method_of U stack (Memory_object_data_unlock c off len access) s = data_unlock U c off len access s"
| "method_of U stack (Memory_object_data_return c off data len dirty kcopy) s =
     data_return U stack c off data len dirty kcopy s"
| "method_of U stack (Memory_object_lock_completed c off len) s = lock_completed U c off len s"
| "method_of U stack (Memory_object_terminate control name) s = object_terminate U control name s"
| "method_of U stack (Dead_name_notification name) s = dead_name U name s"
| "method_of U stack Memory_object_copy s = Inr s"
| "method_of U stack Memory_object_supply_completed s = Inr s"
| "method_of U stack Memory_object_change_completed s = Inr s"

lemmas server_defs = server_routine_def S_memory_object_data_request_def S_memory_object_data_return_def
  S_memory_object_data_unlock_def S_memory_object_lock_completed_def S_memory_object_init_def
  S_memory_object_terminate_def S_memory_object_copy_def S_memory_object_supply_completed_def
  S_memory_object_change_completed_def pager_dead_name_notify_def

lemma serve_next_pager:
  "serve_next U stack m (Some \<lparr>of_pager_class = True, the_pager = s\<rparr>) =
     andThen (method_of U stack m s) (\<lambda>s. Inr (Some \<lparr>of_pager_class = True, the_pager = s\<rparr>))"
  by (cases m) (simp_all add: serve_next_def server_defs andThen_def split: sum.split)

lemma serve_all_eq: "serve_all U stack ms s = for_each (method_of U stack) ms s"
proof -
  have "for_each (serve_next U stack) ms (Some \<lparr>of_pager_class = True, the_pager = s\<rparr>) =
      andThen (for_each (method_of U stack) ms s) (\<lambda>s. Inr (Some \<lparr>of_pager_class = True, the_pager = s\<rparr>))"
    for s
    by (induction ms arbitrary: s) (simp_all add: serve_next_pager, simp add: andThen_def split: sum.split)
  then show ?thesis by (simp add: serve_all_def andThen_def split: sum.split)
qed

end
