(* ===== verification/Pager_Locks.thy ===== *)
theory Pager_Locks
  imports Pager_Relations Pager_Steps Pager_Api
begin

text \<open>
  The accounting of outstanding locks. For every range and client the pager keeps a count; the
  invariant is that the count is the number of lock requests sent with the pager as reply port
  minus the number of confirmations that came back. \<open>balance\<close> is the difference that only
  \<^verbatim>\<open>lock_completed\<close> and the loss of a client may change.
\<close>

section \<open>The table\<close>

lemma client_lock_put [simp]:
  "client_lock (put_client_lock k c r s) k' c' = (if k' = k \<and> c' = c then r else client_lock s k' c')"
  by (simp add: client_lock_def range_locks_def put_client_lock_def omap_at_def omap_get_put)

lemma count_fresh [simp]: "count fresh_client_lock = 0"
  by (simp add: fresh_client_lock_def)

lemma client_lock_cong: "outstanding_locks s = outstanding_locks s' \<Longrightarrow> client_lock s = client_lock s'"
  by (simp add: client_lock_def range_locks_def fun_eq_iff)

lemma client_lock_emit [simp]: "client_lock (emit e s) = client_lock s"
  by (rule client_lock_cong) simp

definition range_ok :: "outstanding_lock \<Rightarrow> bool" where
  "range_ok locks \<longleftrightarrow> omap_ok locks \<and> locks \<noteq> [] \<and> (\<forall>r \<in> snd ` set locks. 0 < count r)"

text \<open>Every range in the table has a client, every client a positive count.\<close>

definition locks_ok :: "pager \<Rightarrow> bool" where
  "locks_ok s \<longleftrightarrow> omap_ok (outstanding_locks s) \<and> (\<forall>locks \<in> snd ` set (outstanding_locks s). range_ok locks)"

lemma set_omap_put: "set (omap_put k v m) \<subseteq> insert (k, v) (set m)"
  by (induction k v m rule: omap_put.induct) auto

lemma set_omap_erase: "set (omap_erase k m) \<subseteq> set m"
  by (induction k m rule: omap_erase.induct) auto

lemma omap_put_not_Nil [simp]: "omap_put k v m \<noteq> []"
  by (induction k v m rule: omap_put.induct) auto

lemma omap_get_in_set: "omap_get k m = Some v \<Longrightarrow> (k, v) \<in> set m"
  by (simp add: omap_get_def map_of_SomeD)

lemma locks_ok_cong: "outstanding_locks s' = outstanding_locks s \<Longrightarrow> locks_ok s' \<longleftrightarrow> locks_ok s"
  by (simp add: locks_ok_def)

lemma locks_ok_range: "locks_ok s \<Longrightarrow> omap_get k (outstanding_locks s) = Some locks \<Longrightarrow> range_ok locks"
  using omap_get_in_set by (force simp: locks_ok_def)

lemma locks_ok_count: "locks_ok s \<Longrightarrow> 0 \<le> count (client_lock s k c)"
  using locks_ok_range [of s k] omap_get_in_set
  by (fastforce simp: client_lock_def range_locks_def omap_at_def fresh_client_lock_def range_ok_def
    split: option.splits)

lemma locks_ok_put:
  assumes "locks_ok s" and "0 < count r"
  shows "locks_ok (put_client_lock k c r s)"
proof -
  have "omap_ok (range_locks s k) \<and> (\<forall>r \<in> snd ` set (range_locks s k). 0 < count r)"
    using locks_ok_range [OF assms(1), of k]
    by (cases "omap_get k (outstanding_locks s)") (simp_all add: range_locks_def omap_at_def range_ok_def)
  then have "range_ok (omap_put c r (range_locks s k))"
    using assms(2) set_omap_put [of c r "range_locks s k"] by (auto simp: range_ok_def)
  with assms(1) show ?thesis
    using set_omap_put [of k "omap_put c r (range_locks s k)" "outstanding_locks s"]
    by (fastforce simp: locks_ok_def put_client_lock_def)
qed

lemma locks_ok_update:
  assumes "locks_ok s" and "range_ok locks"
  shows "locks_ok (s\<lparr>outstanding_locks := omap_put k locks (outstanding_locks s)\<rparr>)"
  using assms set_omap_put [of k locks "outstanding_locks s"] by (fastforce simp: locks_ok_def)

lemma locks_ok_erase:
  assumes "locks_ok s"
  shows "locks_ok (s\<lparr>outstanding_locks := omap_erase k (outstanding_locks s)\<rparr>)"
  using assms set_omap_erase [of k "outstanding_locks s"] by (fastforce simp: locks_ok_def)

lemma internal_flush_request_locks:
  "outstanding_locks (internal_flush_request c off s) = outstanding_locks (put_client_lock (off, page_size s) c
     ((client_lock s (off, page_size s) c)\<lparr>internal_lock_outstanding := True,
       count := count (client_lock s (off, page_size s) c) + 1\<rparr>) s)"
  by (simp add: internal_flush_request_def Let_def)

lemma locks_ok_flush: "locks_ok s \<Longrightarrow> locks_ok (internal_flush_request c off s)"
  using locks_ok_put [of s] locks_ok_count [of s "(off, page_size s)" c]
    locks_ok_cong [OF internal_flush_request_locks [of c off s]]
  by simp

interpretation lock_table: handler_relation "\<lambda>s s'. locks_ok s \<longrightarrow> locks_ok s'"
  by unfold_locales
    (auto simp: locks_ok_flush page_write_def emit_def, auto simp: locks_ok_def)

section \<open>Requests sent and confirmed\<close>

definition asks :: "mach_port_t \<Rightarrow> lock_range \<Rightarrow> mach_port_t \<Rightarrow> event \<Rightarrow> bool" where
  "asks port k c e \<longleftrightarrow> (case e of Lock_request c' off len _ _ _ reply \<Rightarrow>
     c' = c \<and> (off, len) = k \<and> reply = port | _ \<Rightarrow> False)"

definition requests_sent :: "pager \<Rightarrow> lock_range \<Rightarrow> mach_port_t \<Rightarrow> int" where
  "requests_sent s k c = int (length (filter (asks (port_right s) k c) (events s)))"

definition balance :: "pager \<Rightarrow> lock_range \<Rightarrow> mach_port_t \<Rightarrow> int" where
  "balance s k c = requests_sent s k c - count (client_lock s k c)"

definition balanced :: "pager \<Rightarrow> pager \<Rightarrow> bool" where
  "balanced s s' \<longleftrightarrow> port_right s' = port_right s \<and>
     (port_right s \<noteq> MACH_PORT_NULL \<longrightarrow> (\<forall>k c. balance s' k c = balance s k c))"

lemma harmless_asks: "harmless e \<Longrightarrow> port \<noteq> MACH_PORT_NULL \<Longrightarrow> \<not> asks port k c e"
  by (auto simp: harmless_def asks_def split: event.splits)

lemma balance_emit: "harmless e \<Longrightarrow> port_right s \<noteq> MACH_PORT_NULL \<Longrightarrow> balance (emit e s) k c = balance s k c"
  by (simp add: balance_def requests_sent_def harmless_asks)

lemma balance_flush: "balance (internal_flush_request c off s) k' c' = balance s k' c'"
proof -
  have lock: "client_lock (internal_flush_request c off s) k' c' =
      (if k' = (off, page_size s) \<and> c' = c then (client_lock s k' c')\<lparr>internal_lock_outstanding := True,
         count := count (client_lock s k' c') + 1\<rparr> else client_lock s k' c')"
    by (simp add: internal_flush_request_def Let_def)
  show ?thesis
    by (simp add: balance_def lock requests_sent_def flush_message_def asks_def)
qed

lemma balance_cong:
  "outstanding_locks s' = outstanding_locks s \<Longrightarrow> events s' = events s \<Longrightarrow> port_right s' = port_right s \<Longrightarrow>
     balance s' k c = balance s k c"
  using client_lock_cong [of s' s] by (simp add: balance_def requests_sent_def)

interpretation accounting: handler_relation balanced
  by unfold_locales (auto simp: balanced_def balance_emit balance_flush intro: balance_cong)

section \<open>Confirmations\<close>

text \<open>The table after a confirmation, before any lock it completes is acted on.\<close>

definition confirmed :: "lock_range \<Rightarrow> mach_port_t \<Rightarrow> pager \<Rightarrow> pager" where
  "confirmed k c s =
     (let r = client_lock s k c; rec = range_locks s k;
          rec = (if count r = 1 then omap_erase c rec
                    else omap_put c (r\<lparr>count := count r - 1\<rparr>) rec)
      in if rec = []
         then emit (Wake_lock_waiters k) (s\<lparr>outstanding_locks := omap_erase k (outstanding_locks s)\<rparr>)
         else s\<lparr>outstanding_locks := omap_put k rec (outstanding_locks s)\<rparr>)"

lemma lock_completed_cases:
  assumes "lock_completed U c off len s = Inr s'"
  obtains (counted) "0 < count (client_lock s (off, len) c)" "omap_get (off, len) (outstanding_locks s) \<noteq> None"
    "(if count (client_lock s (off, len) c) = 1 \<and> internal_lock_outstanding (client_lock s (off, len) c)
      then internal_lock_completed U c off len (confirmed (off, len) c s)
      else Inr (confirmed (off, len) c s)) = Inr s'"
proof -
  from assms obtain rec where r: "omap_get (off, len) (outstanding_locks s) = Some rec"
    by (auto simp: lock_completed_def split: option.splits)
  then have "range_locks s (off, len) = rec"
    "client_lock s (off, len) c = omap_at fresh_client_lock c rec"
    by (simp_all add: range_locks_def client_lock_def omap_at_def)
  with assms r counted show ?thesis
    by (simp add: lock_completed_def confirmed_def Let_def split: if_splits)
qed

lemma range_erase_count:
  assumes "omap_ok m"
  shows "count (omap_at fresh_client_lock c' (omap_erase c m)) =
    (if c' = c then 0 else count (omap_at fresh_client_lock c' m))"
  using assms by (simp add: omap_at_def omap_get_erase fresh_client_lock_def)

lemma locks_ok_rangeD: "locks_ok s \<Longrightarrow> omap_ok (range_locks s k) \<and> omap_ok (outstanding_locks s)"
  using locks_ok_range [of s k]
  by (cases "omap_get k (outstanding_locks s)") (simp_all add: range_locks_def omap_at_def range_ok_def locks_ok_def)

lemma client_lock_update:
  assumes "omap_ok (outstanding_locks s)"
  shows "client_lock (s\<lparr>outstanding_locks := omap_put k m (outstanding_locks s)\<rparr>) k' c =
      (if k' = k then omap_at fresh_client_lock c m else client_lock s k' c)"
    and "client_lock (s\<lparr>outstanding_locks := omap_erase k (outstanding_locks s)\<rparr>) k' c =
      (if k' = k then fresh_client_lock else client_lock s k' c)"
  using assms by (simp_all add: client_lock_def range_locks_def omap_at_def omap_get_put omap_get_erase)

lemma confirmed_count:
  assumes "locks_ok s"
  shows "count (client_lock (confirmed k c s) k' c') =
    count (client_lock s k' c') - (if k' = k \<and> c' = c then 1 else 0)"
proof -
  note ok = locks_ok_rangeD [OF assms, of k]
  let ?r = "client_lock s k c"
  define rec where "rec = (if count ?r = 1 then omap_erase c (range_locks s k)
     else omap_put c (?r\<lparr>count := count ?r - 1\<rparr>) (range_locks s k))"
  have m: "count (omap_at fresh_client_lock c' rec) =
      count (omap_at fresh_client_lock c' (range_locks s k)) - (if c' = c then 1 else 0)"
    using ok by (auto simp: rec_def range_erase_count client_lock_def) (simp_all add: omap_at_def omap_get_put)
  have c: "confirmed k c s = (if rec = []
      then emit (Wake_lock_waiters k) (s\<lparr>outstanding_locks := omap_erase k (outstanding_locks s)\<rparr>)
      else s\<lparr>outstanding_locks := omap_put k rec (outstanding_locks s)\<rparr>)"
    by (simp add: confirmed_def rec_def Let_def)
  show ?thesis
  proof (cases "rec = []")
    case True
    with m have "count (omap_at fresh_client_lock c' (range_locks s k)) - (if c' = c then 1 else 0) = 0"
      by (simp add: omap_at_def)
    with True ok show ?thesis
      by (auto simp: c client_lock_update) (simp_all add: client_lock_def split: if_splits)
  next
    case False
    with m ok show ?thesis by (auto simp: c client_lock_update) (simp_all add: client_lock_def)
  qed
qed

lemma confirmed_events:
  "port_right (confirmed k c s) = port_right s \<and>
   (events (confirmed k c s) = events s \<or> events (confirmed k c s) = events s @ [Wake_lock_waiters k])"
  by (simp add: confirmed_def Let_def)

lemma confirmed_balance:
  assumes "locks_ok s"
  shows "balance (confirmed k c s) k' c' = balance s k' c' + (if k' = k \<and> c' = c then 1 else 0)"
proof -
  have "requests_sent (confirmed k c s) k' c' = requests_sent s k' c'"
    using confirmed_events [of k c s] by (auto simp: requests_sent_def asks_def)
  then show ?thesis using confirmed_count [OF assms] by (simp add: balance_def)
qed

lemma range_ok_put:
  "omap_ok m \<Longrightarrow> \<forall>r \<in> snd ` set m. 0 < count r \<Longrightarrow> 0 < count r \<Longrightarrow> range_ok (omap_put c r m)"
  using set_omap_put [of c r m] by (auto simp: range_ok_def)

lemma range_ok_erase: "range_ok m \<Longrightarrow> omap_erase c m \<noteq> [] \<Longrightarrow> range_ok (omap_erase c m)"
  using set_omap_erase [of c m] by (fastforce simp: range_ok_def)

lemma confirmed_locks_ok:
  assumes "locks_ok s" and "0 < count (client_lock s k c)" and "omap_get k (outstanding_locks s) \<noteq> None"
  shows "locks_ok (confirmed k c s)"
proof -
  from assms(3) obtain m where m: "omap_get k (outstanding_locks s) = Some m" by blast
  then have "range_locks s k = m" by (simp add: range_locks_def omap_at_def)
  moreover have "range_ok m" using locks_ok_range [OF assms(1) m] .
  moreover have "locks_ok (emit e t) = locks_ok t" for e t by (simp add: locks_ok_def)
  ultimately show ?thesis
    using assms range_ok_erase [of m c] range_ok_put [of m "(client_lock s k c)\<lparr>count := count (client_lock s k c) - 1\<rparr>" c]
    by (auto simp: confirmed_def Let_def range_ok_def intro!: locks_ok_erase locks_ok_update)
qed

lemma lock_completed_accounting:
  assumes "lock_completed U c off len s = Inr s'" and "locks_ok s" and "port_right s \<noteq> MACH_PORT_NULL"
  shows "locks_ok s' \<and> port_right s' = port_right s \<and>
    balance s' k c' = balance s k c' + (if k = (off, len) \<and> c' = c then 1 else 0)"
  using assms(1)
proof (cases rule: lock_completed_cases)
  case counted
  let ?t = "confirmed (off, len) c s"
  have t: "locks_ok ?t" "port_right ?t = port_right s"
    using confirmed_locks_ok [OF assms(2) counted(1,2)] confirmed_events [of "(off, len)" c s] by simp_all
  have "locks_ok s' \<and> balanced ?t s'"
    using counted(3) t(1) lock_table.R_internal_lock_completed accounting.R_internal_lock_completed accounting.R_refl
    by (auto split: if_splits)
  with t assms(3) confirmed_balance [OF assms(2)] show ?thesis by (cases k) (simp add: balanced_def)
qed

section \<open>Runs\<close>

text \<open>The loss of a client leaves the accounts of the others alone.\<close>

definition same_account :: "mach_port_t \<Rightarrow> pager \<Rightarrow> pager \<Rightarrow> bool" where
  "same_account c s s' \<longleftrightarrow> locks_ok s' \<and> port_right s' = port_right s \<and> (\<forall>k. balance s' k c = balance s k c)"

lemma release_account:
  assumes "locks_ok s" and "omap_get k (outstanding_locks s) = Some locks" and "c \<noteq> c'"
  shows "same_account c s (release_client_locks c' k locks s)"
proof -
  let ?t = "release_client_locks c' k locks s"
  note ok = locks_ok_rangeD [OF assms(1), of k] and r = locks_ok_range [OF assms(1,2)]
  have locks: "range_locks s k = locks" using assms(2) by (simp add: range_locks_def omap_at_def)
  have "locks_ok (emit e t) = locks_ok t" for e t by (simp add: locks_ok_def)
  then have 1: "locks_ok ?t"
    using assms(1) r range_ok_erase [OF r]
    by (auto simp: release_client_locks_def Let_def intro: locks_ok_erase locks_ok_update)
  have erased: "count (omap_at fresh_client_lock c (omap_erase c' locks)) = count (client_lock s k c)"
    using ok assms(3) by (simp add: range_erase_count locks client_lock_def)
  have "count (client_lock ?t k' c) = count (client_lock s k' c)" for k'
  proof (cases "omap_erase c' locks = []")
    case True
    with erased have "count (client_lock s k c) = 0" by (simp add: omap_at_def fresh_client_lock_def)
    with True ok show ?thesis
      by (simp add: release_client_locks_def client_lock_update fresh_client_lock_def)
  next
    case False
    with erased ok show ?thesis by (simp add: release_client_locks_def client_lock_update)
  qed
  moreover have "requests_sent ?t k' c = requests_sent s k' c" for k'
    by (simp add: release_client_locks_def Let_def requests_sent_def asks_def)
  ultimately show ?thesis
    using 1 by (simp add: same_account_def balance_def release_client_locks_def Let_def)
qed

lemma balanced_account:
  "balanced s s' \<Longrightarrow> locks_ok s' \<Longrightarrow> port_right s \<noteq> MACH_PORT_NULL \<Longrightarrow> same_account c s s'"
  by (simp add: balanced_def same_account_def)

lemma same_account_trans: "same_account c s t \<Longrightarrow> same_account c t u \<Longrightarrow> same_account c s u"
  by (simp add: same_account_def)

lemma drop_client_locks_account:
  assumes "drop_client_locks U c' k s = Inr s'" and "locks_ok s" and "port_right s \<noteq> MACH_PORT_NULL" and "c \<noteq> c'"
  shows "same_account c s s'"
proof (rule drop_client_locks_invariant [where I = "same_account c s", OF assms(1)])
  show "same_account c s s" using assms(2) by (simp add: same_account_def)
next
  fix k t locks
  assume "same_account c s t" "omap_get k (outstanding_locks t) = Some locks"
  then show "same_account c s (release_client_locks c' k locks t)"
    using release_account [of t k locks c c'] assms(4) same_account_trans by (auto simp: same_account_def)
next
  fix off len t u
  assume t: "same_account c s t" and u: "internal_lock_completed U c' off len t = Inr u"
  then have "locks_ok u" "port_right t \<noteq> MACH_PORT_NULL"
    using lock_table.R_internal_lock_completed [OF u] assms(3) by (simp_all add: same_account_def)
  with accounting.R_internal_lock_completed [OF u] have "same_account c t u" by (intro balanced_account)
  with t show "same_account c s u" by (rule same_account_trans)
qed

lemma same_accountI:
  "locks_ok s \<Longrightarrow> outstanding_locks s' = outstanding_locks s \<Longrightarrow> port_right s' = port_right s \<Longrightarrow>
     (\<forall>k. requests_sent s' k c = requests_sent s k c) \<Longrightarrow> same_account c s s'"
  using locks_ok_cong [of s' s] client_lock_cong [of s' s] by (simp add: same_account_def balance_def)

lemma requests_sent_emit: "(\<And>port k. \<not> asks port k c e) \<Longrightarrow> requests_sent (emit e s) k c = requests_sent s k c"
  by (simp add: requests_sent_def)

lemma requests_sent_complete_changes: "requests_sent (complete_changes c' s) k c = requests_sent s k c"
  unfolding complete_changes_def
  by (rule fold_invariant_field) (simp add: requests_sent_emit asks_def)

lemma drop_client_account:
  assumes "drop_client U c' s = Inr s'" and "locks_ok s" and "port_right s \<noteq> MACH_PORT_NULL" and "c \<noteq> c'"
  shows "same_account c s s'"
proof -
  from assms(1) obtain t where t: "(case outstanding_locks s of [] \<Rightarrow> Inr s
       | (k, _) # _ \<Rightarrow> drop_client_locks U c' k s) = Inr t"
    and s': "s' = (emit (Request_dead_name c' MACH_PORT_NULL)
       (complete_changes c' (t\<lparr>pagemap := map (drop_client_page c') (pagemap t)\<rparr>)))\<lparr>clients :=
         oset_erase c' (clients t)\<rparr>"
    by (auto simp: drop_client_def Let_def)
  have "same_account c s t"
    using t assms drop_client_locks_account [of U c' _ s t c]
    by (auto simp: same_account_def split: list.splits)
  moreover have "requests_sent s' k c = requests_sent t k c" for k
  proof -
    have "requests_sent s' k c = requests_sent (complete_changes c' (t\<lparr>pagemap := map (drop_client_page c') (pagemap t)\<rparr>)) k c"
      by (simp add: s' requests_sent_def asks_def)
    also have "\<dots> = requests_sent t k c"
      unfolding requests_sent_complete_changes by (simp add: requests_sent_def)
    finally show ?thesis .
  qed
  then have "same_account c t s'"
    using calculation s' by (intro same_accountI) (simp_all add: same_account_def)
  ultimately show ?thesis by (rule same_account_trans)
qed

fun confirms :: "lock_range \<Rightarrow> mach_port_t \<Rightarrow> kernel_message \<Rightarrow> bool" where
  "confirms k c (Memory_object_lock_completed c' off len) \<longleftrightarrow> c' = c \<and> (off, len) = k"
| "confirms k c _ \<longleftrightarrow> False"

fun loses :: "mach_port_t \<Rightarrow> kernel_message \<Rightarrow> bool" where
  "loses c (Memory_object_terminate control name) \<longleftrightarrow> control = c"
| "loses c (Dead_name_notification name) \<longleftrightarrow> name = c"
| "loses c _ \<longleftrightarrow> False"

lemma balanced_result:
  "balanced s s' \<Longrightarrow> locks_ok s \<longrightarrow> locks_ok s' \<Longrightarrow> locks_ok s \<Longrightarrow> port_right s \<noteq> MACH_PORT_NULL \<Longrightarrow>
     locks_ok s' \<and> port_right s' = port_right s \<and> balance s' k c = balance s k c"
  by (cases k) (simp add: balanced_def)

lemma method_account:
  assumes "method_of U stack m s = Inr s'" and "locks_ok s" and "port_right s \<noteq> MACH_PORT_NULL" and "\<not> loses c m"
  shows "locks_ok s' \<and> port_right s' = port_right s \<and>
    balance s' k c = balance s k c + (if confirms k c m then 1 else 0)"
proof (cases m)
  case (Memory_object_init control name pagesize)
  then show ?thesis
    using assms by (auto simp: object_init_def Let_def balance_emit balance_def requests_sent_def asks_def
      locks_ok_def client_lock_def range_locks_def split: if_splits)
next
  case (Memory_object_lock_completed c' off len)
  then show ?thesis using lock_completed_accounting assms by auto
next
  case (Memory_object_terminate control name)
  with assms(1) obtain t where t: "drop_client U control s = Inr t"
    and s': "s' = emit (Port_destroy name) (emit (Port_destroy control) t)" by (auto simp: object_terminate_def)
  have "same_account c s t"
    using drop_client_account [OF t assms(2,3)] assms(4) Memory_object_terminate by auto
  then show ?thesis
    using s' Memory_object_terminate assms(3)
    by (cases k) (auto simp: same_account_def locks_ok_def balance_def requests_sent_def asks_def)
next
  case (Dead_name_notification name)
  with assms show ?thesis
    using drop_client_account [of U name s s' c] by (cases k) (auto simp: dead_name_def same_account_def)
next
  case (Memory_object_data_request c' off len access)
  with assms(1) have "data_request U c' off len access s = Inr s'" by simp
  then show ?thesis
    using balanced_result [OF accounting.R_data_request lock_table.R_data_request] assms(2,3)
      Memory_object_data_request by simp
next
  case (Memory_object_data_unlock c' off len access)
  with assms(1) have "data_unlock U c' off len access s = Inr s'" by simp
  then show ?thesis
    using balanced_result [OF accounting.R_data_unlock lock_table.R_data_unlock] assms(2,3)
      Memory_object_data_unlock by simp
next
  case (Memory_object_data_return c' off data len dirty kcopy)
  with assms(1) have "data_return U stack c' off data len dirty kcopy s = Inr s'" by simp
  then show ?thesis
    using balanced_result [OF accounting.R_data_return lock_table.R_data_return] assms(2,3)
      Memory_object_data_return by simp
qed (use assms in simp_all)

lemma serve_all_account:
  assumes "for_each (method_of U stack) ms s = Inr s'" and "locks_ok s" and "port_right s \<noteq> MACH_PORT_NULL"
    and "list_all (\<lambda>m. \<not> loses c m) ms"
  shows "locks_ok s' \<and> port_right s' = port_right s \<and>
    balance s' k c = balance s k c + int (length (filter (confirms k c) ms))"
  using assms
proof (induction ms arbitrary: s)
  case Nil
  then show ?case by simp
next
  case (Cons m ms)
  from Cons.prems(1) obtain t where t: "method_of U stack m s = Inr t" "for_each (method_of U stack) ms t = Inr s'"
    by auto
  have "locks_ok t \<and> port_right t = port_right s \<and>
      balance t k c = balance s k c + (if confirms k c m then 1 else 0)"
    using method_account [OF t(1) Cons.prems(2,3), of c k] Cons.prems(4) by simp
  with Cons.IH [OF t(2)] Cons.prems show ?case by simp
qed

end
