(* ===== verification/Pager_Shutdown.thy ===== *)
theory Pager_Shutdown
  imports Pager_Locks
begin

text \<open>
  A pager that is shutting down. Its handlers still take pages back and write them, but they send
  no page, no lock request and no error to a kernel. The events a handler adds are tracked by
  \<open>silent\<close>.
\<close>

definition grants :: "event \<Rightarrow> bool" where
  "grants e \<longleftrightarrow> (case e of Data_supply _ _ _ _ _ _ _ \<Rightarrow> True | Lock_request _ _ _ _ _ _ _ \<Rightarrow> True
     | Data_error _ _ _ _ \<Rightarrow> True | Object_ready _ _ _ \<Rightarrow> True | _ \<Rightarrow> False)"

text \<open>From one state to the next: still shutting down, and nothing granted.\<close>

definition silent :: "pager \<Rightarrow> pager \<Rightarrow> bool" where
  "silent s s' \<longleftrightarrow> terminating s' \<and> (\<exists>es. events s' = events s @ es \<and> list_all (\<lambda>e. \<not> grants e) es)"

lemma silent_refl: "terminating s \<Longrightarrow> silent s s"
  by (simp add: silent_def)

lemma silent_trans: "silent s t \<Longrightarrow> silent t u \<Longrightarrow> silent s u"
  by (fastforce simp: silent_def)

lemma silent_emit [intro!]: "silent s t \<Longrightarrow> \<not> grants e \<Longrightarrow> silent s (emit e t)"
  by (fastforce simp: silent_def)

lemma silent_simps [simp]:
  "silent s (page_write n d t) \<longleftrightarrow> silent s t" "silent s (t\<lparr>NEXTERROR := es\<rparr>) \<longleftrightarrow> silent s t"
  "silent s (t\<lparr>outstanding_locks := ls\<rparr>) \<longleftrightarrow> silent s t" "silent s (t\<lparr>pagemap := ps\<rparr>) \<longleftrightarrow> silent s t"
  "silent s (t\<lparr>clients := cs\<rparr>) \<longleftrightarrow> silent s t" "silent s (t\<lparr>WRITEWAIT := ws\<rparr>) \<longleftrightarrow> silent s t"
  "silent s (drop_errors_of_page n t) \<longleftrightarrow> silent s t"
  by (simp_all add: silent_def drop_errors_of_page_def)

lemma silentD: "silent s t \<Longrightarrow> terminating t"
  by (simp add: silent_def)

lemma grants_simps [simp]:
  "\<not> grants (Write_page off data)" "\<not> grants (Notify_evict off)" "\<not> grants (Munmap data len)"
  "\<not> grants Wake_write_waiters" "\<not> grants (Wake_lock_waiters k)" "\<not> grants (Change_completed r)"
  "\<not> grants (Request_dead_name c r)" "\<not> grants (Port_destroy c)"
  by (simp_all add: grants_def)

section \<open>Pages that come back\<close>

lemma silent_return_scan_page:
  assumes "return_scan_page stack c DATA dirty kcopy i n s = Inr (s', fl)" and "terminating s"
  shows "silent s s' \<and> \<not> do_unlock fl"
  using assms(1)
proof (cases rule: return_scan_page_cases)
  case (served t e)
  then show ?thesis using assms(2) by (simp add: service_WAITLIST_terminating silent_refl)
next
  case unlock
  then show ?thesis using assms(2) by (simp add: unlock_possible_def)
qed (use assms(2) in \<open>simp_all add: silent_refl\<close>)

lemma silent_return_scan:
  assumes "return_scan stack c DATA dirty kcopy xs s = Inr (s', fls)" and "terminating s"
  shows "silent s s' \<and> list_all (\<lambda>fl. \<not> do_unlock fl) fls"
  using assms
proof (induction xs arbitrary: s fls)
  case Nil
  then show ?case by (simp add: silent_refl)
next
  case (Cons x xs)
  obtain i n where x: "x = (i, n)" by force
  from Cons.prems(1) obtain t fl fls' where 1: "return_scan_page stack c DATA dirty kcopy i n s = Inr (t, fl)"
    and 2: "return_scan stack c DATA dirty kcopy xs t = Inr (s', fls')" and "fls = fl # fls'" by (auto simp: x)
  with silent_return_scan_page [OF 1 Cons.prems(2)] Cons.IH [OF 2] show ?case
    by (auto dest: silentD intro: silent_trans)
qed

lemma silent_return_upcalls:
  assumes "return_upcalls U xs s = (s', errs)" and "terminating s" and "list_all (\<lambda>(n, fl). \<not> do_unlock fl) xs"
  shows "silent s s' \<and> list_all (\<lambda>e. e = None) errs"
  using assms
proof (induction xs arbitrary: s errs)
  case Nil
  then show ?case by (auto simp: silent_refl)
next
  case (Cons x xs)
  obtain n fl where x: "x = (n, fl)" by force
  define t where "t = (if do_notify fl then emit (Notify_evict (offset_of s n)) s else s)"
  have t: "silent s t" using Cons.prems(2) by (auto simp: t_def silent_refl)
  obtain errs' where "return_upcalls U xs t = (s', errs')" and "errs = None # errs'"
    using Cons.prems by (auto simp: x t_def Let_def split: prod.splits)
  with Cons.IH [of t errs'] t Cons.prems(3) show ?case by (auto dest: silentD intro: silent_trans)
qed

lemma unlock_finish_none: "list_all (\<lambda>e. e = None) errs \<Longrightarrow> unlock_finish (zip ns errs) s = Inr s"
proof (induction ns arbitrary: errs)
  case Nil
  then show ?case by simp
next
  case (Cons n ns)
  then show ?case by (cases errs) auto
qed

lemma silent_data_return_pages:
  assumes "data_return_pages U stack c off DATA len dirty kcopy s = Inr s'" and "terminating s"
  shows "silent s s'"
  using assms(1)
proof (cases rule: data_return_pages_cases)
  case (plain fls)
  with silent_return_scan assms(2) show ?thesis by blast
next
  case (upcalls s1 fls s2 errs)
  note 1 = silent_return_scan [OF upcalls(3) assms(2)]
  have "list_all (\<lambda>(n, fl). \<not> do_unlock fl) (zip (page_range s off len) fls)"
    using 1 by (auto simp: list_all_iff dest!: set_zip_rightD)
  with silent_return_upcalls [OF upcalls(4)] 1 have 2: "silent s1 s2 \<and> list_all (\<lambda>e. e = None) errs"
    by (auto dest: silentD)
  with upcalls(5) have "s' = s2" by (simp add: unlock_finish_none)
  with 1 2 show ?thesis by (auto intro: silent_trans)
qed

lemma silent_write_upcalls:
  "write_upcalls U DATA xs s = (s', errs) \<Longrightarrow> terminating s \<Longrightarrow> silent s s'"
proof (induction xs arbitrary: s errs)
  case Nil
  then show ?case by (auto simp: silent_refl)
next
  case (Cons x xs)
  obtain i n b where x: "x = (i, n, b)" by (cases x) auto
  define t where "t = (if b then emit (Write_page (offset_of s n) (data_at s DATA i)) s else s)"
  have "silent s t" using Cons.prems(2) by (auto simp: t_def silent_refl)
  moreover obtain errs' where "write_upcalls U DATA xs t = (s', errs')"
    using Cons.prems by (cases b) (auto simp: x t_def Let_def split: prod.splits)
  ultimately show ?case using Cons.IH by (auto dest: silentD intro: silent_trans)
qed

lemma silent_finish_write_page:
  "finish_write_page current i n err s = Inr (s', b) \<Longrightarrow> terminating s \<Longrightarrow> silent s s'"
  by (auto simp: finish_write_page_def Let_def service_WAITLIST_terminating silent_refl
    split: option.splits if_splits)

lemma silent_finish_writes:
  "finish_writes current xs s = Inr (s', bs) \<Longrightarrow> terminating s \<Longrightarrow> silent s s'"
proof (induction xs arbitrary: s bs)
  case Nil
  then show ?case by (simp add: silent_refl)
next
  case (Cons x xs)
  obtain i n e where x: "x = (i, n, e)" by (cases x) auto
  with Cons.prems(1) obtain t b bs' where 1: "finish_write_page current i n e s = Inr (t, b)"
    and 2: "finish_writes current xs t = Inr (s', bs')" by auto
  with silent_finish_write_page [OF 1 Cons.prems(2)] Cons.IH [OF 2] show ?case
    by (auto dest: silentD intro: silent_trans)
qed

lemma silent_notify_upcalls: "silent t s \<Longrightarrow> silent t (notify_upcalls xs s)"
proof (induction xs s rule: notify_upcalls.induct)
  case (2 n do_notify rest s)
  have "silent t (if do_notify then emit (Notify_evict (offset_of s n)) s else s)" using 2(2) by auto
  with 2(1) show ?case by simp
qed simp

lemma silent_service_first:
  assumes "service_first_WRITEWAIT_entry U s = Inr s'" and "terminating s"
  shows "silent s s'"
  using assms(1)
proof (cases rule: service_first_WRITEWAIT_entry_cases)
  case (1 current rest s1 errs s2 bs s3)
  have s1: "silent s s1" using silent_write_upcalls [OF 1(2) assms(2)] .
  have "silent s1 s2" using silent_finish_writes [OF 1(3)] silentD [OF s1] by simp
  with s1 have "silent s s3" using 1(4) by (auto intro: silent_trans)
  then show ?thesis
    using 1(5) by (auto simp: pop_WRITEWAIT_def intro: silent_notify_upcalls)
qed

lemma silent_drain: "drain_WRITEWAIT U s = Inr s' \<Longrightarrow> terminating s \<Longrightarrow> silent s s'"
proof (induction U s rule: drain_WRITEWAIT.induct)
  case (1 U s)
  show ?case
  proof (cases "WRITEWAIT s = []")
    case True
    with 1 show ?thesis by (simp add: drain_WRITEWAIT.simps [of U s] silent_refl)
  next
    case False
    with 1(2) obtain t where t: "service_first_WRITEWAIT_entry U s = Inr t" "drain_WRITEWAIT U t = Inr s'"
      by (auto simp: drain_WRITEWAIT.simps [of U s])
    with silent_service_first [OF t(1) 1(3)] 1(1) [OF False t] show ?thesis
      by (auto dest: silentD intro: silent_trans)
  qed
qed

lemma silent_data_return:
  assumes "data_return U stack c off DATA len dirty kcopy s = Inr s'" and "terminating s"
  shows "silent s s'"
proof -
  from assms(1) obtain t where t: "data_return_pages U stack c off DATA len dirty kcopy s = Inr t"
    and s': "(if dirty then if WRITEWAIT t \<noteq> [] then Inr (queue_write off DATA len kcopy t)
         else drain_WRITEWAIT U (queue_write off DATA len kcopy t)
       else Inr (emit (Munmap DATA len) t)) = Inr s'" by (auto simp: data_return_def)
  note 1 = silent_data_return_pages [OF t assms(2)]
  then have q: "silent s (queue_write off DATA len kcopy t)" by (simp add: queue_write_def)
  show ?thesis
  proof (cases "dirty \<and> WRITEWAIT t = []")
    case True
    with s' silent_drain [of U "queue_write off DATA len kcopy t" s'] silentD [OF q] have
      "silent (queue_write off DATA len kcopy t) s'" by simp
    with q show ?thesis by (rule silent_trans)
  next
    case False
    with s' 1 q show ?thesis by (auto split: if_splits)
  qed
qed

section \<open>The other handlers\<close>

lemma silent_internal_lock_completed:
  "internal_lock_completed U c off len s = Inr s' \<Longrightarrow> terminating s \<Longrightarrow> silent s s'"
  by (auto simp: internal_lock_completed_def silent_refl split: if_splits)

lemma silent_lock_completed:
  assumes "lock_completed U c off len s = Inr s'" and "terminating s"
  shows "silent s s'"
  using assms(1)
proof (cases rule: lock_completed_cases)
  case counted
  have "silent s (confirmed (off, len) c s)"
    using assms(2) by (auto simp: confirmed_def Let_def silent_refl)
  with counted(3) show ?thesis
    by (auto split: if_splits dest: silentD silent_internal_lock_completed intro: silent_trans)
qed

lemma silent_drop_client:
  assumes "drop_client U c s = Inr s'" and "terminating s"
  shows "silent s s'"
proof -
  from assms(1) obtain t where t: "(case outstanding_locks s of [] \<Rightarrow> Inr s
       | (k, _) # _ \<Rightarrow> drop_client_locks U c k s) = Inr t"
    and s': "s' = (emit (Request_dead_name c MACH_PORT_NULL)
       (complete_changes c (t\<lparr>pagemap := map (drop_client_page c) (pagemap t)\<rparr>)))\<lparr>clients :=
         oset_erase c (clients t)\<rparr>"
    by (auto simp: drop_client_def Let_def)
  have "silent s t' " if "drop_client_locks U c k s = Inr t'" for k t'
    by (rule drop_client_locks_invariant [where I = "silent s", OF that])
      (auto simp: assms(2) silent_refl release_client_locks_def Let_def
        dest: silentD silent_internal_lock_completed intro: silent_trans)
  then have "silent s t" using t assms(2) by (auto simp: silent_refl split: list.splits)
  moreover have "silent s (complete_changes c u)" if "silent s u" for u
    unfolding complete_changes_def using that
    by (rule fold_invariant [where Q = "\<lambda>_. True", rotated]) auto
  ultimately show ?thesis by (auto simp: s')
qed

lemma silent_method:
  assumes "method_of U stack m s = Inr s'" and "terminating s"
  shows "silent s s'"
proof (cases m)
  case (Memory_object_data_request c off len access)
  with assms show ?thesis
    by (auto simp: data_request_def data_request_locked_def silent_refl split: if_splits)
next
  case (Memory_object_data_unlock c off len access)
  with assms show ?thesis by (auto simp: data_unlock_def silent_refl split: if_splits)
next
  case (Memory_object_terminate control name)
  with assms show ?thesis by (auto simp: object_terminate_def dest: silent_drop_client)
next
  case (Dead_name_notification name)
  with assms show ?thesis by (auto simp: dead_name_def dest: silent_drop_client)
qed (use assms in \<open>auto simp: object_init_def silent_refl split: if_splits
    intro: silent_data_return silent_lock_completed\<close>)

lemma silent_run:
  assumes "for_each (method_of U stack) ms s = Inr s'" and "terminating s"
  shows "silent s s'"
  by (rule for_each_invariant [where I = "silent s", OF _ _ assms(1)])
    (auto simp: assms(2) silent_refl dest: silent_method silentD intro: silent_trans)

end
