(* ===== verification/Pager_Threads.thy ===== *)
theory Pager_Threads
  imports Pager_Shutdown
begin

text \<open>
  The handlers of kernel messages cut at the points where they release the pager's lock. A
  \<open>task\<close> is what the worker thread still has to do: a critical section, or one call of a function
  of the file system, which is made without the lock. \<open>exec\<close> performs the first task and says which
  tasks replace it; \<open>holds_lock\<close> tells the tasks that go on in a critical section that has begun.

  \<open>alone\<close> runs the tasks of a handler without interruption. It is shown to be the handler as a
  whole (\<open>meaning\<close>), so that \<open>method_of\<close> and the handlers it calls are what the code does when
  nobody interferes. \<open>Pager_Interleaving\<close> lets other threads run in between.
\<close>

section \<open>Tasks\<close>

datatype task =
    Read_call vm_offset_t
  | Supply vm_offset_t kern_return_t vm_address_t bool
  | Lock_done mach_port_t vm_offset_t vm_size_t
  | Lock_done_calls "(nat \<times> page_operation) list" "(nat \<times> upcall_result) list"
  | Lock_done_finish "(nat \<times> upcall_result) list"
  | Unlock_calls "(nat \<times> bool) list" "(nat \<times> kern_return_t option) list"
  | Return_calls "(nat \<times> return_flags) list" "(nat \<times> kern_return_t option) list"
  | Unlock_finish "(nat \<times> kern_return_t option) list"
  | Queue_write vm_offset_t vm_address_t vm_size_t bool bool
  | Drain
  | Write_calls WRITEWAIT_entry "(nat \<times> nat \<times> bool) list" "(nat \<times> nat \<times> kern_return_t option) list"
  | Write_finish bool WRITEWAIT_entry "(nat \<times> nat \<times> kern_return_t option) list"
  | Notify_calls "(nat \<times> bool) list"
  | Pop bool
  | Drop_locks mach_port_t lock_range
  | Drop_pages mach_port_t
  | Destroy_ports mach_port_t mach_port_t

fun holds_lock :: "task \<Rightarrow> bool" where
  "holds_lock (Lock_done _ _ _) = True"
| "holds_lock (Queue_write _ _ _ _ _) = True"
| "holds_lock Drain = True"
| "holds_lock (Write_finish held _ _) = held"
| "holds_lock (Pop held) = held"
| "holds_lock (Drop_locks _ _) = True"
| "holds_lock (Drop_pages _) = True"
| "holds_lock (Destroy_ports _ _) = True"
| "holds_lock _ = False"

text \<open>\<^verbatim>\<open>lock_completed\<close> up to the call of \<^verbatim>\<open>internal_lock_completed\<close>, and whether it makes that call.\<close>

definition lock_completed_locked ::
    "mach_port_t \<Rightarrow> vm_offset_t \<Rightarrow> vm_size_t \<Rightarrow> pager \<Rightarrow> (pager \<times> bool) result" where
  "lock_completed_locked MEMORY_CONTROL OFFSET LEN s =
     (let r = client_lock s (OFFSET, LEN) MEMORY_CONTROL in
      if omap_get (OFFSET, LEN) (outstanding_locks s) = None then Inl (Assert_failed ''it != outstanding_locks.end()'')
      else if \<not> 0 < count r then Inl (Assert_failed ''record.locks[MEMORY_CONTROL].count > 0'')
      else Inr (confirmed (OFFSET, LEN) MEMORY_CONTROL s, count r = 1 \<and> internal_lock_outstanding r))"

text \<open>What \<^verbatim>\<open>drop_client\<close> does after its loop over the locks.\<close>

definition drop_client_pages :: "mach_port_t \<Rightarrow> pager \<Rightarrow> pager" where
  "drop_client_pages control s =
     (let s = s\<lparr>pagemap := map (drop_client_page control) (pagemap s)\<rparr>;
          s = complete_changes control s;
          s = emit (Request_dead_name control MACH_PORT_NULL) s
      in s\<lparr>clients := oset_erase control (clients s)\<rparr>)"

definition drop_tasks :: "mach_port_t \<Rightarrow> pager \<Rightarrow> task list" where
  "drop_tasks control s =
     (case outstanding_locks s of [] \<Rightarrow> [] | (k, _) # _ \<Rightarrow> [Drop_locks control k]) @ [Drop_pages control]"

text \<open>The first critical section of a handler.\<close>

fun start :: "(nat \<Rightarrow> bool) \<Rightarrow> kernel_message \<Rightarrow> pager \<Rightarrow> (pager \<times> task list) result" where
  "start stack (Memory_object_init control name pagesize) s =
     andThen (object_init control name pagesize s) (\<lambda>s. Inr (s, []))"
| "start stack (Memory_object_data_request c off len access) s =
     andThen (data_request_locked c off len access s) (\<lambda>(s, next).
       Inr (s, case next of Request_done \<Rightarrow> [] | Request_flushed \<Rightarrow> [Lock_done c off (page_size s)]
               | Request_page_in \<Rightarrow> [Read_call off]))"
| "start stack (Memory_object_data_unlock c off len access) s =
     (if len mod page_size s \<noteq> 0 then Inl (Assert_failed ''LENGTH % page_size == 0'')
      else if off mod page_size s \<noteq> 0 then Inl (Assert_failed ''OFFSET % page_size == 0'')
      else if terminating s then Inr (s, [])
      else let ns = page_range s off len
        in andThen (unlock_scan c off ns s) (\<lambda>(s, do_unlock). Inr (s, [Unlock_calls (zip ns do_unlock) []])))"
| "start stack (Memory_object_data_return c off data len dirty kcopy) s =
     (if len mod page_size s \<noteq> 0 then Inl (Assert_failed ''LENGTH % page_size == 0'')
      else if off mod page_size s \<noteq> 0 then Inl (Assert_failed ''OFFSET % page_size == 0'')
      else let ns = page_range s off len
        in andThen (return_scan stack c data dirty kcopy (zip [0 ..< length ns] ns) s) (\<lambda>(s, fls).
             if list_ex required fls then
               if dirty then Inl (Assert_failed ''!DIRTY'')
               else Inr (s, [Return_calls (zip ns fls) [], Queue_write off data len dirty kcopy])
             else Inr (s, [Queue_write off data len dirty kcopy])))"
| "start stack (Memory_object_lock_completed c off len) s =
     andThen (lock_completed_locked c off len s) (\<lambda>(s, internal_lock_required).
       Inr (s, if internal_lock_required then [Lock_done c off len] else []))"
| "start stack (Memory_object_terminate control name) s = Inr (s, drop_tasks control s @ [Destroy_ports control name])"
| "start stack (Dead_name_notification name) s = Inr (s, drop_tasks name s)"
| "start stack _ s = Inr (s, [])"

fun exec :: "user_pager \<Rightarrow> task \<Rightarrow> pager \<Rightarrow> (pager \<times> task list) result" where
  "exec U (Read_call off) s =
     (let (err, buffer, write_lock) = pager_read_page U (events s) off
      in Inr (emit (Read_page off) s, [Supply off err buffer write_lock]))"
| "exec U (Supply off err buffer write_lock) s =
     andThen (data_request_supply off err buffer write_lock s) (\<lambda>s. Inr (s, []))"
| "exec U (Lock_done c off len) s =
     (if len mod page_size s \<noteq> 0 then Inl (Assert_failed ''LENGTH % page_size == 0'')
      else if off mod page_size s \<noteq> 0 then Inl (Assert_failed ''OFFSET % page_size == 0'')
      else if terminating s then Inr (s, [])
      else let ns = page_range s off len
        in andThen (ilc_scan c ns s) (\<lambda>(s, ops). Inr (s, [Lock_done_calls (zip ns ops) []])))"
| "exec U (Lock_done_calls [] finished) s = Inr (s, [Lock_done_finish finished])"
| "exec U (Lock_done_calls (x # todo) finished) s =
     (let (s, rs) = ilc_upcalls U [x] s in Inr (s, [Lock_done_calls todo (finished @ [(fst x, hd rs)])]))"
| "exec U (Lock_done_finish xs) s = andThen (ilc_finish xs s) (\<lambda>s. Inr (s, []))"
| "exec U (Unlock_calls [] finished) s = Inr (s, [Unlock_finish finished])"
| "exec U (Unlock_calls (x # todo) finished) s =
     (let (s, rs) = unlock_upcalls U [x] s in Inr (s, [Unlock_calls todo (finished @ [(fst x, hd rs)])]))"
| "exec U (Return_calls [] finished) s = Inr (s, [Unlock_finish finished])"
| "exec U (Return_calls (x # todo) finished) s =
     (let (s, rs) = return_upcalls U [x] s in Inr (s, [Return_calls todo (finished @ [(fst x, hd rs)])]))"
| "exec U (Unlock_finish xs) s = andThen (unlock_finish xs s) (\<lambda>s. Inr (s, []))"
| "exec U (Queue_write off data len dirty kcopy) s =
     (if dirty then
        if WRITEWAIT s \<noteq> [] then Inr (queue_write off data len kcopy s, [])
        else Inr (queue_write off data len kcopy s, [Drain])
      else Inr (emit (Munmap data len) s, []))"
| "exec U Drain s =
     (case WRITEWAIT s of [] \<Rightarrow> Inr (s, [])
      | current # _ \<Rightarrow>
          let ns = page_range s (ww_OFFSET current) (ww_LENGTH current);
              is = [0 ..< length ns];
              do_pageout = pageout_flags s ns
          in if list_ex (\<lambda>b. b) do_pageout
             then Inr (s, [Write_calls current (zip is (zip ns do_pageout)) []])
             else Inr (s, [Write_finish True current (zip is (zip ns (map (\<lambda>_. None) ns)))]))"
| "exec U (Write_calls current [] finished) s = Inr (s, [Write_finish False current finished])"
| "exec U (Write_calls current (x # todo) finished) s =
     (let (s, rs) = write_upcalls U (ww_DATA current) [x] s
      in Inr (s, [Write_calls current todo (finished @ [(fst x, fst (snd x), hd rs)])]))"
| "exec U (Write_finish held current xs) s =
     andThen (finish_writes current xs s) (\<lambda>(s, do_notify).
       let s = emit (Munmap (ww_DATA current) (ww_LENGTH current)) s
       in Inr (s, if notify_on_evict s \<and> list_ex (\<lambda>b. b) do_notify
                  then [Notify_calls (zip (entry_pages xs) do_notify), Pop False] else [Pop True]))"
| "exec U (Notify_calls []) s = Inr (s, [])"
| "exec U (Notify_calls (x # todo)) s = Inr (notify_upcalls [x] s, [Notify_calls todo])"
| "exec U (Pop held) s = Inr (pop_WRITEWAIT s, [Drain])"
| "exec U (Drop_locks c k) s =
     (case omap_get k (outstanding_locks s) of None \<Rightarrow> Inr (s, [])
      | Some locks \<Rightarrow>
          let internal_lock_required =
                (case omap_get c locks of None \<Rightarrow> False | Some r \<Rightarrow> internal_lock_outstanding r);
              it = next_key k (outstanding_locks s)
          in Inr (release_client_locks c k locks s,
               (if internal_lock_required then [Lock_done c (fst k) (snd k)] else []) @
               (case it of None \<Rightarrow> [] | Some k' \<Rightarrow> [Drop_locks c k'])))"
| "exec U (Drop_pages c) s = Inr (drop_client_pages c s, [])"
| "exec U (Destroy_ports control name) s = Inr (emit (Port_destroy name) (emit (Port_destroy control) s), [])"

section \<open>The handler as a whole\<close>

definition write_end ::
    "user_pager \<Rightarrow> WRITEWAIT_entry \<Rightarrow> (nat \<times> nat \<times> kern_return_t option) list \<Rightarrow> pager \<Rightarrow> pager result" where
  "write_end U current xs s =
     andThen (finish_writes current xs s) (\<lambda>(s, do_notify).
       let s = emit (Munmap (ww_DATA current) (ww_LENGTH current)) s;
           s = (if notify_on_evict s \<and> list_ex (\<lambda>b. b) do_notify
                then notify_upcalls (zip (entry_pages xs) do_notify) s else s)
       in drain_WRITEWAIT U (pop_WRITEWAIT s))"

text \<open>What is left of the handler when a task comes up.\<close>

fun meaning :: "user_pager \<Rightarrow> task \<Rightarrow> pager \<Rightarrow> pager result" where
  "meaning U (Read_call off) s =
     (let (err, buffer, write_lock) = pager_read_page U (events s) off
      in data_request_supply off err buffer write_lock (emit (Read_page off) s))"
| "meaning U (Supply off err buffer write_lock) s = data_request_supply off err buffer write_lock s"
| "meaning U (Lock_done c off len) s = internal_lock_completed U c off len s"
| "meaning U (Lock_done_calls todo finished) s =
     (let (s, rs) = ilc_upcalls U todo s in ilc_finish (finished @ zip (map fst todo) rs) s)"
| "meaning U (Lock_done_finish xs) s = ilc_finish xs s"
| "meaning U (Unlock_calls todo finished) s =
     (let (s, rs) = unlock_upcalls U todo s in unlock_finish (finished @ zip (map fst todo) rs) s)"
| "meaning U (Return_calls todo finished) s =
     (let (s, rs) = return_upcalls U todo s in unlock_finish (finished @ zip (map fst todo) rs) s)"
| "meaning U (Unlock_finish xs) s = unlock_finish xs s"
| "meaning U (Queue_write off data len dirty kcopy) s =
     (if dirty then
        if WRITEWAIT s \<noteq> [] then Inr (queue_write off data len kcopy s)
        else drain_WRITEWAIT U (queue_write off data len kcopy s)
      else Inr (emit (Munmap data len) s))"
| "meaning U Drain s = drain_WRITEWAIT U s"
| "meaning U (Write_calls current todo finished) s =
     (let (s, rs) = write_upcalls U (ww_DATA current) todo s
      in write_end U current (finished @ zip (map fst todo) (zip (map (fst \<circ> snd) todo) rs)) s)"
| "meaning U (Write_finish held current xs) s = write_end U current xs s"
| "meaning U (Notify_calls todo) s = Inr (notify_upcalls todo s)"
| "meaning U (Pop held) s = drain_WRITEWAIT U (pop_WRITEWAIT s)"
| "meaning U (Drop_locks c k) s = drop_client_locks U c k s"
| "meaning U (Drop_pages c) s = Inr (drop_client_pages c s)"
| "meaning U (Destroy_ports control name) s = Inr (emit (Port_destroy name) (emit (Port_destroy control) s))"

abbreviation meanings :: "user_pager \<Rightarrow> task list \<Rightarrow> pager \<Rightarrow> pager result" where
  "meanings U ts s \<equiv> for_each (meaning U) ts s"

section \<open>The tasks of a handler make up the handler\<close>

lemma ilc_upcalls_split:
  "ilc_upcalls U (x # xs) s = (let (s1, rs1) = ilc_upcalls U [x] s; (s2, rs2) = ilc_upcalls U xs s1 in (s2, hd rs1 # rs2))"
  by (cases x; cases "snd x") (auto simp: Let_def split: prod.split)

lemma unlock_upcalls_split:
  "unlock_upcalls U (x # xs) s = (let (s1, rs1) = unlock_upcalls U [x] s; (s2, rs2) = unlock_upcalls U xs s1 in (s2, hd rs1 # rs2))"
  by (cases x) (auto simp: Let_def split: prod.split)

lemma return_upcalls_split:
  "return_upcalls U (x # xs) s = (let (s1, rs1) = return_upcalls U [x] s; (s2, rs2) = return_upcalls U xs s1 in (s2, hd rs1 # rs2))"
  by (cases x) (auto simp: Let_def split: prod.split)

lemma write_upcalls_split:
  "write_upcalls U d (x # xs) s = (let (s1, rs1) = write_upcalls U d [x] s; (s2, rs2) = write_upcalls U d xs s1 in (s2, hd rs1 # rs2))"
  by (cases x) (auto simp: Let_def split: prod.split)

lemma notify_upcalls_split: "notify_upcalls (x # xs) s = notify_upcalls xs (notify_upcalls [x] s)"
  by (cases x) simp

lemma andThen_Inr [simp]: "andThen r Inr = r"
  by (cases r) simp_all

lemma for_each_Nil_fun [simp]: "for_each f [] = Inr"
  by (rule ext) simp

lemma for_each_single_fun [simp]: "for_each f [x] = f x"
  by (rule ext) simp

lemma zip_fst_zip: "length rs = length (zip ns xs) \<Longrightarrow> zip (map fst (zip ns xs)) rs = zip ns rs"
proof (induction ns arbitrary: xs rs)
  case (Cons n ns)
  then show ?case by (cases xs; cases rs) auto
qed simp

lemma lock_completed_split:
  "lock_completed U c off len s = andThen (lock_completed_locked c off len s) (\<lambda>(s, required).
     if required then internal_lock_completed U c off len s else Inr s)"
  by (auto simp: lock_completed_def lock_completed_locked_def confirmed_def Let_def client_lock_def range_locks_def
    omap_at_def split: option.split)

lemma drop_client_split:
  "drop_client U c s = andThen (for_each (meaning U) (drop_tasks c s) s) Inr"
  by (auto simp: drop_client_def drop_tasks_def drop_client_pages_def Let_def split: list.split intro!: andThen_eqI)

lemma calls_then_finish:
  "meaning U (Lock_done_calls (zip ns ops) []) s = (let (s, rs) = ilc_upcalls U (zip ns ops) s in ilc_finish (zip ns rs) s)"
  "meaning U (Unlock_calls (zip ns bs) []) s = (let (s, rs) = unlock_upcalls U (zip ns bs) s in unlock_finish (zip ns rs) s)"
  "meaning U (Return_calls (zip ns fls) []) s = (let (s, rs) = return_upcalls U (zip ns fls) s in unlock_finish (zip ns rs) s)"
proof -
  obtain t rs where "ilc_upcalls U (zip ns ops) s = (t, rs)" by force
  with ilc_upcalls_same [OF this]
  show "meaning U (Lock_done_calls (zip ns ops) []) s = (let (s, rs) = ilc_upcalls U (zip ns ops) s in ilc_finish (zip ns rs) s)"
    by (simp add: zip_fst_zip)
next
  obtain t rs where "unlock_upcalls U (zip ns bs) s = (t, rs)" by force
  with unlock_upcalls_same [OF this]
  show "meaning U (Unlock_calls (zip ns bs) []) s = (let (s, rs) = unlock_upcalls U (zip ns bs) s in unlock_finish (zip ns rs) s)"
    by (simp add: zip_fst_zip)
next
  obtain t rs where r: "return_upcalls U (zip ns fls) s = (t, rs)" by force
  then have "map (\<lambda>e. e \<noteq> None) rs = map (\<lambda>(n, fl). do_unlock fl) (zip ns fls)" using return_upcalls_same by blast
  then have "length rs = length (zip ns fls)" by (metis length_map)
  with r show "meaning U (Return_calls (zip ns fls) []) s = (let (s, rs) = return_upcalls U (zip ns fls) s in unlock_finish (zip ns rs) s)"
    by (simp add: zip_fst_zip)
qed

lemma start_meaning: "method_of U stack m s = andThen (start stack m s) (\<lambda>(s', ts). meanings U ts s')"
proof (cases m)
  case (Memory_object_data_request c off len access)
  then show ?thesis
    by (auto simp: data_request_def andThen_assoc split: after_request.split prod.split intro!: andThen_eqI)
next
  case (Memory_object_data_unlock c off len access)
  then show ?thesis
    by (simp add: data_unlock_def andThen_assoc Let_def case_prod_beta' calls_then_finish del: meaning.simps)
next
  case (Memory_object_data_return c off data len dirty kcopy)
  have q: "(if dirty then if WRITEWAIT s \<noteq> [] then Inr (queue_write off data len kcopy s)
         else drain_WRITEWAIT U (queue_write off data len kcopy s)
       else Inr (emit (Munmap data len) s)) = meaning U (Queue_write off data len dirty kcopy) s" for s by simp
  show ?thesis
    unfolding Memory_object_data_return method_of.simps start.simps data_return_def data_return_pages_def q
    by (auto simp: andThen_assoc Let_def calls_then_finish split: prod.split intro!: andThen_eqI simp del: meaning.simps)
next
  case (Memory_object_lock_completed c off len)
  then show ?thesis by (auto simp: lock_completed_split andThen_assoc split: prod.split intro!: andThen_eqI)
next
  case (Memory_object_terminate control name)
  then show ?thesis by (simp add: object_terminate_def drop_client_split for_each_append)
next
  case (Dead_name_notification name)
  then show ?thesis by (simp add: dead_name_def drop_client_split)
qed (simp_all add: andThen_assoc)

lemma service_first_split:
  assumes "WRITEWAIT s = current # rest"
  shows "drain_WRITEWAIT U s = (let ns = page_range s (ww_OFFSET current) (ww_LENGTH current);
      (s, errs) = write_upcalls U (ww_DATA current) (zip [0 ..< length ns] (zip ns (pageout_flags s ns))) s
    in write_end U current (zip [0 ..< length ns] (zip ns errs)) s)"
proof -
  let ?ns = "page_range s (ww_OFFSET current) (ww_LENGTH current)"
  obtain t errs where u: "write_upcalls U (ww_DATA current) (zip [0 ..< length ?ns] (zip ?ns (pageout_flags s ?ns))) s = (t, errs)"
    by force
  have "length errs = length ?ns" using write_upcalls_same [OF u] by (simp add: pageout_flags_def)
  with assms u show ?thesis
    by (subst drain_WRITEWAIT.simps)
      (auto simp: service_first_WRITEWAIT_entry_def write_end_def Let_def andThen_assoc split: prod.split intro!: andThen_eqI)
qed

lemma write_upcalls_nothing:
  "length is = length ns \<Longrightarrow> length flags = length ns \<Longrightarrow> \<not> list_ex (\<lambda>b. b) flags \<Longrightarrow>
     write_upcalls U d (zip is (zip ns flags)) s = (s, map (\<lambda>_. None) ns)"
proof (induction ns arbitrary: "is" flags)
  case (Cons n ns)
  then show ?case by (cases "is"; cases flags) auto
qed simp

lemma map_middle:
  "length is = length ns \<Longrightarrow> length bs = length ns \<Longrightarrow> map (fst \<circ> snd) (zip is (zip ns bs)) = ns"
  by (simp flip: map_map)

lemma exec_meaning: "meaning U t s = andThen (exec U t s) (\<lambda>(s', ts). meanings U ts s')"
proof (cases t)
  case (Lock_done c off len)
  then show ?thesis
    by (simp add: internal_lock_completed_def andThen_assoc Let_def case_prod_beta' calls_then_finish del: meaning.simps(4))
next
  case (Lock_done_calls todo finished)
  show ?thesis
  proof (cases todo)
    case (Cons x xs)
    with Lock_done_calls show ?thesis by (simp add: ilc_upcalls_split [of U x xs s] case_prod_beta' Let_def)
  qed (simp add: Lock_done_calls)
next
  case (Unlock_calls todo finished)
  show ?thesis
  proof (cases todo)
    case (Cons x xs)
    with Unlock_calls show ?thesis by (simp add: unlock_upcalls_split [of U x xs s] case_prod_beta' Let_def)
  qed (simp add: Unlock_calls)
next
  case (Return_calls todo finished)
  show ?thesis
  proof (cases todo)
    case (Cons x xs)
    with Return_calls show ?thesis by (simp add: return_upcalls_split [of U x xs s] case_prod_beta' Let_def)
  qed (simp add: Return_calls)
next
  case (Write_calls current todo finished)
  show ?thesis
  proof (cases todo)
    case (Cons x xs)
    with Write_calls show ?thesis by (simp add: write_upcalls_split [of U "ww_DATA current" x xs s] case_prod_beta' Let_def)
  qed (simp add: Write_calls)
next
  case Drain
  show ?thesis
  proof (cases "WRITEWAIT s")
    case (Cons current rest)
    let ?ns = "page_range s (ww_OFFSET current) (ww_LENGTH current)"
    have "length (pageout_flags s ?ns) = length ?ns" by (simp add: pageout_flags_def)
    with Drain Cons show ?thesis
      by (cases "list_ex (\<lambda>b. b) (pageout_flags s ?ns)")
        (simp_all add: service_first_split map_middle write_upcalls_nothing Let_def case_prod_beta')
  qed (simp add: Drain drain_WRITEWAIT.simps)
next
  case (Write_finish held current xs)
  then show ?thesis
    by (auto simp: write_end_def andThen_assoc Let_def split: prod.split intro!: andThen_eqI)
next
  case (Notify_calls todo)
  show ?thesis
  proof (cases todo)
    case (Cons x xs)
    with Notify_calls show ?thesis by (simp add: notify_upcalls_split [of x xs s])
  qed (simp add: Notify_calls)
next
  case (Drop_locks c k)
  then show ?thesis
    by (auto simp: drop_client_locks.simps [of U c k s] for_each_append Let_def split: option.split)
qed (auto simp: andThen_assoc split: prod.split)

section \<open>Running a handler without interruption\<close>

inductive alone :: "user_pager \<Rightarrow> task list \<Rightarrow> pager \<Rightarrow> pager result \<Rightarrow> bool" for U where
  finished: "alone U [] s (Inr s)"
| failed: "exec U t s = Inl e \<Longrightarrow> alone U (t # ts) s (Inl e)"
| more: "exec U t s = Inr (s', ts') \<Longrightarrow> alone U (ts' @ ts) s' r \<Longrightarrow> alone U (t # ts) s r"

inductive_cases alone_NilE: "alone U [] s r"

lemma alone_meaning: "alone U ts s r \<Longrightarrow> r = meanings U ts s"
proof (induction rule: alone.induct)
  case (more t s s' ts' ts r)
  then show ?case by (simp add: exec_meaning [of U t s] for_each_append)
qed (simp_all add: exec_meaning)

text \<open>A list of tasks ends, whatever tasks that end come behind it.\<close>

definition ends :: "user_pager \<Rightarrow> task list \<Rightarrow> pager \<Rightarrow> bool" where
  "ends U ts s \<longleftrightarrow> (\<exists>r. alone U ts s r)"

definition ending :: "user_pager \<Rightarrow> task list \<Rightarrow> bool" where
  "ending U ts \<longleftrightarrow> (\<forall>rest s. (\<forall>s'. ends U rest s') \<longrightarrow> ends U (ts @ rest) s)"

lemma ends_Nil [simp]: "ends U [] s"
  by (auto simp: ends_def intro: alone.finished)

lemma ends_Cons: "(\<And>s' ts'. exec U t s = Inr (s', ts') \<Longrightarrow> ends U (ts' @ ts) s') \<Longrightarrow> ends U (t # ts) s"
proof (cases "exec U t s")
  case (Inr x)
  assume "\<And>s' ts'. exec U t s = Inr (s', ts') \<Longrightarrow> ends U (ts' @ ts) s'"
  with Inr show ?thesis unfolding ends_def by (metis alone.more prod.collapse)
qed (auto simp: ends_def intro: alone.failed)

lemma ending_Nil [simp]: "ending U []"
  by (simp add: ending_def)

lemma ending_append: "ending U ts \<Longrightarrow> ending U ts' \<Longrightarrow> ending U (ts @ ts')"
  unfolding ending_def append_assoc by blast

lemma ending_Cons: "(\<And>s s' ts'. exec U t s = Inr (s', ts') \<Longrightarrow> ending U ts') \<Longrightarrow> ending U ts \<Longrightarrow> ending U (t # ts)"
  unfolding ending_def by (auto intro!: ends_Cons)

lemma ending_task: "(\<And>s s' ts'. exec U t s = Inr (s', ts') \<Longrightarrow> ending U ts') \<Longrightarrow> ending U [t]"
  by (rule ending_Cons) simp_all

lemma ending_two: "ending U [t] \<Longrightarrow> ending U [t'] \<Longrightarrow> ending U [t, t']"
  using ending_append [of U "[t]" "[t']"] by simp

lemma ending_calls:
  "ending U [Lock_done_calls todo finished]" "ending U [Unlock_calls bs finished']" "ending U [Return_calls fls finished']"
  "ending U [Notify_calls ns]"
proof -
  have f: "ending U [Lock_done_finish xs]" "ending U [Unlock_finish ys]" for xs ys
    by (rule ending_task; auto)+
  show "ending U [Lock_done_calls todo finished]"
    by (induction todo arbitrary: finished; rule ending_task) (auto simp: f split: prod.splits)
  show "ending U [Unlock_calls bs finished']"
    by (induction bs arbitrary: finished'; rule ending_task) (auto simp: f split: prod.splits)
  show "ending U [Return_calls fls finished']"
    by (induction fls arbitrary: finished'; rule ending_task) (auto simp: f split: prod.splits)
  show "ending U [Notify_calls ns]"
    by (induction ns; rule ending_task) auto
qed

lemma ending_Lock_done: "ending U [Lock_done c off len]"
  by (rule ending_task) (auto simp: ending_calls Let_def split: if_splits)

lemma ending_Drop_locks: "ending U [Drop_locks c k]"
proof (induction "card {k' :: lock_range. k < k'}" arbitrary: k rule: less_induct)
  case less
  have "ending U [Drop_locks c k']" if "next_key k m = Some k'" for m :: "(lock_range \<times> outstanding_lock) list" and k'
  proof (rule less)
    from next_key_greater [OF that] have "{x. k' < x} \<subset> {x. k < x}" by auto
    then show "card {x. k' < x} < card {x. k < x}" by (auto intro: psubset_card_mono)
  qed
  then show ?case
    by (intro ending_task) (auto simp: Let_def ending_Lock_done split: option.splits if_splits intro!: ending_two)
qed

text \<open>Draining takes one entry off the queue in every round.\<close>

definition ends_drain :: "user_pager \<Rightarrow> nat \<Rightarrow> bool" where
  "ends_drain U n \<longleftrightarrow> (\<forall>s rest. length (WRITEWAIT s) \<le> n \<longrightarrow> (\<forall>s'. ends U rest s') \<longrightarrow> ends U (Drain # rest) s)"

lemma ends_Pop:
  "ends_drain U n \<Longrightarrow> length (WRITEWAIT s) \<le> Suc n \<Longrightarrow> \<forall>s'. ends U rest s' \<Longrightarrow> ends U (Pop held # rest) s"
  by (rule ends_Cons) (auto simp: ends_drain_def same_config_pop_WRITEWAIT)

lemma ends_Notify:
  "ends_drain U n \<Longrightarrow> length (WRITEWAIT s) \<le> Suc n \<Longrightarrow> \<forall>s'. ends U rest s' \<Longrightarrow> ends U (Notify_calls xs # Pop held # rest) s"
proof (induction xs arbitrary: s)
  case Nil
  then show ?case by (intro ends_Cons) (auto intro: ends_Pop)
next
  case (Cons x xs)
  have "same_queue s (notify_upcalls [x] s)" by (simp add: notify_upcalls_same)
  then have "WRITEWAIT (notify_upcalls [x] s) = WRITEWAIT s" by (rule same_queueD)
  with Cons show ?case by (intro ends_Cons) auto
qed

lemma ends_Write_finish:
  assumes "ends_drain U n" and "length (WRITEWAIT s) \<le> Suc n" and "\<forall>s'. ends U rest s'"
  shows "ends U (Write_finish held current xs # rest) s"
proof (rule ends_Cons)
  fix s' ts'
  assume "exec U (Write_finish held current xs) s = Inr (s', ts')"
  then obtain t bs where t: "finish_writes current xs s = Inr (t, bs)"
    and s': "s' = emit (Munmap (ww_DATA current) (ww_LENGTH current)) t"
    and ts': "ts' = [Notify_calls (zip (entry_pages xs) bs), Pop False] \<or> ts' = [Pop True]"
    by (auto simp: Let_def split: if_splits)
  have "length (WRITEWAIT s') \<le> Suc n" using same_queue_finish_writes [OF t] s' assms(2) by (simp add: same_queue_unfold)
  note ends_Pop [OF assms(1) this assms(3)] ends_Notify [OF assms(1) this assms(3)]
  with ts' show "ends U (ts' @ rest) s'" by auto
qed

lemma ends_Write_calls:
  assumes "ends_drain U n" and "length (WRITEWAIT s) \<le> Suc n" and "\<forall>s'. ends U rest s'"
  shows "ends U (Write_calls current todo finished # rest) s"
  using assms(2)
proof (induction todo arbitrary: s finished)
  case Nil
  then show ?case using assms by (intro ends_Cons) (auto intro: ends_Write_finish)
next
  case (Cons x xs)
  obtain t rs where t: "write_upcalls U (ww_DATA current) [x] s = (t, rs)" by force
  then have "WRITEWAIT t = WRITEWAIT s" using write_upcalls_same same_queueD by blast
  with Cons t show ?case by (intro ends_Cons) auto
qed

lemma ends_Drain: "ends_drain U n"
proof (induction n)
  case 0
  then show ?case by (auto simp: ends_drain_def intro!: ends_Cons)
next
  case (Suc n)
  have "ends U (Drain # rest) s" if "length (WRITEWAIT s) \<le> Suc n" "\<forall>s'. ends U rest s'" for s rest
    using that Suc
    by (intro ends_Cons)
      (auto simp: Let_def split: list.splits if_splits intro: ends_Write_calls ends_Write_finish)
  then show ?case by (simp add: ends_drain_def)
qed

lemma ending_Drain: "ending U [Drain]"
  using ends_Drain [of U] by (auto simp: ending_def ends_drain_def)

lemma ending_start:
  assumes "start stack m s = Inr (s', ts)"
  shows "ending U ts"
proof -
  have single: "ending U [Queue_write off data len dirty kcopy]" "ending U [Drop_pages c]" "ending U [Destroy_ports control nm]"
    "ending U [Supply off err buf wl]" for off data len dirty kcopy c control nm err buf wl
    by (rule ending_task; auto simp: ending_Drain split: if_splits)+
  have read: "ending U [Read_call off]" for off
    by (rule ending_task) (auto simp: single split: prod.splits)
  have drop: "ending U (drop_tasks c s)" for c s
    by (auto simp: drop_tasks_def single split: list.split intro!: ending_two ending_Drop_locks)
  have request: "ending U (case b of Request_done \<Rightarrow> [] | Request_flushed \<Rightarrow> [Lock_done c off len] | Request_page_in \<Rightarrow> [Read_call off])"
    for b c off len by (cases b) (simp_all add: read ending_Lock_done)
  with assms show ?thesis
    by (cases m) (auto simp: single request drop ending_calls ending_Lock_done Let_def
      split: if_splits intro!: ending_append ending_two)
qed

text \<open>A handler without interruption: its first critical section and then its tasks.\<close>

inductive handler_alone :: "user_pager \<Rightarrow> (nat \<Rightarrow> bool) \<Rightarrow> kernel_message \<Rightarrow> pager \<Rightarrow> pager result \<Rightarrow> bool"
  for U stack m s where
  failed: "start stack m s = Inl e \<Longrightarrow> handler_alone U stack m s (Inl e)"
| started: "start stack m s = Inr (s', ts) \<Longrightarrow> alone U ts s' r \<Longrightarrow> handler_alone U stack m s r"

text \<open>It ends, and with the result of the handler.\<close>

lemma handler_alone_iff: "handler_alone U stack m s r \<longleftrightarrow> r = method_of U stack m s"
proof (cases "start stack m s")
  case (Inl e)
  then show ?thesis by (simp add: handler_alone.simps start_meaning)
next
  case (Inr x)
  then obtain s' ts where x: "start stack m s = Inr (s', ts)" by (cases x) simp
  from ending_start [OF x, of U] have "ends U (ts @ []) s'" unfolding ending_def using ends_Nil by blast
  then obtain r' where "alone U ts s' r'" unfolding ends_def by auto
  then have "alone U ts s' r \<longleftrightarrow> r = meanings U ts s'" using alone_meaning by blast
  with x show ?thesis by (simp add: handler_alone.simps start_meaning)
qed

end
