(* ===== verification/Pager_Interleaving.thy ===== *)
theory Pager_Interleaving
  imports Pager_Threads
begin

text \<open>
  The worker thread and the threads of the file system together. The worker serves one message
  after the other (\<open>demuxer.c\<close> gives the messages of an object to one worker at a time); while it
  does not hold the pager's lock, other threads lock ranges and change attributes. \<^verbatim>\<open>pager::shutdown\<close>
  sets \<^verbatim>\<open>terminating\<close> without taking the lock, so it may happen at any point.

  \<open>threads U G s\<^sub>0 ms s ts\<close>: from the pager \<open>s\<^sub>0\<close> and an idle worker, the state \<open>s\<close> is reached; the
  worker has started the messages \<open>ms\<close> and still has the tasks \<open>ts\<close> to do. \<open>G\<close> is a condition on the
  tasks that are performed.
\<close>

definition unlocked :: "task list \<Rightarrow> bool" where
  "unlocked ts \<longleftrightarrow> (case ts of [] \<Rightarrow> True | t # _ \<Rightarrow> \<not> holds_lock t)"

inductive threads ::
    "user_pager \<Rightarrow> (task \<Rightarrow> pager \<Rightarrow> bool) \<Rightarrow> pager \<Rightarrow> kernel_message list \<Rightarrow> pager \<Rightarrow> task list \<Rightarrow> bool"
  for U G s\<^sub>0 where
  initial: "threads U G s\<^sub>0 [] s\<^sub>0 []"
| receive: "threads U G s\<^sub>0 ms s [] \<Longrightarrow> start stack m s = Inr (s', ts) \<Longrightarrow> threads U G s\<^sub>0 (ms @ [m]) s' ts"
| work: "threads U G s\<^sub>0 ms s (t # ts) \<Longrightarrow> G t s \<Longrightarrow> exec U t s = Inr (s', ts') \<Longrightarrow> threads U G s\<^sub>0 ms s' (ts' @ ts)"
| lock_object: "threads U G s\<^sub>0 ms s ts \<Longrightarrow> unlocked ts \<Longrightarrow> lock_object_request off len ret flush sync s = (s', waiting) \<Longrightarrow>
    threads U G s\<^sub>0 ms s' ts"
| change: "threads U G s\<^sub>0 ms s ts \<Longrightarrow> unlocked ts \<Longrightarrow> change_attributes_send mc cs sync portset replies s = (s', outstanding) \<Longrightarrow>
    threads U G s\<^sub>0 ms s' ts"
| changed: "threads U G s\<^sub>0 ms s ts \<Longrightarrow> unlocked ts \<Longrightarrow>
    change_attributes_receive msgh_id port (s, outstanding) = Inr (s', outstanding') \<Longrightarrow> threads U G s\<^sub>0 ms s' ts"
| stop: "threads U G s\<^sub>0 ms s ts \<Longrightarrow> threads U G s\<^sub>0 ms (s\<lparr>terminating := True\<rparr>) ts"

section \<open>What a task relies on\<close>

definition request_ok :: "vm_offset_t \<Rightarrow> pager \<Rightarrow> bool" where
  "request_ok off s \<longleftrightarrow> (\<exists>w. WAITLIST (page_read s (page_of s off)) = [w] \<and>
     (write_access_requested w \<longrightarrow> ACCESSLIST (page_read s (page_of s off)) = []))"

text \<open>Each page once, and each with the property that its entry needs.\<close>

definition pages_ok :: "('a \<Rightarrow> pagemap_entry_data \<Rightarrow> bool) \<Rightarrow> (nat \<times> 'a) list \<Rightarrow> pager \<Rightarrow> bool" where
  "pages_ok P xs s \<longleftrightarrow> distinct (map fst xs) \<and> (\<forall>(n, x) \<in> set xs. P x (page_read s n))"

fun task_ok :: "task \<Rightarrow> pager \<Rightarrow> bool" where
  "task_ok (Read_call off) s = request_ok off s"
| "task_ok (Supply off _ _ _) s = request_ok off s"
| "task_ok (Lock_done_calls todo finished) s \<longleftrightarrow> pages_ok operation_ok todo s \<and> pages_ok result_ok finished s \<and>
     fst ` set todo \<inter> fst ` set finished = {}"
| "task_ok (Lock_done_finish xs) s = pages_ok result_ok xs s"
| "task_ok (Unlock_calls todo finished) s \<longleftrightarrow> pages_ok unlock_ok todo s \<and> pages_ok (\<lambda>e. unlock_ok (e \<noteq> None)) finished s \<and>
     fst ` set todo \<inter> fst ` set finished = {}"
| "task_ok (Return_calls todo finished) s \<longleftrightarrow> pages_ok (\<lambda>fl. unlock_ok (do_unlock fl)) todo s \<and>
     pages_ok (\<lambda>e. unlock_ok (e \<noteq> None)) finished s \<and> fst ` set todo \<inter> fst ` set finished = {}"
| "task_ok (Unlock_finish xs) s = pages_ok (\<lambda>e. unlock_ok (e \<noteq> None)) xs s"
| "task_ok (Write_calls current todo finished) s = distinct (entry_pages finished @ entry_pages todo)"
| "task_ok (Write_finish held current xs) s = distinct (entry_pages xs)"
| "task_ok _ s = True"

text \<open>Only the first task may rely on something, the others run in any state.\<close>

definition tasks_ok :: "task list \<Rightarrow> pager \<Rightarrow> bool" where
  "tasks_ok ts s \<longleftrightarrow> (case ts of [] \<Rightarrow> True | t # ts \<Rightarrow> task_ok t s \<and> (\<forall>t \<in> set ts. \<forall>s. task_ok t s))"

text \<open>A finished write finds no page on which clients wait for others.\<close>

fun write_race_free :: "task \<Rightarrow> pager \<Rightarrow> bool" where
  "write_race_free (Write_finish held current xs) s \<longleftrightarrow>
     ww_KERNEL_COPY current \<or> list_all (\<lambda>n. race_free (page_read s n)) (entry_pages xs)"
| "write_race_free _ _ \<longleftrightarrow> True"

lemma tasks_ok_Nil [simp]: "tasks_ok [] s"
  by (simp add: tasks_ok_def)

lemma tasks_ok_Cons [simp]: "tasks_ok (t # ts) s \<longleftrightarrow> task_ok t s \<and> (\<forall>t \<in> set ts. \<forall>s. task_ok t s)"
  by (simp add: tasks_ok_def)

lemma tasks_ok_append: "tasks_ok ts s \<Longrightarrow> \<forall>t \<in> set ts'. \<forall>s. task_ok t s \<Longrightarrow> tasks_ok (ts @ ts') s"
  by (cases ts; cases ts') auto

lemma pages_ok_Nil [simp]: "pages_ok P [] s"
  by (simp add: pages_ok_def)

lemma pages_ok_zip: "distinct ns \<Longrightarrow> list_all2 (\<lambda>n x. P x (page_read s n)) ns xs \<Longrightarrow> pages_ok P (zip ns xs) s"
  by (auto simp: pages_ok_def list_all2_iff)

lemma pages_ok_all2: "pages_ok P xs s \<Longrightarrow> list_all2 (\<lambda>n x. P x (page_read s n)) (map fst xs) (map snd xs) \<and> distinct (map fst xs)"
  by (auto simp: pages_ok_def list.rel_map intro!: list.rel_refl_strong)

lemma pages_ok_snoc:
  "pages_ok P xs s \<Longrightarrow> n \<notin> fst ` set xs \<Longrightarrow> P x (page_read s n) \<Longrightarrow> pages_ok P (xs @ [(n, x)]) s"
  by (auto simp: pages_ok_def)

lemma pages_ok_cong: "pagemap s' = pagemap s \<Longrightarrow> pages_ok P xs s' = pages_ok P xs s"
  using page_read_cong [of s' s] by (simp add: pages_ok_def)

text \<open>What a task relies on is not touched by a thread that leaves the pages alone.\<close>

lemma task_ok_cong: "pagemap s' = pagemap s \<Longrightarrow> page_size s' = page_size s \<Longrightarrow> task_ok t s' = task_ok t s"
  using page_read_cong [of s' s] by (cases t) (simp_all add: request_ok_def page_of_def pages_ok_cong [of s' s])

lemma tasks_ok_cong: "pagemap s' = pagemap s \<Longrightarrow> page_size s' = page_size s \<Longrightarrow> tasks_ok ts s' = tasks_ok ts s"
  using task_ok_cong [of s' s] by (cases ts) simp_all

section \<open>The worker keeps the invariant\<close>

lemma pages_ok_finish:
  "ilc_finish xs s = Inr s' \<Longrightarrow> exclusive s \<Longrightarrow> pages_ok result_ok xs s \<Longrightarrow> exclusive s'"
  "unlock_finish ys s = Inr s' \<Longrightarrow> exclusive s \<Longrightarrow> pages_ok (\<lambda>e. unlock_ok (e \<noteq> None)) ys s \<Longrightarrow> exclusive s'"
  using ilc_finish_ok [of "map fst xs" "map snd xs" s s'] unlock_finish_ok [of "map fst ys" "map snd ys" s s']
    pages_ok_all2 [of result_ok xs s] pages_ok_all2 [of "\<lambda>e. unlock_ok (e \<noteq> None)" ys s]
  by (simp_all add: zip_map_fst_snd)

lemma supply_ok: "data_request_supply off err buf wl s = Inr s' \<Longrightarrow> exclusive s \<Longrightarrow> request_ok off s \<Longrightarrow> exclusive s'"
  by (auto simp: request_ok_def intro: exclusive_data_request_supply)

lemma start_ok:
  assumes "start stack m s = Inr (s', ts)" and "exclusive s"
  shows "exclusive s' \<and> tasks_ok ts s'"
proof (cases m)
  case (Memory_object_init control name pagesize)
  with assms show ?thesis by (auto simp: object_init_def Let_def split: if_splits)
next
  case (Memory_object_data_request c off len access)
  with assms(1) obtain nxt where l: "data_request_locked c off len access s = Inr (s', nxt)"
    and ts: "ts = (case nxt of Request_done \<Rightarrow> [] | Request_flushed \<Rightarrow> [Lock_done c off (page_size s')]
               | Request_page_in \<Rightarrow> [Read_call off])" by auto
  have "page_of s' off = page_of s off"
    using same_queue_data_request_locked [OF l] by (simp add: page_of_def same_queue_unfold)
  with exclusive_data_request_locked [OF l assms(2)] page_in_page [of c off len access s s'] l ts show ?thesis
    by (cases nxt) (auto simp: request_ok_def)
next
  case (Memory_object_data_unlock c off len access)
  with assms show ?thesis
    using unlock_scan_ok [of c off "page_range s off len" s s']
    by (auto simp: Let_def intro!: pages_ok_zip split: if_splits)
next
  case (Memory_object_data_return c off data len dirty kcopy)
  let ?ns = "page_range s off len"
  from assms(1) Memory_object_data_return obtain fls
    where scan: "return_scan stack c data dirty kcopy (zip [0 ..< length ?ns] ?ns) s = Inr (s', fls)"
      and ts: "ts = [Return_calls (zip ?ns fls) [], Queue_write off data len dirty kcopy] \<or> ts = [Queue_write off data len dirty kcopy]"
    by (auto simp: Let_def split: if_splits)
  from return_scan_ok [OF scan assms(2)] ts show ?thesis by (auto intro!: pages_ok_zip)
next
  case (Memory_object_lock_completed c off len)
  have "pagemap (confirmed k c s) = pagemap s" for k c by (simp add: confirmed_def Let_def)
  with assms Memory_object_lock_completed show ?thesis
    by (auto simp: lock_completed_locked_def Let_def exclusive_def split: if_splits)
qed (use assms in \<open>auto simp: drop_tasks_def split: list.splits\<close>)

text \<open>The calls of the file system: one entry moves from the list of those to make to the finished ones.\<close>

lemma ilc_call_ok:
  assumes "ilc_upcalls U [(n, op)] s = (s', rs)" and "operation_ok op d"
  shows "pagemap s' = pagemap s \<and> page_size s' = page_size s \<and> result_ok (hd rs) d"
  using ilc_upcalls_same [OF assms(1)] ilc_upcalls_Cons [OF assms] by (auto simp: same_queue_unfold)

lemma unlock_call_ok:
  assumes "unlock_upcalls U [(n, b)] s = (s', rs)"
  shows "pagemap s' = pagemap s \<and> page_size s' = page_size s \<and> (hd rs \<noteq> None) = b"
  using unlock_upcalls_same [OF assms] unlock_upcalls_flags [of U "[n]" "[b]" s s' rs] assms
  by (cases rs) (auto simp: same_queue_unfold)

lemma return_call_ok:
  assumes "return_upcalls U [(n, fl)] s = (s', rs)"
  shows "pagemap s' = pagemap s \<and> page_size s' = page_size s \<and> (hd rs \<noteq> None) = do_unlock fl"
  using return_upcalls_same [OF assms] by (cases rs) (auto simp: same_queue_unfold)

lemma pages_ok_Cons:
  "pages_ok P ((n, x) # xs) s \<longleftrightarrow> pages_ok P xs s \<and> n \<notin> fst ` set xs \<and> P x (page_read s n)"
  by (auto simp: pages_ok_def)

lemma exec_calls_ok:
  assumes "exec U t s = Inr (s', ts)" and "exclusive s" and "task_ok t s"
    and t: "(\<exists>todo finished. t = Lock_done_calls todo finished) \<or> (\<exists>todo finished. t = Unlock_calls todo finished) \<or>
      (\<exists>todo finished. t = Return_calls todo finished)"
  shows "exclusive s' \<and> tasks_ok ts s'"
proof -
  consider (lock) todo finished where "t = Lock_done_calls todo finished"
    | (unlock) todo finished where "t = Unlock_calls todo finished"
    | (ret) todo finished where "t = Return_calls todo finished" using t by blast
  then show ?thesis
  proof cases
    case lock
    show ?thesis
    proof (cases todo)
      case (Cons x xs)
      obtain n op where x: "x = (n, op)" by force
      from assms(1) obtain rs where c: "ilc_upcalls U [(n, op)] s = (s', rs)"
        and ts: "ts = [Lock_done_calls xs (finished @ [(n, hd rs)])]"
        by (auto simp: lock Cons x split: prod.splits)
      from assms(3) have "operation_ok op (page_read s n)" by (simp add: lock Cons x pages_ok_Cons)
      note r = ilc_call_ok [OF c this]
      with assms(3) have "task_ok (Lock_done_calls xs (finished @ [(n, hd rs)])) s"
        by (auto simp: lock Cons x pages_ok_Cons intro!: pages_ok_snoc)
      with r ts assms(2) show ?thesis using task_ok_cong [of s' s] exclusive_cong [of s' s] by simp
    qed (use assms lock in auto)
  next
    case unlock
    show ?thesis
    proof (cases todo)
      case (Cons x xs)
      obtain n b where x: "x = (n, b)" by force
      from assms(1) obtain rs where c: "unlock_upcalls U [(n, b)] s = (s', rs)"
        and ts: "ts = [Unlock_calls xs (finished @ [(n, hd rs)])]"
        by (auto simp: unlock Cons x split: prod.splits)
      note r = unlock_call_ok [OF c]
      with assms(3) have "task_ok (Unlock_calls xs (finished @ [(n, hd rs)])) s"
        by (auto simp: unlock Cons x pages_ok_Cons intro!: pages_ok_snoc)
      with r ts assms(2) show ?thesis using task_ok_cong [of s' s] exclusive_cong [of s' s] by simp
    qed (use assms unlock in auto)
  next
    case ret
    show ?thesis
    proof (cases todo)
      case (Cons x xs)
      obtain n fl where x: "x = (n, fl)" by force
      from assms(1) obtain rs where c: "return_upcalls U [(n, fl)] s = (s', rs)"
        and ts: "ts = [Return_calls xs (finished @ [(n, hd rs)])]"
        by (auto simp: ret Cons x split: prod.splits)
      note r = return_call_ok [OF c]
      with assms(3) have "task_ok (Return_calls xs (finished @ [(n, hd rs)])) s"
        by (auto simp: ret Cons x pages_ok_Cons intro!: pages_ok_snoc)
      with r ts assms(2) show ?thesis using task_ok_cong [of s' s] exclusive_cong [of s' s] by simp
    qed (use assms ret in auto)
  qed
qed

lemma exec_write_ok:
  assumes "exec U t s = Inr (s', ts)" and "exclusive s" and "task_ok t s" and "write_race_free t s"
    and t: "t = Drain \<or> (\<exists>current todo finished. t = Write_calls current todo finished) \<or>
      (\<exists>held current xs. t = Write_finish held current xs) \<or> (\<exists>xs. t = Notify_calls xs) \<or> (\<exists>held. t = Pop held)"
  shows "exclusive s' \<and> tasks_ok ts s'"
proof -
  consider (drain) "t = Drain" | (calls) current todo finished where "t = Write_calls current todo finished"
    | (finish) held current xs where "t = Write_finish held current xs"
    | (notify) xs where "t = Notify_calls xs" | (pop) held where "t = Pop held" using t by blast
  then show ?thesis
  proof cases
    case drain
    with assms show ?thesis
      by (auto simp: Let_def pageout_flags_def split: list.splits if_splits)
  next
    case calls
    show ?thesis
    proof (cases todo)
      case (Cons x xs)
      obtain rs where c: "write_upcalls U (ww_DATA current) [x] s = (s', rs)"
        and ts: "ts = [Write_calls current xs (finished @ [(fst x, fst (snd x), hd rs)])]"
        using assms(1) by (auto simp: calls Cons split: prod.splits)
      from write_upcalls_same [OF c] assms(2,3) ts show ?thesis
        by (simp add: calls Cons entry_pages_def exclusive_def)
    qed (use assms calls in auto)
  next
    case finish
    with assms(1) obtain u bs where u: "finish_writes current xs s = Inr (u, bs)"
      and s': "s' = emit (Munmap (ww_DATA current) (ww_LENGTH current)) u"
      and ts: "ts = [Notify_calls (zip (entry_pages xs) bs), Pop False] \<or> ts = [Pop True]"
      by (auto simp: Let_def split: if_splits)
    from finish assms(4) have "\<not> ww_KERNEL_COPY current \<Longrightarrow> \<forall>n \<in> set (entry_pages xs). race_free (page_read s n)"
      by (simp add: list_all_iff)
    with finish_writes_ok [OF u assms(2)] assms(3) finish s' ts show ?thesis by auto
  next
    case notify
    show ?thesis
    proof (cases xs)
      case (Cons x xs')
      have "exclusive (notify_upcalls [x] s)" using notify_upcalls_same(2) [of "[x]" s] assms(2) by (simp add: exclusive_def)
      with assms(1) show ?thesis by (auto simp: notify Cons)
    qed (use assms notify in auto)
  next
    case pop
    with assms show ?thesis by (auto simp: exclusive_def pop_WRITEWAIT_def)
  qed
qed

lemma exec_ok:
  assumes "exec U t s = Inr (s', ts)" and "exclusive s" and "task_ok t s" and "write_race_free t s"
  shows "exclusive s' \<and> tasks_ok ts s'"
proof (cases t)
  case (Read_call off)
  with assms show ?thesis by (auto simp: request_ok_def page_of_def split: prod.splits)
next
  case (Lock_done c off len)
  with assms show ?thesis
    using ilc_scan_ok [of c "page_range s off len" s s'] by (auto simp: Let_def intro!: pages_ok_zip split: if_splits)
next
  case (Drop_locks c k)
  with assms show ?thesis
    by (auto simp: release_client_locks_def exclusive_def Let_def split: option.splits if_splits)
next
  case (Drop_pages c)
  with assms show ?thesis
    by (auto simp: drop_client_pages_def Let_def exclusive_def list_all_iff page_ok_drop_client_page)
next
  case (Queue_write off data len dirty kcopy)
  with assms show ?thesis by (auto simp: queue_write_def exclusive_def split: if_splits)
qed (use assms exec_calls_ok [OF assms(1-3)] exec_write_ok [OF assms] in \<open>auto dest: supply_ok pages_ok_finish\<close>)

section \<open>The other threads keep it too\<close>

lemma file_system_frame:
  "lock_object_request off len ret flush sync s = (s', waiting) \<Longrightarrow> pagemap s' = pagemap s \<and> page_size s' = page_size s"
  "change_attributes_send mc cs sync' portset replies s = (s', outstanding) \<Longrightarrow> pagemap s' = pagemap s \<and> page_size s' = page_size s"
  "change_attributes_receive msgh_id port (s, outstanding) = Inr (s', outstanding') \<Longrightarrow> pagemap s' = pagemap s \<and> page_size s' = page_size s"
proof -
  show "lock_object_request off len ret flush sync s = (s', waiting) \<Longrightarrow> pagemap s' = pagemap s \<and> page_size s' = page_size s"
    by (auto simp: lock_object_request_def Let_def fold_invariant_field split: if_splits)
  show "change_attributes_send mc cs sync' portset replies s = (s', outstanding) \<Longrightarrow> pagemap s' = pagemap s \<and> page_size s' = page_size s"
    by (auto simp: change_attributes_send_def Let_def fold_invariant_field case_prod_unfold split: if_splits)
  show "change_attributes_receive msgh_id port (s, outstanding) = Inr (s', outstanding') \<Longrightarrow> pagemap s' = pagemap s \<and> page_size s' = page_size s"
    by (auto simp: change_attributes_receive_def Let_def split: if_splits)
qed

lemma threads_ok:
  "threads U write_race_free s\<^sub>0 ms s ts \<Longrightarrow> exclusive s\<^sub>0 \<Longrightarrow> exclusive s \<and> tasks_ok ts s"
proof (induction rule: threads.induct)
  case (receive ms s stack m s' ts)
  then show ?case using start_ok by simp
next
  case (work ms s t ts s' ts')
  then show ?case using exec_ok [of U t s s' ts'] tasks_ok_append by auto
next
  case (lock_object ms s ts off len ret flush sync s' waiting)
  then show ?case using file_system_frame(1) exclusive_cong tasks_ok_cong by blast
next
  case (change ms s ts mc cs sync portset replies s' outstanding)
  then show ?case using file_system_frame(2) exclusive_cong tasks_ok_cong by blast
next
  case (changed ms s ts msgh_id port outstanding s' outstanding')
  then show ?case using file_system_frame(3) exclusive_cong tasks_ok_cong by blast
next
  case (stop ms s ts)
  then show ?case using tasks_ok_cong [of "s\<lparr>terminating := True\<rparr>" s ts] by (simp add: exclusive_def)
qed simp

end
