(* ===== verification/Pager_Thread_Locks.thy ===== *)
theory Pager_Thread_Locks
  imports Pager_Interleaving
begin

text \<open>
  The accounts of outstanding locks when several threads use the pager. A lock is counted and
  its confirmation discounted in critical sections, so the accounts hold at every point between the
  steps of \<open>threads\<close>, and not only when a handler has returned.
\<close>

section \<open>Relations that every critical section keeps\<close>

definition drops :: "mach_port_t \<Rightarrow> task \<Rightarrow> bool" where
  "drops c t \<longleftrightarrow> (case t of Drop_locks c' _ \<Rightarrow> c' = c | _ \<Rightarrow> False)"

fun handles_pages :: "task \<Rightarrow> bool" where
  "handles_pages (Drop_locks _ _) = False"
| "handles_pages (Drop_pages _) = False"
| "handles_pages (Destroy_ports _ _) = False"
| "handles_pages _ = True"

context handler_relation
begin

lemma R_exec:
  assumes "exec U t s = Inr (s', ts)" and "handles_pages t"
  shows "R s s'"
proof (cases t)
  case (Lock_done_calls todo finished)
  with assms show ?thesis by (cases todo) (auto intro: R_refl dest: R_ilc_upcalls split: prod.splits)
next
  case (Unlock_calls todo finished)
  with assms show ?thesis by (cases todo) (auto intro: R_refl dest: R_unlock_upcalls split: prod.splits)
next
  case (Return_calls todo finished)
  with assms show ?thesis by (cases todo) (auto intro: R_refl dest: R_return_upcalls split: prod.splits)
next
  case (Write_calls current todo finished)
  with assms show ?thesis by (cases todo) (auto intro: R_refl dest: R_write_upcalls split: prod.splits)
next
  case (Notify_calls todo)
  with assms show ?thesis by (cases todo) (auto intro!: R_refl R_notify_upcalls')
next
  case (Lock_done c off len)
  with assms show ?thesis by (auto intro: R_refl dest: R_ilc_scan simp: Let_def split: if_splits)
next
  case Drain
  with assms show ?thesis by (auto intro: R_refl simp: Let_def split: list.splits if_splits)
next
  case (Write_finish held current xs)
  with assms show ?thesis by (auto dest!: R_finish_writes simp: Let_def)
next
  case (Read_call off)
  with assms show ?thesis by (auto intro: R_refl split: prod.splits)
next
  case (Queue_write off data len dirty kcopy)
  with assms show ?thesis by (auto intro: R_refl R_queue_write split: if_splits)
next
  case (Pop held)
  with assms show ?thesis by (auto intro: R_refl R_pop_WRITEWAIT')
qed (use assms in \<open>auto dest: R_data_request_supply R_ilc_finish R_unlock_finish\<close>)

lemma R_start:
  assumes "start stack m s = Inr (s', ts)"
    and "case m of Memory_object_init _ _ _ \<Rightarrow> False | Memory_object_lock_completed _ _ _ \<Rightarrow> False | _ \<Rightarrow> True"
  shows "R s s'"
proof (cases m)
  case (Memory_object_data_unlock c off len access)
  with assms show ?thesis by (auto intro: R_refl dest: R_unlock_scan simp: Let_def split: if_splits)
next
  case (Memory_object_data_return c off data len dirty kcopy)
  with assms show ?thesis by (auto dest: R_return_scan simp: Let_def split: if_splits)
qed (use assms in \<open>auto intro: R_refl dest: R_data_request_locked\<close>)

end

section \<open>The steps of the worker\<close>

lemma same_account_refl: "locks_ok s \<Longrightarrow> same_account c s s"
  by (simp add: same_account_def)

text \<open>The tasks that a task leaves behind release no other client's locks.\<close>

lemma exec_drops:
  assumes "exec U t s = Inr (s', ts)" and "\<not> drops c t"
  shows "\<forall>t \<in> set ts. \<not> drops c t"
proof (cases t)
  case (Lock_done_calls todo finished)
  with assms show ?thesis by (cases todo) (auto simp: drops_def split: prod.splits)
next
  case (Unlock_calls todo finished)
  with assms show ?thesis by (cases todo) (auto simp: drops_def split: prod.splits)
next
  case (Return_calls todo finished)
  with assms show ?thesis by (cases todo) (auto simp: drops_def split: prod.splits)
next
  case (Write_calls current todo finished)
  with assms show ?thesis by (cases todo) (auto simp: drops_def split: prod.splits)
next
  case (Notify_calls todo)
  with assms show ?thesis by (cases todo) (auto simp: drops_def)
qed (use assms in \<open>auto simp: drops_def Let_def split: list.splits option.splits if_splits prod.splits\<close>)

lemma exec_account:
  assumes "exec U t s = Inr (s', ts)" and "locks_ok s" and "port_right s \<noteq> MACH_PORT_NULL" and "\<not> drops c t"
  shows "same_account c s s'"
proof (cases "handles_pages t")
  case True
  have "locks_ok s'" using lock_table.R_exec [OF assms(1) True] assms(2) by simp
  with accounting.R_exec [OF assms(1) True] assms(3) show ?thesis by (intro balanced_account)
next
  case False
  then consider (locks) c' k where "t = Drop_locks c' k" "c \<noteq> c'"
    | (pages) c' where "t = Drop_pages c'" | (ports) c' nm where "t = Destroy_ports c' nm"
    using assms(4) by (cases t) (auto simp: drops_def)
  then show ?thesis
  proof cases
    case locks
    with assms(1,2) show ?thesis
      by (auto simp: Let_def split: option.splits intro: release_account same_account_refl)
  next
    case pages
    with assms(1) have "s' = drop_client_pages c' s" by simp
    moreover have "requests_sent (drop_client_pages c' s) k c = requests_sent s k c" for k
    proof -
      have "requests_sent (drop_client_pages c' s) k c =
          requests_sent (complete_changes c' (s\<lparr>pagemap := map (drop_client_page c') (pagemap s)\<rparr>)) k c"
        by (simp add: drop_client_pages_def Let_def requests_sent_def asks_def)
      then show ?thesis unfolding requests_sent_complete_changes by (simp add: requests_sent_def)
    qed
    ultimately show ?thesis
      by (intro same_accountI assms(2)) (simp_all add: drop_client_pages_def Let_def)
  next
    case ports
    with assms show ?thesis by (intro same_accountI) (auto simp: requests_sent_def asks_def)
  qed
qed

lemma start_drops:
  assumes "start stack m s = Inr (s', ts)" and "\<not> loses c m"
  shows "\<forall>t \<in> set ts. \<not> drops c t"
proof (cases m)
  case (Memory_object_data_request c' off len access)
  with assms(1) obtain b where "ts = (case b of Request_done \<Rightarrow> [] | Request_flushed \<Rightarrow> [Lock_done c' off (page_size s')]
      | Request_page_in \<Rightarrow> [Read_call off])" by auto
  then show ?thesis by (cases b) (simp_all add: drops_def)
qed (use assms in \<open>auto simp: drops_def drop_tasks_def Let_def split: list.splits if_splits\<close>)

lemma start_account:
  assumes "start stack m s = Inr (s', ts)" and "locks_ok s" and "port_right s \<noteq> MACH_PORT_NULL"
  shows "locks_ok s' \<and> port_right s' = port_right s \<and>
    balance s' k c = balance s k c + (if confirms k c m then 1 else 0)"
proof -
  consider (init) control name pagesize where "m = Memory_object_init control name pagesize"
    | (confirm) c' off len where "m = Memory_object_lock_completed c' off len"
    | (other) "case m of Memory_object_init _ _ _ \<Rightarrow> False | Memory_object_lock_completed _ _ _ \<Rightarrow> False | _ \<Rightarrow> True"
    by (cases m) auto
  then show ?thesis
  proof cases
    case init
    with assms show ?thesis
      by (auto simp: object_init_def Let_def balance_emit balance_def requests_sent_def asks_def
        locks_ok_def client_lock_def range_locks_def split: if_splits)
  next
    case confirm
    with assms(1) have c: "0 < count (client_lock s (off, len) c')" "omap_get (off, len) (outstanding_locks s) \<noteq> None"
      "s' = confirmed (off, len) c' s"
      by (auto simp: lock_completed_locked_def Let_def split: if_splits)
    with confirmed_locks_ok [OF assms(2) c(1,2)] confirmed_events [of "(off, len)" c' s] confirmed_balance [OF assms(2)] confirm
    show ?thesis by (cases k) simp
  next
    case other
    then have "\<not> confirms k c m" by (cases m) auto
    with balanced_result [OF accounting.R_start [OF assms(1) other] lock_table.R_start [OF assms(1) other] assms(2,3)]
    show ?thesis by simp
  qed
qed

section \<open>The other threads\<close>

lemma same_account_emit:
  "locks_ok s \<Longrightarrow> (\<And>k. \<not> asks (port_right s) k c e) \<Longrightarrow> same_account c s (emit e s)"
  by (rule same_accountI) (simp_all add: requests_sent_def)

lemma same_account_fold:
  assumes "\<And>x s. locks_ok s \<Longrightarrow> port_right s \<noteq> MACH_PORT_NULL \<Longrightarrow> same_account c s (f x s)"
  shows "locks_ok s \<Longrightarrow> port_right s \<noteq> MACH_PORT_NULL \<Longrightarrow> same_account c s (fold f xs s)"
proof (induction xs arbitrary: s)
  case (Cons x xs)
  with assms [of s x] have "same_account c (f x s) (fold f xs (f x s))" by (simp add: same_account_def)
  with assms [of s x] Cons.prems show ?case using same_account_trans by simp
qed (simp add: same_account_def)

text \<open>A lock request that asks for a confirmation is counted.\<close>

lemma counted_request_account:
  assumes "locks_ok s"
  shows "same_account c s (let s = emit (Lock_request c' off len ret flush VM_PROT_NO_CHANGE (pager_port s)) s;
      r = client_lock s (off, len) c' in put_client_lock (off, len) c' (r\<lparr>count := count r + 1\<rparr>) s)"
proof -
  let ?s = "emit (Lock_request c' off len ret flush VM_PROT_NO_CHANGE (pager_port s)) s"
  let ?t = "put_client_lock (off, len) c' ((client_lock s (off, len) c')\<lparr>count := count (client_lock s (off, len) c') + 1\<rparr>) ?s"
  have "locks_ok ?s" using assms by (simp add: locks_ok_def)
  then have "locks_ok ?t" using locks_ok_count [OF assms, of "(off, len)" c'] by (intro locks_ok_put) simp_all
  moreover have "events ?t = events ?s" "port_right ?t = port_right s" by (simp_all add: put_client_lock_def)
  moreover from this have "balance ?t k c = balance s k c" for k
    by (simp add: balance_def requests_sent_def asks_def pager_port_def)
  ultimately show ?thesis by (simp add: same_account_def Let_def)
qed

lemma lock_object_account:
  assumes "lock_object_request off len ret flush sync s = (s', waiting)" and "locks_ok s" and "port_right s \<noteq> MACH_PORT_NULL"
  shows "same_account c s s'"
proof -
  let ?cs = "lock_object_clients off len ret flush s"
  have "same_account c s (fold (\<lambda>c'. emit (Lock_request c' off len ret flush VM_PROT_NO_CHANGE MACH_PORT_NULL)) ?cs s)"
    using assms(2,3) by (intro same_account_fold same_account_emit) (auto simp: asks_def)
  moreover have "same_account c s (fold (\<lambda>c' s.
      let s = emit (Lock_request c' off len ret flush VM_PROT_NO_CHANGE (pager_port s)) s;
        r = client_lock s (off, len) c' in put_client_lock (off, len) c' (r\<lparr>count := count r + 1\<rparr>) s) ?cs s)"
    using assms(2,3) by (intro same_account_fold counted_request_account)
  ultimately show ?thesis
    using assms(1) same_account_refl [OF assms(2), of c]
    unfolding lock_object_request_def Let_def [of ?cs] by (auto split: if_splits)
qed

lemma change_attributes_account:
  assumes "locks_ok s" and "port_right s \<noteq> MACH_PORT_NULL"
  shows "change_attributes_send mc cs sync portset replies s = (s', outstanding) \<Longrightarrow> same_account c s s'"
    and "change_attributes_receive msgh_id port (s, outstanding) = Inr (s', outstanding') \<Longrightarrow> same_account c s s'"
proof -
  let ?f = "\<lambda>(c, reply) s. (emit (Change_attributes c mc cs reply) (emit (Port_allocate reply) s))\<lparr>outstanding_change_requests :=
       oset_insert (outstanding_change_request c reply) (outstanding_change_requests s)\<rparr>"
  have 1: "same_account c s (fold (\<lambda>c. emit (Change_attributes c mc cs MACH_PORT_NULL)) (clients s) s)"
    using assms by (intro same_account_fold same_account_emit) (simp_all add: asks_def)
  have "same_account c s (?f x s)" if "locks_ok s" for x s
    using that by (intro same_accountI) (auto simp: case_prod_beta requests_sent_def asks_def)
  moreover have e: "same_account c s (emit (Port_allocate portset) s)"
    using assms(1) by (intro same_account_emit) (simp_all add: asks_def)
  ultimately have "same_account c (emit (Port_allocate portset) s) (fold ?f (zip (clients s) replies) (emit (Port_allocate portset) s))"
    using assms(2) by (intro same_account_fold) (auto simp: same_account_def [of c s "emit _ s"])
  with e have "same_account c s (fold ?f (zip (clients s) replies) (emit (Port_allocate portset) s))"
    by (rule same_account_trans)
  with 1 show "change_attributes_send mc cs sync portset replies s = (s', outstanding) \<Longrightarrow> same_account c s s'"
    by (auto simp: change_attributes_send_def Let_def split: if_splits)
  show "change_attributes_receive msgh_id port (s, outstanding) = Inr (s', outstanding') \<Longrightarrow> same_account c s s'"
    using assms by (auto simp: change_attributes_receive_def Let_def requests_sent_def asks_def split: if_splits intro!: same_accountI)
qed

section \<open>The accounts at every point\<close>

definition accounted :: "mach_port_t \<Rightarrow> pager \<Rightarrow> kernel_message list \<Rightarrow> pager \<Rightarrow> bool" where
  "accounted c s\<^sub>0 ms s \<longleftrightarrow> locks_ok s \<and> port_right s = port_right s\<^sub>0 \<and>
     (\<forall>k. balance s k c = balance s\<^sub>0 k c + int (length (filter (confirms k c) ms)))"

lemma accounted_same: "accounted c s\<^sub>0 ms s \<Longrightarrow> same_account c s s' \<Longrightarrow> accounted c s\<^sub>0 ms s'"
  by (simp add: accounted_def same_account_def)

lemma accounted_start:
  assumes "accounted c s\<^sub>0 ms s" and "start stack m s = Inr (s', ts)" and "port_right s\<^sub>0 \<noteq> MACH_PORT_NULL"
  shows "accounted c s\<^sub>0 (ms @ [m]) s'"
  using assms start_account [OF assms(2), of _ c] unfolding accounted_def by simp

lemma threads_account:
  "threads U G s\<^sub>0 ms s ts \<Longrightarrow> locks_ok s\<^sub>0 \<Longrightarrow> port_right s\<^sub>0 \<noteq> MACH_PORT_NULL \<Longrightarrow> list_all (\<lambda>m. \<not> loses c m) ms \<Longrightarrow>
     accounted c s\<^sub>0 ms s \<and> (\<forall>t \<in> set ts. \<not> drops c t)"
proof (induction rule: threads.induct)
  case initial
  then show ?case by (simp add: accounted_def)
next
  case (receive ms s stack m s' ts)
  then show ?case using accounted_start start_drops by auto
next
  case (work ms s t ts s' ts')
  then have "accounted c s\<^sub>0 ms s" "\<not> drops c t" "\<forall>t \<in> set ts. \<not> drops c t" by auto
  moreover from this work have "same_account c s s'" by (intro exec_account) (auto simp: accounted_def)
  ultimately show ?case using accounted_same exec_drops [OF work.hyps(3)] by auto
next
  case (lock_object ms s ts off len ret flush sync s' waiting)
  then show ?case using lock_object_account accounted_same unfolding accounted_def by metis
next
  case (change ms s ts mc cs sync portset replies s' outstanding)
  then show ?case using change_attributes_account(1) accounted_same unfolding accounted_def by metis
next
  case (changed ms s ts msgh_id port outstanding s' outstanding')
  then show ?case using change_attributes_account(2) accounted_same unfolding accounted_def by metis
next
  case (stop ms s ts)
  then have "same_account c s (s\<lparr>terminating := True\<rparr>)"
    by (intro same_accountI) (auto simp: accounted_def requests_sent_def)
  with stop show ?case using accounted_same by auto
qed

end
