(* ===== verification/Pager_Protocol.thy ===== *)
theory Pager_Protocol
  imports Pager_Locks
begin

text \<open>
  What a message does to a page in the states the protocol is made of: a page nobody has, a page
  one reader has and another client wants to write, a reader that asks for write access, a
  client that goes away.
\<close>

section \<open>One page\<close>

lemma page_of_offset_of:
  assumes "off mod page_size s = 0"
  shows "offset_of s (page_of s off) = off"
proof -
  have "off div page_size s * page_size s = off" using assms by (metis add.right_neutral div_mult_mod_eq)
  then show ?thesis by (simp add: offset_of_def page_of_def)
qed

lemma one_page: "page_size s \<noteq> 0 \<Longrightarrow> page_range s off (page_size s) = [page_of s off]"
  by (simp add: page_range_def npages_def unat_div_distrib unat_eq_0)

lemma page_of_cong: "page_size s' = page_size s \<Longrightarrow> page_of s' off = page_of s off"
  by (simp add: page_of_def)

definition aligned :: "vm_offset_t \<Rightarrow> vm_size_t \<Rightarrow> pager \<Rightarrow> bool" where
  "aligned off len s \<longleftrightarrow> page_size s \<noteq> 0 \<and> len = page_size s \<and> off mod page_size s = 0"

definition no_next_error :: "mach_port_t \<Rightarrow> vm_offset_t \<Rightarrow> pager \<Rightarrow> bool" where
  "no_next_error c off s \<longleftrightarrow> List.find (is_next_error c off) (NEXTERROR s) = None"

text \<open>Nobody has the page or waits for it, and its data in the backing store is good.\<close>

definition idle_page :: "pagemap_entry_data \<Rightarrow> bool" where
  "idle_page d \<longleftrightarrow> ACCESSLIST d = [] \<and> WAITLIST d = [] \<and> \<not> PAGINGOUT d \<and> \<not> WRITE_ACCESS_GRANTED d \<and> \<not> INVALID d"

lemma data_request_idle_locked:
  assumes "aligned off len s" and "\<not> terminating s" and "no_next_error c off s"
    and "idle_page (page_read s (page_of s off))"
  shows "data_request_locked c off len prot s =
    Inr (page_write (page_of s off) ((page_read s (page_of s off))\<lparr>WAITLIST := [WAITLIST_client c (wants_write prot)]\<rparr>) s,
      Request_page_in)"
  using assms
  by (simp add: data_request_locked_def aligned_def no_next_error_def idle_page_def Let_def)

definition granted_page :: "mach_port_t \<Rightarrow> bool \<Rightarrow> pagemap_entry_data \<Rightarrow> pagemap_entry_data" where
  "granted_page c w d = d\<lparr>ACCESSLIST := [c], WAITLIST := [], WRITE_ACCESS_GRANTED := w, ERROR := KERN_SUCCESS\<rparr>"

definition page_supply :: "pager \<Rightarrow> mach_port_t \<Rightarrow> vm_offset_t \<Rightarrow> vm_address_t \<Rightarrow> bool \<Rightarrow> event" where
  "page_supply s c off buf w =
     Data_supply c off buf (page_size s) True (if w then VM_PROT_NONE else VM_PROT_WRITE) (PRECIOUS s)"

text \<open>Serving the only client that waits for a page nobody has.\<close>

lemma service_single:
  assumes "\<not> terminating s" and "WAITLIST d = [WAITLIST_client c w]" and "ACCESSLIST d = []"
  shows "service_WAITLIST off buf allow True s (d\<lparr>ERROR := KERN_SUCCESS\<rparr>) =
    Inr (emit (page_supply s c off buf (w \<and> allow)) s, granted_page c (w \<and> allow) d)"
proof -
  have "serviced_page allow (d\<lparr>ERROR := KERN_SUCCESS\<rparr>) = granted_page c (w \<and> allow) d"
    using assms by (cases d) (auto simp: serviced_page_def served_batch_def grants_write_def granted_page_def)
  moreover have "serviced_pager off buf allow True s (d\<lparr>ERROR := KERN_SUCCESS\<rparr>) = emit (page_supply s c off buf (w \<and> allow)) s"
    using assms calculation
    by (auto simp: serviced_pager_def supply_messages_def grants_write_def served_batch_def reader_supplies_def
      reader_supply_def page_supply_def emit_def granted_page_def)
  ultimately show ?thesis using assms service_WAITLIST_eq [of s "d\<lparr>ERROR := KERN_SUCCESS\<rparr>"] by simp
qed

lemma data_request_idle:
  assumes "aligned off len s" and "\<not> terminating s" and "no_next_error c off s"
    and "idle_page (page_read s (page_of s off))"
    and "pager_read_page U (events s) off = (err, buf, wl)"
  shows "data_request U c off len prot s =
    (if err = KERN_SUCCESS
     then Inr (page_write (page_of s off) (granted_page c (wants_write prot \<and> \<not> wl) (page_read s (page_of s off)))
            (emit (page_supply s c off buf (wants_write prot \<and> \<not> wl)) (emit (Read_page off)
              (page_write (page_of s off) ((page_read s (page_of s off))\<lparr>WAITLIST := [WAITLIST_client c (wants_write prot)]\<rparr>) s))))
     else Inr (page_write (page_of s off) ((page_read s (page_of s off))\<lparr>ERROR := err, WAITLIST := []\<rparr>)
            (emit (Data_error c off (page_size s) err) (emit (Read_page off)
              (page_write (page_of s off) ((page_read s (page_of s off))\<lparr>WAITLIST := [WAITLIST_client c (wants_write prot)]\<rparr>) s)))))"
proof -
  let ?n = "page_of s off" let ?d = "page_read s ?n"
  let ?q = "?d\<lparr>WAITLIST := [WAITLIST_client c (wants_write prot)]\<rparr>"
  let ?t = "emit (Read_page off) (page_write ?n ?q s)"
  have req: "data_request U c off len prot s = data_request_supply off err buf wl ?t"
    using data_request_idle_locked [OF assms(1-4), of prot] assms(5) by (simp add: data_request_def)
  have t: "page_of ?t off = ?n" "page_read ?t ?n = ?q" "\<not> terminating ?t"
    using assms(2) by (simp_all add: page_of_def)
  show ?thesis
  proof (cases "err = KERN_SUCCESS")
    case True
    have "service_WAITLIST off buf (\<not> wl) True ?t (?q\<lparr>ERROR := KERN_SUCCESS\<rparr>) =
        Inr (emit (page_supply ?t c off buf (wants_write prot \<and> \<not> wl)) ?t, granted_page c (wants_write prot \<and> \<not> wl) ?q)"
      using assms(4) t(3) by (intro service_single) (simp_all add: idle_page_def)
    moreover have "page_supply ?t = page_supply s" by (simp add: page_supply_def fun_eq_iff PRECIOUS_def)
    moreover have "granted_page c w ?q = granted_page c w ?d" for w by (simp add: granted_page_def)
    ultimately show ?thesis using True req t by (simp add: data_request_supply_def Let_def)
  next
    case False
    with req t assms(4) show ?thesis
      by (simp add: data_request_supply_def Let_def send_error_to_WAITLIST_def send_error_to_client_def idle_page_def)
  qed
qed

section \<open>A reader gives way to a writer\<close>

text \<open>One reader has the page and nobody waits for it.\<close>

definition read_by :: "mach_port_t \<Rightarrow> pagemap_entry_data \<Rightarrow> bool" where
  "read_by a d \<longleftrightarrow> ACCESSLIST d = [a] \<and> WAITLIST d = [] \<and> \<not> PAGINGOUT d \<and> \<not> WRITE_ACCESS_GRANTED d \<and> \<not> INVALID d"

lemma data_request_write_locked:
  assumes "aligned off len s" and "\<not> terminating s" and "no_next_error b off s"
    and "read_by a (page_read s (page_of s off))" and "b \<noteq> a" and "wants_write prot"
  shows "data_request U b off len prot s =
    Inr (page_write (page_of s off) ((page_read s (page_of s off))\<lparr>WAITLIST := [WAITLIST_client b True]\<rparr>)
      (internal_flush_request a off s))"
  using assms
  by (simp add: data_request_def data_request_locked_def aligned_def no_next_error_def read_by_def Let_def
    flush_clients_def)

lemma internal_lock_completed_last:
  assumes al: "aligned off len s" and t: "\<not> terminating s"
    and d: "ACCESSLIST (page_read s (page_of s off)) = [a]" "\<not> WRITE_ACCESS_GRANTED (page_read s (page_of s off))"
      "\<not> INVALID (page_read s (page_of s off))"
      "WAITLIST (page_read s (page_of s off)) = [WAITLIST_client b w]"
    and r: "pager_read_page U (events s) off = (KERN_SUCCESS, buf, wl)"
  shows "\<exists>s'. internal_lock_completed U a off len s = Inr s' \<and>
    page_read s' (page_of s off) = granted_page b (w \<and> \<not> wl) (page_read s (page_of s off)) \<and>
    events s' = events s @ [Read_page off, page_supply s b off buf (w \<and> \<not> wl)] \<and>
    (\<forall>m. m \<noteq> page_of s off \<longrightarrow> page_read s' m = page_read s m)"
proof -
  let ?n = "page_of s off" let ?e = "(page_read s ?n)\<lparr>ACCESSLIST := []\<rparr>"
  let ?s1 = "page_write ?n ?e s" let ?s2 = "emit (Read_page off) ?s1"
  have off: "offset_of s ?n = off" "page_size s \<noteq> 0" "len = page_size s" "off mod page_size s = 0"
    using al by (simp_all add: aligned_def page_of_offset_of)
  then have ns: "page_range s off len = [?n]" by (simp add: one_page)
  have off1: "offset_of ?s1 ?n = off" "offset_of ?s2 ?n = off" using off(1) by (simp_all add: offset_of_def)
  have scan: "ilc_scan a [?n] s = Inr (?s1, [PAGEIN])"
    using d by (simp add: ilc_scan_page_def Let_def)
  have up: "ilc_upcalls U [(?n, PAGEIN)] ?s1 = (?s2, [Read_result KERN_SUCCESS buf wl])"
    using r off1 by (simp add: Let_def)
  have "service_WAITLIST off buf (\<not> wl) True ?s2 (?e\<lparr>ERROR := KERN_SUCCESS\<rparr>) =
      Inr (emit (page_supply ?s2 b off buf (w \<and> \<not> wl)) ?s2, granted_page b (w \<and> \<not> wl) ?e)"
    using d t by (intro service_single) simp_all
  then have fin: "ilc_finish [(?n, Read_result KERN_SUCCESS buf wl)] ?s2 =
      Inr (page_write ?n (granted_page b (w \<and> \<not> wl) ?e) (emit (page_supply ?s2 b off buf (w \<and> \<not> wl)) ?s2))"
    using off1 by (simp add: ilc_finish_page_def Let_def)
  have "internal_lock_completed U a off len s =
      Inr (page_write ?n (granted_page b (w \<and> \<not> wl) ?e) (emit (page_supply ?s2 b off buf (w \<and> \<not> wl)) ?s2))"
    unfolding internal_lock_completed_def ns
    using scan up fin t off by simp
  moreover have "page_supply ?s2 = page_supply s" by (simp add: page_supply_def PRECIOUS_def fun_eq_iff)
  ultimately show ?thesis by (simp add: granted_page_def)
qed

text \<open>The only request outstanding for a range is confirmed.\<close>

lemma confirmed_only:
  assumes "omap_get k (outstanding_locks s) = None" and "locks_ok s"
    and "client_lock t k c = \<lparr>count = 1, internal_lock_outstanding = True\<rparr>"
    and "outstanding_locks t = omap_put k [(c, \<lparr>count = 1, internal_lock_outstanding = True\<rparr>)] (outstanding_locks s)"
  shows "confirmed k c t = emit (Wake_lock_waiters k) (t\<lparr>outstanding_locks := omap_erase k (outstanding_locks t)\<rparr>)"
    and "omap_get k (outstanding_locks t) = Some [(c, \<lparr>count = 1, internal_lock_outstanding = True\<rparr>)]"
  using assms by (simp_all add: confirmed_def Let_def range_locks_def omap_at_def omap_get_put)

lemma write_handoff_lemma:
  assumes al: "aligned off len s" and t: "\<not> terminating s" and ne: "no_next_error b off s"
    and d: "read_by a (page_read s (page_of s off))" and "b \<noteq> a" and w: "wants_write prot"
    and free: "omap_get (off, page_size s) (outstanding_locks s) = None" and ok: "locks_ok s"
    and r: "\<And>h. pager_read_page U h off = (KERN_SUCCESS, buf, wl)"
  shows "\<exists>s1 s2. data_request U b off len prot s = Inr s1 \<and>
    events s1 = events s @ [flush_message s off a] \<and>
    lock_completed U a off len s1 = Inr s2 \<and>
    page_read s2 (page_of s off) = granted_page b (\<not> wl) (page_read s (page_of s off)) \<and>
    events s2 = events s1 @ [Wake_lock_waiters (off, len), Read_page off, page_supply s b off buf (\<not> wl)]"
proof -
  let ?n = "page_of s off" let ?k = "(off, page_size s)"
  define s1 where "s1 = page_write ?n ((page_read s ?n)\<lparr>WAITLIST := [WAITLIST_client b True]\<rparr>)
    (internal_flush_request a off s)"
  have req: "data_request U b off len prot s = Inr s1"
    using data_request_write_locked [OF al t ne d \<open>b \<noteq> a\<close> w] by (simp add: s1_def)
  have len: "len = page_size s" using al by (simp add: aligned_def)
  have fresh: "client_lock s ?k a = fresh_client_lock" "range_locks s ?k = []"
    using free by (simp_all add: client_lock_def range_locks_def omap_at_def)
  have locks: "outstanding_locks s1 = omap_put ?k [(a, \<lparr>count = 1, internal_lock_outstanding = True\<rparr>)] (outstanding_locks s)"
    using fresh by (simp add: s1_def internal_flush_request_def put_client_lock_def fresh_client_lock_def Let_def)
  then have cl: "client_lock s1 ?k a = \<lparr>count = 1, internal_lock_outstanding = True\<rparr>"
    by (simp add: client_lock_def range_locks_def omap_at_def omap_get_put) (simp add: omap_get_def)
  note conf = confirmed_only [OF free ok cl locks]
  define t1 where "t1 = confirmed ?k a s1"
  have t1_eq: "t1 = emit (Wake_lock_waiters ?k) (s1\<lparr>outstanding_locks := omap_erase ?k (outstanding_locks s1)\<rparr>)"
    using conf(1) by (simp add: t1_def)
  have "page_read t1 = page_read s1" by (simp add: t1_eq page_read_def fun_eq_iff)
  moreover have "page_size s1 = page_size s" "terminating s1 = terminating s" "notify_on_evict s1 = notify_on_evict s"
    "events s1 = events s @ [flush_message s off a]" by (simp_all add: s1_def)
  ultimately have t1: "page_read t1 = page_read s1" "page_size t1 = page_size s" "\<not> terminating t1"
    "events t1 = events s @ [flush_message s off a, Wake_lock_waiters ?k]" "page_of t1 off = ?n"
    "page_supply t1 = page_supply s"
    using t by (simp_all add: t1_eq page_of_def page_supply_def PRECIOUS_def fun_eq_iff)
  have "lock_completed U a off len s1 = internal_lock_completed U a off len t1"
    using conf cl by (simp add: lock_completed_def len t1_def Let_def omap_at_def omap_get_def)
  moreover have "aligned off len t1" using al t1 by (simp add: aligned_def)
  from internal_lock_completed_last [OF this t1(3), of a b True U buf wl] d r t1
  obtain s2 where "internal_lock_completed U a off len t1 = Inr s2"
    "page_read s2 ?n = granted_page b (\<not> wl) (page_read s ?n)"
    "events s2 = events t1 @ [Read_page off, page_supply s b off buf (\<not> wl)]"
    by (auto simp: s1_def read_by_def granted_page_def)
  ultimately show ?thesis using req t1(4) len by (auto simp: s1_def)
qed

section \<open>A reader asks for write access\<close>

lemma data_unlock_sole:
  assumes al: "aligned off len s" and t: "\<not> terminating s" and d: "read_by c (page_read s (page_of s off))"
    and e: "pager_unlock_page U (events s) off = err"
  shows "\<exists>s'. data_unlock U c off len prot s = Inr s' \<and>
    page_read s' (page_of s off) = (page_read s (page_of s off))\<lparr>WRITE_ACCESS_GRANTED := (err = KERN_SUCCESS)\<rparr> \<and>
    events s' = events s @ Unlock_page off #
      (if err = KERN_SUCCESS
       then [Lock_request c off len MEMORY_OBJECT_RETURN_NONE False VM_PROT_NONE MACH_PORT_NULL]
       else [flush_message s off c]) \<and>
    NEXTERROR s' = NEXTERROR s @
      (if err = KERN_SUCCESS then [] else [\<lparr>ne_client = c, ne_offset = off, ne_error = err\<rparr>]) \<and>
    page_size s' = page_size s \<and> terminating s' = terminating s"
proof -
  let ?n = "page_of s off" let ?q = "(page_read s ?n)\<lparr>WAITLIST := [WAITLIST_client c True]\<rparr>"
  let ?s1 = "page_write ?n ?q s" let ?s2 = "emit (Unlock_page off) ?s1"
  have off: "offset_of s ?n = off" "page_size s \<noteq> 0" "len = page_size s" "off mod page_size s = 0"
    using al by (simp_all add: aligned_def page_of_offset_of)
  then have ns: "page_range s off len = [?n]" by (simp add: one_page)
  have off1: "offset_of ?s1 ?n = off" "offset_of ?s2 ?n = off" using off(1) by (simp_all add: offset_of_def)
  have scan: "unlock_scan c off [?n] s = Inr (?s1, [True])"
    using d by (simp add: unlock_scan_page_def Let_def read_by_def is_any_client_waiting_for_write_access_def)
  have up: "unlock_upcalls U [(?n, True)] ?s1 = (?s2, [Some err])" using e off1 by (simp add: Let_def)
  have eq: "data_unlock U c off len prot s = unlock_finish [(?n, Some err)] ?s2"
    unfolding data_unlock_def ns using scan up t off
    by (simp add: Let_def del: unlock_scan.simps unlock_upcalls.simps unlock_finish.simps)
  have granted: "?q\<lparr>WAITLIST := [], WRITE_ACCESS_GRANTED := True\<rparr> = (page_read s ?n)\<lparr>WRITE_ACCESS_GRANTED := True\<rparr>"
    and kept: "?q\<lparr>WAITLIST := []\<rparr> = (page_read s ?n)\<lparr>WRITE_ACCESS_GRANTED := False\<rparr>"
    using d by (cases "page_read s ?n"; simp add: read_by_def)+
  have flush: "flush_message ?s2 off c = flush_message s off c" by (simp add: flush_message_def)
  show ?thesis
  proof (cases "err = KERN_SUCCESS")
    case True
    then have "finalize_unlock off err ?s2 ?q = Inr (emit (Lock_request c off (page_size s)
        MEMORY_OBJECT_RETURN_NONE False VM_PROT_NONE MACH_PORT_NULL) ?s2,
        (page_read s ?n)\<lparr>WRITE_ACCESS_GRANTED := True\<rparr>)"
      unfolding granted [symmetric]
      by (simp add: finalize_unlock_def first_WAITLIST_client_def pop_first_WAITLIST_client_def Let_def)
    then show ?thesis using True eq off(3) off1 by simp
  next
    case False
    then have "finalize_unlock off err ?s2 ?q = Inr ((internal_flush_request c off ?s2)\<lparr>NEXTERROR := NEXTERROR s @
        [\<lparr>ne_client = c, ne_offset = off, ne_error = err\<rparr>]\<rparr>, (page_read s ?n)\<lparr>WRITE_ACCESS_GRANTED := False\<rparr>)"
      unfolding kept [symmetric]
      by (simp add: finalize_unlock_def first_WAITLIST_client_def pop_first_WAITLIST_client_def Let_def)
    then show ?thesis using False eq off1 flush by simp
  qed
qed

text \<open>An error kept for a client is the answer to its next request for the page, and is then forgotten.\<close>

lemma data_request_next_error:
  assumes "aligned off len s" and "\<not> terminating s"
    and "List.find (is_next_error c off) (NEXTERROR s) = Some e"
  shows "data_request U c off len prot s =
    Inr ((emit (Data_error c off len (ne_error e)) s)\<lparr>NEXTERROR := erase_first (is_next_error c off) (NEXTERROR s)\<rparr>)"
  using assms by (simp add: data_request_def data_request_locked_def aligned_def Let_def)

section \<open>A client goes away\<close>

lemma drop_client_page_access: "page_ok d \<Longrightarrow> c \<notin> set (ACCESSLIST (drop_client_page c d))"
  by (auto simp: drop_client_page_def Let_def page_ok_def set_oset_erase)

lemma drop_client_page_waitlist: "WAITLIST (drop_client_page c d) = WAITLIST d"
  by (simp add: drop_client_page_def Let_def)

lemma drop_client_access:
  assumes "drop_client U c s = Inr s'" and "exclusive s"
  shows "c \<notin> set (ACCESSLIST (page_read s' n))"
  using assms(1)
proof (cases rule: drop_client_cases)
  case (1 t)
  then have "exclusive t" using assms(2) exclusive_drop_client_locks by (auto split: list.splits)
  then show ?thesis
    using 1(2) drop_client_page_access
    by (auto simp: page_read_def vec_get_def exclusive_def list_all_length empty_page_def)
qed

lemma drop_client_no_locks:
  assumes "drop_client U c s = Inr s'" and "outstanding_locks s = []"
  shows "WAITLIST (page_read s' n) = WAITLIST (page_read s n)"
  using assms(1)
proof (cases rule: drop_client_cases)
  case (1 t)
  then show ?thesis
    using assms(2) by (auto simp: page_read_def vec_get_def drop_client_page_waitlist)
qed

section \<open>Locks asked for by the file system\<close>

lemma fold_insert_if:
  "set (fold (\<lambda>c cs. if P then oset_insert c cs else cs) xs acc) = (if P then set xs else {}) \<union> set acc"
  by (induction xs arbitrary: acc) auto

lemma oset_ok_fold_insert_if:
  "oset_ok acc \<Longrightarrow> oset_ok (fold (\<lambda>c cs. if P then oset_insert c cs else cs) xs acc)"
  by (induction xs arbitrary: acc) auto

lemma lock_object_clients_set:
  "set (lock_object_clients off len ret flush s) =
     {c. \<exists>n \<in> set (page_range s off len). c \<in> set (ACCESSLIST (page_read s n)) \<and>
        (only_signal_WRITE_clients ret flush \<longrightarrow> WRITE_ACCESS_GRANTED (page_read s n))}"
proof -
  have "set (fold (\<lambda>n. fold (\<lambda>c cs. if \<not> only_signal_WRITE_clients ret flush \<or> WRITE_ACCESS_GRANTED (page_read s n)
      then oset_insert c cs else cs) (ACCESSLIST (page_read s n))) ns acc) =
     {c. \<exists>n \<in> set ns. c \<in> set (ACCESSLIST (page_read s n)) \<and>
        (only_signal_WRITE_clients ret flush \<longrightarrow> WRITE_ACCESS_GRANTED (page_read s n))} \<union> set acc" for ns acc
    by (induction ns arbitrary: acc) (auto simp: fold_insert_if)
  then show ?thesis by (simp add: lock_object_clients_def)
qed

lemma lock_object_clients_ok: "oset_ok (lock_object_clients off len ret flush s)"
proof -
  have "oset_ok acc \<Longrightarrow> oset_ok (fold (\<lambda>n. fold (\<lambda>c cs. if \<not> only_signal_WRITE_clients ret flush \<or>
      WRITE_ACCESS_GRANTED (page_read s n) then oset_insert c cs else cs) (ACCESSLIST (page_read s n))) ns acc)"
    for ns acc
    by (induction ns arbitrary: acc) (auto simp: oset_ok_fold_insert_if)
  then show ?thesis by (simp add: lock_object_clients_def)
qed

lemma lock_object_sync_fold:
  fixes off len ret flush
  defines "f \<equiv> \<lambda>c s. let s = emit (Lock_request c off len ret flush VM_PROT_NO_CHANGE (pager_port s)) s;
      r = client_lock s (off, len) c
    in put_client_lock (off, len) c (r\<lparr>count := count r + 1\<rparr>) s"
  assumes "distinct cs"
  shows "count (client_lock (fold f cs s) k c) =
      count (client_lock s k c) + (if k = (off, len) \<and> c \<in> set cs then 1 else 0)
    \<and> events (fold f cs s) = events s @
      map (\<lambda>c. Lock_request c off len ret flush VM_PROT_NO_CHANGE (port_right s)) cs"
  using assms(2)
proof (induction cs arbitrary: s)
  case Nil
  then show ?case by simp
next
  case (Cons a cs)
  have "port_right (f a s) = port_right s" "events (f a s) = events s @
      [Lock_request a off len ret flush VM_PROT_NO_CHANGE (port_right s)]"
    "count (client_lock (f a s) k c) = count (client_lock s k c) + (if k = (off, len) \<and> c = a then 1 else 0)"
    by (auto simp: f_def Let_def pager_port_def)
  then show ?case using Cons.IH [of "f a s"] Cons.prems by auto
qed

end
