(* ===== verification/Pager_Writes.thy ===== *)
theory Pager_Writes
  imports Pager_Writeback
begin

text \<open>
  Which data reaches the backing store. Draining WRITEWAIT writes, for every page, the data of
  the newest entry that covers it, and writes it once. The entries are page aligned, as
  \<^verbatim>\<open>data_return\<close> asserts, and end below the last address.
\<close>

fun writes_of :: "event list \<Rightarrow> (vm_offset_t \<times> vm_address_t) list" where
  "writes_of [] = []"
| "writes_of (Write_page off data # es) = (off, data) # writes_of es"
| "writes_of (_ # es) = writes_of es"

definition entry_ok :: "vm_size_t \<Rightarrow> WRITEWAIT_entry \<Rightarrow> bool" where
  "entry_ok ps e \<longleftrightarrow> ps \<noteq> 0 \<and> ww_OFFSET e mod ps = 0 \<and> ww_LENGTH e mod ps = 0 \<and>
     unat (ww_OFFSET e) + unat (ww_LENGTH e) < 2 ^ 32"

definition newest :: "pager \<Rightarrow> nat \<Rightarrow> WRITEWAIT_entry option" where
  "newest s n = List.find (\<lambda>e. covers_page s e n) (rev (WRITEWAIT s))"

definition entry_writes :: "pager \<Rightarrow> WRITEWAIT_entry \<Rightarrow> (vm_offset_t \<times> vm_address_t) list" where
  "entry_writes s e =
     map (\<lambda>(i, n). (offset_of s n, data_at s (ww_DATA e) i))
       (filter (\<lambda>(i, n). matching_page_count_on_WRITEWAIT s n = 1)
         (zip [0 ..< npages s (ww_LENGTH e)] (page_range s (ww_OFFSET e) (ww_LENGTH e))))"

section \<open>The writes of one entry\<close>

lemma writes_of_append [simp]: "writes_of (xs @ ys) = writes_of xs @ writes_of ys"
  by (induction xs rule: writes_of.induct) simp_all

lemma writes_of_none: "list_all (\<lambda>e. \<forall>off data. e \<noteq> Write_page off data) es \<Longrightarrow> writes_of es = []"
  by (induction es rule: writes_of.induct) simp_all

lemma writes_of_service:
  assumes "service_WAITLIST off data allow dealloc s d = Inr (s', d')"
  shows "writes_of (events s') = writes_of (events s)"
  using assms
proof (cases rule: service_WAITLIST_cases)
  case served
  then show ?thesis
    by (auto simp: serviced_pager_events supply_messages_def reader_supplies_def reader_supply_def
      flush_message_def list_all_iff intro!: writes_of_none)
qed simp

lemma writes_of_finish_write_page:
  "finish_write_page current i n err s = Inr (s', b) \<Longrightarrow> writes_of (events s') = writes_of (events s)"
  by (auto simp: finish_write_page_def Let_def drop_errors_of_page_def split: option.splits if_splits
    dest!: writes_of_service)

lemma writes_of_finish_writes:
  "finish_writes current xs s = Inr (s', bs) \<Longrightarrow> writes_of (events s') = writes_of (events s)"
proof (induction xs arbitrary: s bs)
  case Nil
  then show ?case by simp
next
  case (Cons x xs)
  then show ?case by (cases x) (fastforce dest: writes_of_finish_write_page)
qed

lemma writes_of_notify: "writes_of (events (notify_upcalls xs s)) = writes_of (events s)"
  by (induction xs s rule: notify_upcalls.induct) simp_all

lemma writes_of_write_upcalls:
  "write_upcalls U DATA xs s = (s', errs) \<Longrightarrow> writes_of (events s') = writes_of (events s) @
     map (\<lambda>(i, n, _). (offset_of s n, data_at s DATA i)) (filter (\<lambda>(i, n, b). b) xs)"
proof (induction xs arbitrary: s errs)
  case Nil
  then show ?case by simp
next
  case (Cons x xs)
  obtain i n b where x: "x = (i, n, b)" by (cases x) auto
  define t where "t = (if b then emit (Write_page (offset_of s n) (data_at s DATA i)) s else s)"
  have "offset_of t = offset_of s" "data_at t = data_at s"
    by (simp_all add: t_def offset_of_def data_at_def fun_eq_iff)
  moreover obtain errs' where "write_upcalls U DATA xs t = (s', errs')"
    using Cons.prems by (cases b) (auto simp: x t_def Let_def split: prod.splits)
  moreover have "writes_of (events t) = writes_of (events s) @ (if b then [(offset_of s n, data_at s DATA i)] else [])"
    by (simp add: t_def)
  ultimately show ?case using Cons.IH [of t errs'] by (simp add: x)
qed

lemma filter_flags:
  "length is = length ns \<Longrightarrow> map (\<lambda>(i, n, _). f i n) (filter (\<lambda>(i, n, b). b) (zip is (zip ns (map P ns)))) =
     map (\<lambda>(i, n). f i n) (filter (\<lambda>(i, n). P n) (zip is ns))"
  by (induction "is" ns rule: list_induct2) auto

lemma writes_of_service_first:
  assumes "service_first_WRITEWAIT_entry U s = Inr s'" and "WRITEWAIT s = e # rest"
  shows "writes_of (events s') = writes_of (events s) @ entry_writes s e"
  using assms(1)
proof (cases rule: service_first_WRITEWAIT_entry_cases)
  case (1 current rest' s1 errs s2 bs s3)
  have e: "current = e" using 1(1) assms(2) by simp
  have len: "length (page_range s (ww_OFFSET e) (ww_LENGTH e)) = npages s (ww_LENGTH e)"
    by (simp add: page_range_def)
  have "writes_of (events s') = writes_of (events s2)"
    using 1(4,5) by (auto simp: pop_WRITEWAIT_def writes_of_notify)
  also have "\<dots> = writes_of (events s1)" using writes_of_finish_writes [OF 1(3)] .
  also have "\<dots> = writes_of (events s) @ entry_writes s e"
    using writes_of_write_upcalls [OF 1(2)]
      filter_flags [of "[0 ..< npages s (ww_LENGTH e)]" "page_range s (ww_OFFSET e) (ww_LENGTH e)"
        "\<lambda>i n. (offset_of s n, data_at s (ww_DATA e) i)" "\<lambda>n. matching_page_count_on_WRITEWAIT s n = 1"]
    by (simp add: e len pageout_flags_def entry_writes_def)
  finally show ?thesis .
qed

section \<open>Page arithmetic\<close>

lemma unat_offset_of:
  "n * unat (page_size s) < 2 ^ 32 \<Longrightarrow> unat (offset_of s n) = n * unat (page_size s)"
proof -
  assume small: "n * unat (page_size s) < 2 ^ 32"
  show ?thesis
  proof (cases "page_size s = 0")
    case False
    then have "0 < unat (page_size s)" by (simp add: unat_gt_0)
    then have "n \<le> n * unat (page_size s)" by (simp add: Suc_le_eq)
    with small have "n < 2 ^ 32" by linarith
    then have "unat (of_nat n :: 32 word) = n" by (simp add: unat_of_nat)
    with small show ?thesis by (simp add: offset_of_def unat_word_ariths)
  qed (simp add: offset_of_def)
qed

lemma offset_of_eq_iff:
  assumes "page_size s \<noteq> 0" "m * unat (page_size s) < 2 ^ 32" "n * unat (page_size s) < 2 ^ 32"
  shows "offset_of s m = offset_of s n \<longleftrightarrow> m = n"
  using assms unat_offset_of [of m s] unat_offset_of [of n s]
  by (metis mult_right_cancel unat_eq_0)

lemma entry_range:
  assumes "entry_ok (page_size s) e"
  obtains k m where "unat (ww_OFFSET e) = k * unat (page_size s)" "unat (ww_LENGTH e) = m * unat (page_size s)"
    "page_of s (ww_OFFSET e) = k" "npages s (ww_LENGTH e) = m"
    "(k + m) * unat (page_size s) < 2 ^ 32"
proof -
  have "unat (ww_OFFSET e) mod unat (page_size s) = 0" "unat (ww_LENGTH e) mod unat (page_size s) = 0"
    using assms by (simp_all add: entry_ok_def flip: unat_mod_distrib)
  then obtain k m where "unat (ww_OFFSET e) = k * unat (page_size s)" "unat (ww_LENGTH e) = m * unat (page_size s)"
    by (metis mod_0_imp_dvd dvdE mult.commute)
  moreover have "0 < unat (page_size s)" using assms by (simp add: entry_ok_def unat_gt_0)
  ultimately show ?thesis
    using assms that [of k m]
    by (simp add: entry_ok_def page_of_def npages_def unat_div_distrib algebra_simps)
qed

lemma covers_page_iff:
  assumes "entry_ok (page_size s) e" and "(n + 1) * unat (page_size s) < 2 ^ 32"
  shows "covers_page s e n \<longleftrightarrow> n \<in> set (page_range s (ww_OFFSET e) (ww_LENGTH e))"
proof -
  obtain k m where e: "unat (ww_OFFSET e) = k * unat (page_size s)" "unat (ww_LENGTH e) = m * unat (page_size s)"
    "page_of s (ww_OFFSET e) = k" "npages s (ww_LENGTH e) = m" "(k + m) * unat (page_size s) < 2 ^ 32"
    using assms(1) by (rule entry_range)
  have ps: "0 < unat (page_size s)" using assms(1) by (simp add: entry_ok_def unat_gt_0)
  have "unat (ww_OFFSET e + ww_LENGTH e) = (k + m) * unat (page_size s)"
  proof -
    have "unat (ww_OFFSET e + ww_LENGTH e) = (unat (ww_OFFSET e) + unat (ww_LENGTH e)) mod 2 ^ 32"
      by (simp add: unat_word_ariths)
    also have "\<dots> = (k + m) * unat (page_size s)" using e by (simp add: add_mult_distrib)
    finally show ?thesis .
  qed
  moreover have "n * unat (page_size s) < 2 ^ 32" using assms(2) by (simp add: algebra_simps)
  then have "unat (offset_of s n) = n * unat (page_size s)" by (rule unat_offset_of)
  moreover have "unat (offset_of s (n + 1)) = (n + 1) * unat (page_size s)"
    using assms(2) by (rule unat_offset_of)
  ultimately have "covers_page s e n \<longleftrightarrow> k * unat (page_size s) \<le> n * unat (page_size s) \<and>
      (n + 1) * unat (page_size s) \<le> (k + m) * unat (page_size s)"
    by (simp only: covers_page_def word_le_nat_alt e(1))
  also have "\<dots> \<longleftrightarrow> k \<le> n \<and> n + 1 \<le> k + m" using ps by (simp only: mult_le_cancel2) auto
  finally show ?thesis using e by (auto simp: page_range_def)
qed

section \<open>The newest data is written, once\<close>

definition writes_to :: "vm_offset_t \<Rightarrow> (vm_offset_t \<times> vm_address_t) list \<Rightarrow> vm_address_t list" where
  "writes_to off ws = map snd (filter (\<lambda>w. fst w = off) ws)"

lemma writes_to_append [simp]: "writes_to off (xs @ ys) = writes_to off xs @ writes_to off ys"
  by (simp add: writes_to_def)

lemma filter_upt_single: "filter (\<lambda>i. k + i = n) [0 ..< m] = (if k \<le> n \<and> n < k + m then [n - k] else [])"
  for k n m :: nat
  by (induction m) auto

lemma zip_upt_shift: "zip [0 ..< m] [k ..< k + m] = map (\<lambda>i. (i, k + i)) [0 ..< m]"
  by (rule nth_equalityI) simp_all

lemma entry_writes_page:
  assumes ok: "entry_ok (page_size s) e" and n: "(n + 1) * unat (page_size s) < 2 ^ 32"
  shows "writes_to (offset_of s n) (entry_writes s e) =
    (if covers_page s e n \<and> matching_page_count_on_WRITEWAIT s n = 1
     then [ww_DATA e + (offset_of s n - ww_OFFSET e)] else [])"
proof -
  obtain k m where e: "unat (ww_OFFSET e) = k * unat (page_size s)" "unat (ww_LENGTH e) = m * unat (page_size s)"
    "page_of s (ww_OFFSET e) = k" "npages s (ww_LENGTH e) = m" "(k + m) * unat (page_size s) < 2 ^ 32"
    using ok by (rule entry_range)
  have ps: "page_size s \<noteq> 0" using ok by (simp add: entry_ok_def)
  have n': "n * unat (page_size s) < 2 ^ 32" using n by (simp add: algebra_simps)
  have same: "offset_of s (k + i) = offset_of s n \<longleftrightarrow> k + i = n" if "i < m" for i
  proof (rule offset_of_eq_iff [OF ps _ n'])
    have "(k + i) * unat (page_size s) \<le> (k + m) * unat (page_size s)" using that by simp
    with e(5) show "(k + i) * unat (page_size s) < 2 ^ 32" by linarith
  qed
  let ?P = "\<lambda>n. matching_page_count_on_WRITEWAIT s n = 1"
  have "writes_to (offset_of s n) (entry_writes s e) =
      map (data_at s (ww_DATA e)) (filter (\<lambda>i. offset_of s (k + i) = offset_of s n \<and> ?P (k + i)) [0 ..< m])"
    by (simp add: writes_to_def entry_writes_def e(3,4) page_range_def zip_upt_shift filter_map comp_def
      case_prod_unfold conj_commute)
  also have "filter (\<lambda>i. offset_of s (k + i) = offset_of s n \<and> ?P (k + i)) [0 ..< m] =
      (if ?P n then filter (\<lambda>i. k + i = n) [0 ..< m] else [])"
    using same by (auto intro!: filter_cong simp: filter_empty_conv)
  finally have w: "writes_to (offset_of s n) (entry_writes s e) =
      (if ?P n \<and> k \<le> n \<and> n < k + m then [data_at s (ww_DATA e) (n - k)] else [])"
    by (simp add: filter_upt_single)
  have "k * unat (page_size s) < 2 ^ 32" using e(5) by (simp add: add_mult_distrib)
  then have "unat (ww_OFFSET e) = unat (offset_of s k)" using e(1) by (simp add: unat_offset_of)
  then have "ww_OFFSET e = offset_of s k" by (rule unsigned_word_eqI)
  then have "data_at s (ww_DATA e) (n - k) = ww_DATA e + (offset_of s n - ww_OFFSET e)" if "k \<le> n"
    using that by (simp add: data_at_def offset_of_def of_nat_diff algebra_simps)
  with w show ?thesis
    using covers_page_iff [OF ok n] e(3,4) by (auto simp: page_range_def)
qed

lemma count_matching_zero: "count_matching P xs = 0 \<longleftrightarrow> (\<forall>x \<in> set xs. \<not> P x)"
  by (induction xs) auto

lemma covers_page_cong: "page_size s' = page_size s \<Longrightarrow> covers_page s' e n = covers_page s e n"
  by (simp add: covers_page_def offset_of_def)

lemma find_append:
  "List.find P (xs @ ys) = (case List.find P xs of Some x \<Rightarrow> Some x | None \<Rightarrow> List.find P ys)"
  by (induction xs) auto

lemma newest_Cons:
  "WRITEWAIT s = e # rest \<Longrightarrow> WRITEWAIT t = rest \<Longrightarrow> page_size t = page_size s \<Longrightarrow>
     newest s n = (case newest t n of Some e' \<Rightarrow> Some e'
       | None \<Rightarrow> if covers_page s e n then Some e else None)"
  by (simp add: newest_def find_append covers_page_cong [of t s] split: option.split)

lemma drain_writes:
  assumes "drain_WRITEWAIT U s = Inr s'" and "list_all (entry_ok (page_size s)) (WRITEWAIT s)"
  shows "\<exists>ws. writes_of (events s') = writes_of (events s) @ ws \<and>
    (\<forall>n. (n + 1) * unat (page_size s) < 2 ^ 32 \<longrightarrow> writes_to (offset_of s n) ws =
      (case newest s n of None \<Rightarrow> [] | Some e \<Rightarrow> [ww_DATA e + (offset_of s n - ww_OFFSET e)]))"
  using assms
proof (induction "length (WRITEWAIT s)" arbitrary: s)
  case 0
  then show ?case by (auto simp: drain_WRITEWAIT.simps [of U s] newest_def writes_to_def)
next
  case (Suc l)
  then obtain e rest where w: "WRITEWAIT s = e # rest" by (cases "WRITEWAIT s") auto
  with Suc(3) obtain t where t: "service_first_WRITEWAIT_entry U s = Inr t" "drain_WRITEWAIT U t = Inr s'"
    by (auto simp: drain_WRITEWAIT.simps [of U s])
  have f: "WRITEWAIT t = rest" "page_size t = page_size s" "offset_of t = offset_of s"
    using service_first_WRITEWAIT_entry_frame [OF t(1)] w
    by (simp_all add: same_config_def offset_of_def fun_eq_iff)
  have ok: "entry_ok (page_size s) e" "list_all (entry_ok (page_size t)) (WRITEWAIT t)"
    using Suc(4) w f by simp_all
  have "l = length (WRITEWAIT t)" using Suc(2) w f(1) by simp
  from Suc(1) [OF this t(2) ok(2)] obtain ws where ws: "writes_of (events s') = writes_of (events t) @ ws"
    "\<forall>n. (n + 1) * unat (page_size s) < 2 ^ 32 \<longrightarrow> writes_to (offset_of s n) ws =
      (case newest t n of None \<Rightarrow> [] | Some e \<Rightarrow> [ww_DATA e + (offset_of s n - ww_OFFSET e)])"
    unfolding f(2,3) by blast
  have "writes_to (offset_of s n) (entry_writes s e @ ws) =
      (case newest s n of None \<Rightarrow> [] | Some e \<Rightarrow> [ww_DATA e + (offset_of s n - ww_OFFSET e)])"
    if n: "(n + 1) * unat (page_size s) < 2 ^ 32" for n
  proof -
    have none: "newest t n = None \<longleftrightarrow> (\<forall>e \<in> set rest. \<not> covers_page s e n)"
      using f(1) covers_page_cong [OF f(2)] by (auto simp: newest_def find_None_iff)
    have "covers_page s e n \<and> matching_page_count_on_WRITEWAIT s n = 1 \<longleftrightarrow> covers_page s e n \<and> newest t n = None"
      unfolding none by (auto simp: matching_page_count_on_WRITEWAIT_def w count_matching_zero)
    then show ?thesis
      using entry_writes_page [OF ok(1) n] ws(2) n newest_Cons [OF w f(1,2), of n]
      by (auto split: option.splits)
  qed
  then show ?case using ws(1) writes_of_service_first [OF t(1) w] by auto
qed

end
