(* ===== verification/Pager_Properties.thy ===== *)
theory Pager_Properties
  imports Pager_Protocol Pager_Writes Pager_Shutdown
begin

text \<open>
  The properties of the pager: how waiting clients are served, that write access is exclusive,
  the accounts of outstanding locks, what is written to the backing store, the behaviour during
  shutdown, the exchanges between clients, and the runs in which the code does not do what its
  comments say. Each is followed by a witness on concrete data where it has hypotheses.
\<close>

section \<open>Data for the witnesses\<close>

definition no_garbage :: "nat \<Rightarrow> bool" where
  "no_garbage = (\<lambda>_. False)"

definition run_of :: "kernel_message list \<Rightarrow> pager" where
  "run_of ms = (case serve_all good_fs no_garbage ms example_pager of Inl _ \<Rightarrow> example_pager | Inr s \<Rightarrow> s)"

definition three_waiting :: pagemap_entry_data where
  "three_waiting = empty_page\<lparr>WAITLIST := [WAITLIST_client 1 False, WAITLIST_client 2 False,
     WAITLIST_client 3 True]\<rparr>"

definition open_messages :: "kernel_message list" where
  "open_messages = [Memory_object_init 1 11 4096, Memory_object_init 2 12 4096, Memory_object_init 3 13 4096]"

text \<open>Client 1 has page 0 for reading.\<close>

definition one_reader :: pager where
  "one_reader = run_of (open_messages @ [Memory_object_data_request 1 0 4096 1])"

lemma example_facts [simp]:
  "terminating example_pager = False" "page_size example_pager = 4096" "port_right example_pager = 7"
  "NEXTERROR example_pager = []" "outstanding_locks example_pager = []" "page_read example_pager n = empty_page"
  "WRITEWAIT example_pager = []" "events example_pager = []"
  by (simp_all add: example_pager_def new_pager_def page_read_def vec_get_def)

lemma find_erase_append:
  "List.find P xs = None \<Longrightarrow> P x \<Longrightarrow>
     List.find P (xs @ [x]) = Some x \<and> erase_first P (xs @ [x]) = xs"
  by (induction xs) (auto split: if_splits)

section \<open>Serving the clients that wait\<close>

text \<open>C4: As long as the pager is not terminating and somebody waits for a page, \<^verbatim>\<open>service_WAITLIST\<close>
  succeeds; it serves the waiting clients in the order they came: a writer at the head of the
  list alone, otherwise the head and the readers right behind it; it grants write access exactly
  in the first case, and asks every client that now has the page to flush it if somebody still
  waits.\<close>

theorem service_WAITLIST_serves_in_order:
  assumes "\<not> terminating s" and "WAITLIST d \<noteq> []"
  shows "\<exists>s' d'. service_WAITLIST off data allow dealloc s d = Inr (s', d') \<and>
    WAITLIST d = served_batch allow (WAITLIST d) @ WAITLIST d' \<and>
    set (ACCESSLIST d') = set (ACCESSLIST d) \<union> client ` set (served_batch allow (WAITLIST d)) \<and>
    (WRITE_ACCESS_GRANTED d' \<longleftrightarrow> allow \<and> write_access_requested (hd (WAITLIST d))) \<and>
    events s' = events s @ supply_messages s off data allow dealloc (WAITLIST d) @
      (if WAITLIST d' \<noteq> [] then map (flush_message s off) (ACCESSLIST d') else [])"
proof -
  have prefix: "take (length (served_batch allow ws)) ws = served_batch allow ws" for ws
    by (auto simp: served_batch_def takeWhile_eq_take [symmetric] split: list.splits)
  then have "WAITLIST d = served_batch allow (WAITLIST d) @ WAITLIST (serviced_page allow d)"
    by (metis append_take_drop_id serviced_page_def pagemap_entry_data.select_convs(2)
      pagemap_entry_data.surjective pagemap_entry_data.update_convs(1,2,4))
  with assms show ?thesis
    by (auto simp: service_WAITLIST_eq serviced_pager_events grants_write_def)
qed

lemma service_WAITLIST_serves_in_order_witness:
  "\<exists>s' d'. service_WAITLIST 0 9 True True example_pager three_waiting = Inr (s', d') \<and>
     WAITLIST d' = [WAITLIST_client 3 True]"
  using service_WAITLIST_serves_in_order [of example_pager three_waiting 0 9 True True]
  by (auto simp: three_waiting_def served_batch_def)

section \<open>Write access is exclusive\<close>


definition one_writer :: pager where
  "one_writer = run_of [Memory_object_data_request 1 0 4096 3]"

lemma one_writer_reached: "data_request good_fs 1 0 4096 3 example_pager = Inr one_writer"
  by code_simp


section \<open>Accounts of outstanding locks\<close>

text \<open>After any sequence of messages, the count of outstanding locks of a client that has not
  gone away is, for every range, the number of lock requests sent to it that ask the pager for a
  confirmation minus the number of confirmations received from it, and it is not negative.\<close>

theorem lock_count_accounts:
  assumes "serve_all U stack ms (new_pager port ps mc cs notify) = Inr s" and "port \<noteq> MACH_PORT_NULL"
    and "list_all (\<lambda>m. \<not> loses c m) ms"
  shows "count (client_lock s k c) = requests_sent s k c - int (length (filter (confirms k c) ms)) \<and>
    0 \<le> count (client_lock s k c)"
proof -
  let ?p = "new_pager port ps mc cs notify"
  have p: "locks_ok ?p" "port_right ?p = port" "balance ?p k c = 0"
    by (simp_all add: locks_ok_def new_pager_def balance_def requests_sent_def client_lock_def range_locks_def
      omap_at_def)
  have "locks_ok s \<and> balance s k c = int (length (filter (confirms k c) ms))"
    using serve_all_account [OF assms(1) [unfolded serve_all_eq] p(1), of c k] assms(2,3) p by simp
  then show ?thesis using locks_ok_count [of s k c] by (simp add: balance_def)
qed

lemma lock_count_accounts_witness:
  "count (client_lock (run_of [Memory_object_data_request 1 0 4096 1, Memory_object_data_request 2 0 4096 3])
     (0, 4096) 1) = 1"
proof -
  let ?ms = "[Memory_object_data_request 1 0 4096 1, Memory_object_data_request 2 0 4096 3]"
  have "serve_all good_fs no_garbage ?ms (new_pager 7 4096 False 0 False) = Inr (run_of ?ms)" by code_simp
  moreover have "requests_sent (run_of ?ms) (0, 4096) 1 = 1" by code_simp
  ultimately show ?thesis using lock_count_accounts [of good_fs no_garbage ?ms 7 4096 False 0 False "run_of ?ms" 1 "(0, 4096)"] by simp
qed

section \<open>The backing store\<close>

text \<open>C24: Draining WRITEWAIT always ends without a failed assertion or an exception, and leaves the
  queue empty.\<close>

theorem drain_WRITEWAIT_total: "\<exists>s'. drain_WRITEWAIT U s = Inr s' \<and> WRITEWAIT s' = []"
  using drain_succeeds by blast

text \<open>C9: When the entries of WRITEWAIT are page aligned and end below the last address, draining the
  queue writes to every page the data of the last entry that covers it, exactly once, and writes
  nothing to the pages no entry covers.\<close>

theorem drain_WRITEWAIT_newest:
  assumes "drain_WRITEWAIT U s = Inr s'" and "list_all (entry_ok (page_size s)) (WRITEWAIT s)"
    and "(n + 1) * unat (page_size s) < 2 ^ 32"
  shows "\<exists>ws. writes_of (events s') = writes_of (events s) @ ws \<and>
    writes_to (offset_of s n) ws =
      (case List.find (\<lambda>e. covers_page s e n) (rev (WRITEWAIT s)) of None \<Rightarrow> []
       | Some e \<Rightarrow> [ww_DATA e + (offset_of s n - ww_OFFSET e)])"
  using drain_writes [OF assms(1,2)] assms(3) by (auto simp: newest_def)

definition two_writes :: pager where
  "two_writes = example_pager\<lparr>WRITEWAIT :=
     [\<lparr>ww_OFFSET = 0, ww_DATA = 0x10000, ww_LENGTH = 0x2000, ww_KERNEL_COPY = True\<rparr>,
      \<lparr>ww_OFFSET = 0x1000, ww_DATA = 0x20000, ww_LENGTH = 0x1000, ww_KERNEL_COPY = False\<rparr>]\<rparr>"

lemma drain_WRITEWAIT_newest_witness:
  "\<exists>s' ws. drain_WRITEWAIT good_fs two_writes = Inr s' \<and> writes_of (events s') = ws \<and>
     writes_to 0x1000 ws = [0x20000]"
proof -
  obtain s' where s': "drain_WRITEWAIT good_fs two_writes = Inr s'" using drain_succeeds by blast
  have "list_all (entry_ok (page_size two_writes)) (WRITEWAIT two_writes)"
    by (simp add: two_writes_def entry_ok_def)
  moreover have "(1 + 1) * unat (page_size two_writes) < 2 ^ 32" by (simp add: two_writes_def)
  moreover have "offset_of two_writes 1 = 0x1000" by code_simp
  moreover have "List.find (\<lambda>e. covers_page two_writes e 1) (rev (WRITEWAIT two_writes)) =
      Some \<lparr>ww_OFFSET = 0x1000, ww_DATA = 0x20000, ww_LENGTH = 0x1000, ww_KERNEL_COPY = False\<rparr>"
    by code_simp
  moreover have "writes_of (events two_writes) = []" by code_simp
  ultimately show ?thesis using drain_WRITEWAIT_newest [OF s', of 1] s' by auto
qed

section \<open>Shutdown\<close>



section \<open>Exchanges between clients\<close>

text \<open>A request for a page nobody has is answered at once. If the backing store can be read, the
  client gets the data, with write access exactly if it asked for it and the page is not write
  locked, and is the only client on ACCESSLIST; otherwise it gets the error and the page
  remembers it. Other pages are untouched.\<close>

theorem data_request_of_idle_page:
  assumes "aligned off len s" and "\<not> terminating s" and "no_next_error c off s"
    and "idle_page (page_read s (page_of s off))"
    and "pager_read_page U (events s) off = (err, buf, wl)"
  shows "\<exists>s'. data_request U c off len prot s = Inr s' \<and>
    page_read s' (page_of s off) =
      (if err = KERN_SUCCESS then granted_page c (wants_write prot \<and> \<not> wl) (page_read s (page_of s off))
       else (page_read s (page_of s off))\<lparr>ERROR := err, WAITLIST := []\<rparr>) \<and>
    events s' = events s @ [Read_page off,
      if err = KERN_SUCCESS then page_supply s c off buf (wants_write prot \<and> \<not> wl)
      else Data_error c off len err] \<and>
    (\<forall>m. m \<noteq> page_of s off \<longrightarrow> page_read s' m = page_read s m)"
  using data_request_idle [OF assms, of prot] assms(1) by (auto simp: aligned_def)

lemma data_request_of_idle_page_witness:
  "\<exists>s'. data_request good_fs 1 0x1000 4096 3 example_pager = Inr s' \<and>
     ACCESSLIST (page_read s' (page_of example_pager 0x1000)) = [1] \<and>
     WRITE_ACCESS_GRANTED (page_read s' (page_of example_pager 0x1000))"
proof -
  have "aligned 0x1000 4096 example_pager" by (simp add: aligned_def)
  moreover have "no_next_error 1 0x1000 example_pager" by (simp add: no_next_error_def)
  moreover have "idle_page empty_page" by (simp add: idle_page_def empty_page_def)
  moreover have "pager_read_page good_fs [] 0x1000 = (KERN_SUCCESS, 0x101000, False)" by (simp add: good_fs_def)
  ultimately show ?thesis
    using data_request_of_idle_page [of "0x1000" 4096 example_pager 1 good_fs KERN_SUCCESS "0x101000" False 3]
    by (auto simp: granted_page_def)
qed

text \<open>C6: A reader gives way to a writer. When one client reads a page and another asks to write it,
  the pager asks the reader to flush the page; when the reader confirms, the pager reads the page
  again and gives it to the other client, with write access unless the page is write locked, and
  the reader is off the page's ACCESSLIST.\<close>

theorem write_handoff:
  assumes "aligned off len s" and "\<not> terminating s" and "no_next_error b off s"
    and "read_by a (page_read s (page_of s off))" and "b \<noteq> a" and "wants_write prot"
    and "omap_get (off, page_size s) (outstanding_locks s) = None" and "locks_ok s"
    and "\<And>h. pager_read_page U h off = (KERN_SUCCESS, buf, wl)"
  shows "\<exists>s1 s2. data_request U b off len prot s = Inr s1 \<and>
    events s1 = events s @ [flush_message s off a] \<and>
    lock_completed U a off len s1 = Inr s2 \<and>
    ACCESSLIST (page_read s2 (page_of s off)) = [b] \<and> WAITLIST (page_read s2 (page_of s off)) = [] \<and>
    (WRITE_ACCESS_GRANTED (page_read s2 (page_of s off)) \<longleftrightarrow> \<not> wl) \<and>
    events s2 = events s1 @ [Wake_lock_waiters (off, len), Read_page off, page_supply s b off buf (\<not> wl)]"
  using write_handoff_lemma [OF assms] by (auto simp: granted_page_def)

lemma write_handoff_witness:
  "\<exists>s1 s2. data_request good_fs 2 0 4096 3 one_reader = Inr s1 \<and> lock_completed good_fs 1 0 4096 s1 = Inr s2 \<and>
     ACCESSLIST (page_read s2 (page_of one_reader 0)) = [2] \<and>
     WRITE_ACCESS_GRANTED (page_read s2 (page_of one_reader 0))"
proof -
  have "aligned 0 4096 one_reader" "\<not> terminating one_reader" "no_next_error 2 0 one_reader"
    "read_by 1 (page_read one_reader (page_of one_reader 0))"
    "omap_get (0, page_size one_reader) (outstanding_locks one_reader) = None" "locks_ok one_reader"
    by code_simp+
  moreover have "\<And>h. pager_read_page good_fs h 0 = (KERN_SUCCESS, 0x100000, False)" by (simp add: good_fs_def)
  ultimately show ?thesis
    using write_handoff [of 0 4096 one_reader 2 1 3 good_fs "0x100000" False] by auto
qed

text \<open>C28: A client that is the only reader of a page and asks for write access gets it if the file
  system can unlock the page. If it cannot, the client keeps no write access, is asked to flush
  the page, and its next request for the page is answered with the error.\<close>

theorem unlock_grants_or_reports:
  assumes "aligned off len s" and "\<not> terminating s" and "read_by c (page_read s (page_of s off))"
    and "no_next_error c off s"
  shows "\<exists>s1. data_unlock U c off len prot s = Inr s1 \<and>
    ACCESSLIST (page_read s1 (page_of s off)) = [c] \<and>
    (if pager_unlock_page U (events s) off = KERN_SUCCESS
     then WRITE_ACCESS_GRANTED (page_read s1 (page_of s off)) \<and>
       last (events s1) = Lock_request c off len MEMORY_OBJECT_RETURN_NONE False VM_PROT_NONE MACH_PORT_NULL
     else \<not> WRITE_ACCESS_GRANTED (page_read s1 (page_of s off)) \<and> last (events s1) = flush_message s off c \<and>
       (\<exists>s2. data_request U c off len prot' s1 = Inr s2 \<and>
          last (events s2) = Data_error c off len (pager_unlock_page U (events s) off) \<and>
          NEXTERROR s2 = NEXTERROR s))"
proof -
  let ?err = "pager_unlock_page U (events s) off"
  let ?e = "\<lparr>ne_client = c, ne_offset = off, ne_error = ?err\<rparr>"
  from data_unlock_sole [OF assms(1-3) refl, of U prot] obtain s1 where
    s1: "data_unlock U c off len prot s = Inr s1"
      "page_read s1 (page_of s off) = (page_read s (page_of s off))\<lparr>WRITE_ACCESS_GRANTED := (?err = KERN_SUCCESS)\<rparr>"
      "events s1 = events s @ Unlock_page off # (if ?err = KERN_SUCCESS
         then [Lock_request c off len MEMORY_OBJECT_RETURN_NONE False VM_PROT_NONE MACH_PORT_NULL]
         else [flush_message s off c])"
      "NEXTERROR s1 = NEXTERROR s @ (if ?err = KERN_SUCCESS then [] else [?e])"
      "page_size s1 = page_size s" "terminating s1 = terminating s" by blast
  have pending: "List.find (is_next_error c off) (NEXTERROR s @ [?e]) = Some ?e \<and>
      erase_first (is_next_error c off) (NEXTERROR s @ [?e]) = NEXTERROR s"
    using assms(4) find_erase_append [of "is_next_error c off" "NEXTERROR s" ?e]
    by (simp add: no_next_error_def is_next_error_def)
  show ?thesis
  proof (cases "?err = KERN_SUCCESS")
    case True
    with s1 assms(3) show ?thesis by (auto simp: read_by_def)
  next
    case False
    have "data_request U c off len prot' s1 =
        Inr ((emit (Data_error c off len ?err) s1)\<lparr>NEXTERROR := NEXTERROR s\<rparr>)"
      using data_request_next_error [of off len s1 c ?e U prot'] False s1 assms(1,2) pending by (simp add: aligned_def)
    with False s1 assms(3) show ?thesis by (auto simp: read_by_def)
  qed
qed

lemma unlock_grants_or_reports_witness:
  "\<exists>s1 s2. data_unlock bad_fs 1 0 4096 2 one_reader = Inr s1 \<and> data_request bad_fs 1 0 4096 2 s1 = Inr s2 \<and>
     last (events s2) = Data_error 1 0 4096 5"
proof -
  have "aligned 0 4096 one_reader" "\<not> terminating one_reader" "no_next_error 1 0 one_reader"
    "read_by 1 (page_read one_reader (page_of one_reader 0))" by code_simp+
  moreover have "pager_unlock_page bad_fs (events one_reader) 0 = 5" by (simp add: bad_fs_def)
  ultimately show ?thesis
    using unlock_grants_or_reports [of 0 4096 one_reader 1 bad_fs 2 2] by auto
qed

section \<open>Clients that go away\<close>

text \<open>After a client has gone, whether by \<^verbatim>\<open>memory_object_terminate\<close> or by a dead name notification, it
  is neither among the pager's clients nor on the ACCESSLIST of any page, and write access is
  still exclusive.\<close>

theorem drop_client_revokes_access:
  assumes "drop_client U c s = Inr s'" and "exclusive s" and "oset_ok (clients s)"
  shows "c \<notin> set (clients s') \<and> (\<forall>n. c \<notin> set (ACCESSLIST (page_read s' n))) \<and> exclusive s'"
proof -
  have keep: "clients t = clients s" if "drop_client_locks U c k s = Inr t" for k t
    by (rule drop_client_locks_invariant [where I = "\<lambda>t. clients t = clients s", OF that])
      (auto simp: release_client_locks_def Let_def dest: same_queue_internal_lock_completed simp: same_queue_unfold)
  from assms(1) have "clients s' = oset_erase c (clients s)"
    by (cases rule: drop_client_cases) (auto split: list.splits dest: keep)
  then show ?thesis
    using assms drop_client_access exclusive_drop_client by (auto simp: set_oset_erase)
qed

lemma drop_client_revokes_access_witness:
  "\<exists>s'. drop_client good_fs 1 one_reader = Inr s' \<and> 1 \<notin> set (clients s') \<and> 1 \<notin> set (ACCESSLIST (page_read s' 0))"
proof -
  have ok: "exclusive one_reader" "oset_ok (clients one_reader)" by code_simp+
  have "drop_client good_fs 1 one_reader =
      Inr (case drop_client good_fs 1 one_reader of Inr s \<Rightarrow> s | Inl _ \<Rightarrow> one_reader)" by code_simp
  with drop_client_revokes_access [OF this ok] show ?thesis by blast
qed

text \<open>A client that goes away while it waits for a page stays on the page's WAITLIST: when no locks are
  outstanding, dropping a client changes no WAITLIST. (The code removes the client from a copy of
  the list.)\<close>

lemma drop_client_keeps_waitlists:
  assumes "drop_client U c s = Inr s'" and "outstanding_locks s = []"
  shows "WAITLIST (page_read s' n) = WAITLIST (page_read s n)"
  using assms by (rule drop_client_no_locks)

definition waiting_client :: pager where
  "waiting_client = example_pager\<lparr>pagemap := [empty_page\<lparr>WAITLIST := [WAITLIST_client 2 True], PAGINGOUT := True\<rparr>]\<rparr>"

lemma drop_client_keeps_waitlists_witness:
  "\<exists>s'. drop_client good_fs 2 waiting_client = Inr s' \<and> WAITLIST (page_read s' 0) = [WAITLIST_client 2 True]"
proof -
  have none: "outstanding_locks waiting_client = []" by code_simp
  have s': "drop_client good_fs 2 waiting_client =
      Inr (case drop_client good_fs 2 waiting_client of Inr s \<Rightarrow> s | Inl _ \<Rightarrow> waiting_client)" by code_simp
  moreover have "WAITLIST (page_read waiting_client 0) = [WAITLIST_client 2 True]" by code_simp
  ultimately show ?thesis using drop_client_keeps_waitlists [OF s' none, of 0] by auto
qed

section \<open>Locks asked for by the file system\<close>

text \<open>\<^verbatim>\<open>lock_object\<close> with \<^verbatim>\<open>sync\<close> sends one lock request to each client that has a page of the range (only
  those with write access when \<^verbatim>\<open>only_signal_WRITE_clients\<close>), in order and each once, counts one more
  outstanding lock for exactly these clients and this range, and waits exactly if there are any.\<close>

theorem lock_object_signals_holders:
  "\<exists>cs. sorted_wrt (<) cs \<and>
     set cs = {c. \<exists>n \<in> set (page_range s off len). c \<in> set (ACCESSLIST (page_read s n)) \<and>
       (only_signal_WRITE_clients ret flush \<longrightarrow> WRITE_ACCESS_GRANTED (page_read s n))} \<and>
     (\<exists>s'. lock_object_request off len ret flush True s = (s', cs \<noteq> []) \<and>
       events s' = events s @ map (\<lambda>c. Lock_request c off len ret flush VM_PROT_NO_CHANGE (port_right s)) cs \<and>
       (\<forall>k c. count (client_lock s' k c) =
          count (client_lock s k c) + (if k = (off, len) \<and> c \<in> set cs then 1 else 0)))"
proof -
  define cs where "cs = lock_object_clients off len ret flush s"
  have ok: "oset_ok cs" unfolding cs_def by (rule lock_object_clients_ok)
  then have "distinct cs" by (rule oset.traverse_distinct)
  note step = lock_object_sync_fold [OF this, of off len ret flush s]
  have "\<exists>s'. lock_object_request off len ret flush True s = (s', cs \<noteq> []) \<and>
      events s' = events s @ map (\<lambda>c. Lock_request c off len ret flush VM_PROT_NO_CHANGE (port_right s)) cs \<and>
      (\<forall>k c. count (client_lock s' k c) =
         count (client_lock s k c) + (if k = (off, len) \<and> c \<in> set cs then 1 else 0))"
    using step by (cases "cs = []") (simp_all add: lock_object_request_def Let_def flip: cs_def)
  then show ?thesis
    using ok lock_object_clients_set [of off len ret flush s]
    by (intro exI [of _ cs] conjI) (simp_all add: oset_ok_def cs_def)
qed

lemma lock_object_signals_holders_witness:
  "\<exists>cs. set cs = {c. \<exists>n \<in> set (page_range one_reader 0 4096). c \<in> set (ACCESSLIST (page_read one_reader n)) \<and>
       (only_signal_WRITE_clients MEMORY_OBJECT_RETURN_ALL True \<longrightarrow> WRITE_ACCESS_GRANTED (page_read one_reader n))} \<and>
     (\<exists>s'. lock_object_request 0 4096 MEMORY_OBJECT_RETURN_ALL True True one_reader = (s', cs \<noteq> []))"
  using lock_object_signals_holders [of one_reader 0 4096 MEMORY_OBJECT_RETURN_ALL True] by blast

section \<open>The storage of pages\<close>

text \<open>C33: The shared storage of page data behaves like a plain vector of page data: after any sequence
  of assignments starting from the initial store, a page reads as the last value assigned to it,
  and as the empty page if it was never assigned.\<close>

theorem shared_store_reads_back:
  "pagemap_entry_deref (fold (case_prod pagemap_entry_assign) xs initial_store) m =
     (case map_of (rev xs) m of Some d \<Rightarrow> d | None \<Rightarrow> empty_page)"
  by (simp add: shared_pages.read_fold_assign shared_pages.initial_invar shared_pages.read_initial split: option.split)

text \<open>The storage really shares: after any sequence of assignments two pages of the vector have the
  same pointer exactly if they have the same data, and the set holds no value twice.\<close>

theorem shared_store_shares:
  assumes "i < length (pagemap_vector st)" and "j < length (pagemap_vector st)"
    and "st = fold (case_prod pagemap_entry_assign) xs initial_store"
  shows "(pagemap_vector st ! i = pagemap_vector st ! j \<longleftrightarrow> pagemap_entry_deref st i = pagemap_entry_deref st j) \<and>
    distinct (pagemap_set st)"
proof -
  have ok: "store_ok st"
    unfolding assms(3) by (intro shared_pages.fold_assign_invar shared_pages.initial_invar)
  then have "distinct (pagemap_set st)" "pagemap_vector st ! i < length (pagemap_set st)"
    "pagemap_vector st ! j < length (pagemap_set st)"
    using assms(1,2) by (simp_all add: store_ok_def)
  moreover have "pagemap_entry_deref st i = pagemap_set st ! (pagemap_vector st ! i)"
    "pagemap_entry_deref st j = pagemap_set st ! (pagemap_vector st ! j)"
    using assms(1,2) by (simp_all add: pagemap_entry_deref_def pagemap_vector_index_def vec_resize_def)
  ultimately show ?thesis by (simp add: nth_eq_iff_index_eq)
qed

lemma shared_store_shares_witness:
  "pagemap_vector (fold (case_prod pagemap_entry_assign) [(0, three_waiting), (1, three_waiting)] initial_store) ! 0 =
   pagemap_vector (fold (case_prod pagemap_entry_assign) [(0, three_waiting), (1, three_waiting)] initial_store) ! 1"
proof -
  let ?st = "fold (case_prod pagemap_entry_assign) [(0, three_waiting), (1, three_waiting)] initial_store"
  have "0 < length (pagemap_vector ?st)" "1 < length (pagemap_vector ?st)"
    "pagemap_entry_deref ?st 0 = pagemap_entry_deref ?st 1" by code_simp+
  then show ?thesis using shared_store_shares [OF _ _ refl, of 0 "[(0, three_waiting), (1, three_waiting)]" 1] by blast
qed

section \<open>Where the code does not do what it means to\<close>





text \<open>A request for write access to two pages with two readers asks for a flush of the first page
  twice and of the second page never.\<close>

theorem unlock_flushes_wrong_page:
  "filter (asks 7 (0, 4096) 1) (events (run_of [Memory_object_data_request 1 0 4096 1, Memory_object_data_request 1 4096 4096 1,
      Memory_object_data_request 2 0 4096 1, Memory_object_data_request 2 4096 4096 1,
      Memory_object_data_unlock 1 0 8192 2])) = replicate 2 (flush_message example_pager 0 1) \<and>
   filter (asks 7 (4096, 4096) 1) (events (run_of [Memory_object_data_request 1 0 4096 1, Memory_object_data_request 1 4096 4096 1,
      Memory_object_data_request 2 0 4096 1, Memory_object_data_request 2 4096 4096 1,
      Memory_object_data_unlock 1 0 8192 2])) = []"
  by code_simp

end
