(* ===== verification/Pager_Thread_Properties.thy ===== *)
theory Pager_Thread_Properties
  imports Pager_Thread_Locks Pager_Properties
begin

text \<open>
  The properties of the pager when several threads use it: a handler that is not interrupted is the
  handler of the sequential model, write access is exclusive and the accounts of locks are right at
  every point of an interleaved run, and what the missing lock in \<^verbatim>\<open>pager::shutdown\<close> allows.
\<close>

section \<open>Handlers without interruption\<close>


section \<open>Invariants at every point\<close>


definition asked_page :: pager where
  "asked_page = (case start no_garbage (Memory_object_data_request 1 0 4096 3) example_pager of
     Inr (s, _) \<Rightarrow> s | Inl _ \<Rightarrow> example_pager)"

lemma threads_request:
  "threads good_fs write_race_free example_pager [Memory_object_data_request 1 0 4096 3] one_writer []"
proof -
  let ?ms = "[Memory_object_data_request 1 0 4096 3]"
  have "start no_garbage (hd ?ms) example_pager = Inr (asked_page, [Read_call 0])" by code_simp
  with threads.receive [OF threads.initial [of good_fs write_race_free example_pager] this]
  have 1: "threads good_fs write_race_free example_pager ?ms asked_page [Read_call 0]" by simp
  have "exec good_fs (Read_call 0) asked_page =
      Inr (emit (Read_page 0) asked_page, [Supply 0 KERN_SUCCESS 0x100000 False])" by code_simp
  from threads.work [OF 1 _ this]
  have 2: "threads good_fs write_race_free example_pager ?ms (emit (Read_page 0) asked_page) [Supply 0 KERN_SUCCESS 0x100000 False]"
    by simp
  have "exec good_fs (Supply 0 KERN_SUCCESS 0x100000 False) (emit (Read_page 0) asked_page) = Inr (one_writer, [])" by code_simp
  from threads.work [OF 2 _ this] show ?thesis by simp
qed


text \<open>C12: At every point of such a run, whatever the order of the steps, the count of outstanding locks of
  a client that has not gone away is for every range the number of lock requests sent to it, by the
  handlers and by the threads of the file system, that ask the pager for a confirmation, minus the
  number of confirmations whose handling has begun.\<close>

theorem lock_count_accounts_threads:
  assumes "threads U G (new_pager port ps mc cs notify) ms s ts" and "port \<noteq> MACH_PORT_NULL"
    and "list_all (\<lambda>m. \<not> loses c m) ms"
  shows "count (client_lock s k c) = requests_sent s k c - int (length (filter (confirms k c) ms)) \<and>
    0 \<le> count (client_lock s k c)"
proof -
  let ?p = "new_pager port ps mc cs notify"
  have p: "locks_ok ?p" "port_right ?p = port" "balance ?p k c = 0"
    by (simp_all add: locks_ok_def new_pager_def balance_def requests_sent_def client_lock_def range_locks_def
      omap_at_def)
  have "locks_ok s \<and> balance s k c = int (length (filter (confirms k c) ms))"
    using threads_account [OF assms(1) p(1) _ assms(3)] assms(2) p by (cases k) (simp add: accounted_def)
  then show ?thesis using locks_ok_count [of s k c] by (simp add: balance_def)
qed

definition locked_writer :: pager where
  "locked_writer = fst (lock_object_request 0 4096 MEMORY_OBJECT_RETURN_ALL True True one_writer)"

lemma lock_count_accounts_threads_witness: "count (client_lock locked_writer (0, 4096) 1) = 1"
proof -
  let ?ms = "[Memory_object_data_request 1 0 4096 3]"
  have "lock_object_request 0 4096 MEMORY_OBJECT_RETURN_ALL True True one_writer = (locked_writer, True)" by code_simp
  with threads.lock_object [OF threads_request _ this]
  have "threads good_fs write_race_free (new_pager 7 4096 False 0 False) ?ms locked_writer []"
    by (simp add: unlocked_def example_pager_def)
  moreover have "requests_sent locked_writer (0, 4096) 1 = 1" by code_simp
  ultimately show ?thesis
    using lock_count_accounts_threads [of good_fs write_race_free 7 4096 False 0 False ?ms locked_writer "[]" 1 "(0, 4096)"]
    by simp
qed

section \<open>Shutdown while a handler runs\<close>

definition unlocking_reader :: pager where
  "unlocking_reader = (case start no_garbage (Memory_object_data_unlock 1 0 4096 2) one_reader of
     Inr (s, _) \<Rightarrow> s | Inl _ \<Rightarrow> one_reader)"

text \<open>C32: \<^verbatim>\<open>pager::shutdown\<close> sets \<^verbatim>\<open>terminating\<close> without the lock. There is a run in which it does so while the worker
  calls \<^verbatim>\<open>pager_unlock_page\<close> for a client: the worker then grants the client write access and tells its
  kernel so, although the pager is terminating, while the same message served after the shutdown changes
  nothing.\<close>

theorem shutdown_during_unlock_grants:
  "\<exists>s s'. threads good_fs (\<lambda>_ _. True) one_reader [Memory_object_data_unlock 1 0 4096 2] s [Unlock_finish [(0, Some KERN_SUCCESS)]] \<and>
     terminating s \<and>
     threads good_fs (\<lambda>_ _. True) one_reader [Memory_object_data_unlock 1 0 4096 2] s' [] \<and> terminating s' \<and>
     events s' = events s @ [Lock_request 1 0 4096 MEMORY_OBJECT_RETURN_NONE False VM_PROT_NONE MACH_PORT_NULL] \<and>
     \<not> WRITE_ACCESS_GRANTED (page_read s 0) \<and> WRITE_ACCESS_GRANTED (page_read s' 0) \<and>
     method_of good_fs stack (Memory_object_data_unlock 1 0 4096 2) (one_reader\<lparr>terminating := True\<rparr>) =
       Inr (one_reader\<lparr>terminating := True\<rparr>)"
proof -
  let ?m = "Memory_object_data_unlock 1 0 4096 2" and ?T = "threads good_fs (\<lambda>_ _. True) one_reader [Memory_object_data_unlock 1 0 4096 2]"
  let ?s = "(emit (Unlock_page 0) unlocking_reader)\<lparr>terminating := True\<rparr>"
  let ?s' = "case exec good_fs (Unlock_finish [(0, Some KERN_SUCCESS)]) ?s of Inr (t, _) \<Rightarrow> t | Inl _ \<Rightarrow> ?s"
  have "start no_garbage ?m one_reader = Inr (unlocking_reader, [Unlock_calls [(0, True)] []])" by code_simp
  from threads.receive [OF threads.initial [of good_fs "\<lambda>_ _. True" one_reader] this]
  have 1: "?T unlocking_reader [Unlock_calls [(0, True)] []]" by simp
  have "exec good_fs (Unlock_calls [(0, True)] []) unlocking_reader =
      Inr (emit (Unlock_page 0) unlocking_reader, [Unlock_calls [] [(0, Some KERN_SUCCESS)]])" by code_simp
  from threads.stop [OF threads.work [OF 1 _ this]]
  have 2: "?T ?s [Unlock_calls [] [(0, Some KERN_SUCCESS)]]" by simp
  have "exec good_fs (Unlock_calls [] [(0, Some KERN_SUCCESS)]) ?s = Inr (?s, [Unlock_finish [(0, Some KERN_SUCCESS)]])" by simp
  from threads.work [OF 2 _ this] have 3: "?T ?s [Unlock_finish [(0, Some KERN_SUCCESS)]]" by simp
  have "exec good_fs (Unlock_finish [(0, Some KERN_SUCCESS)]) ?s = Inr (?s', [])" by code_simp
  from threads.work [OF 3 _ this] have 4: "?T ?s' []" by simp
  have "terminating ?s'" "events ?s' = events ?s @ [Lock_request 1 0 4096 MEMORY_OBJECT_RETURN_NONE False VM_PROT_NONE MACH_PORT_NULL]"
    "\<not> WRITE_ACCESS_GRANTED (page_read ?s 0)" "WRITE_ACCESS_GRANTED (page_read ?s' 0)" by code_simp+
  moreover have "page_size one_reader = 4096" by code_simp
  then have "method_of good_fs stack ?m (one_reader\<lparr>terminating := True\<rparr>) = Inr (one_reader\<lparr>terminating := True\<rparr>)"
    by (simp add: data_unlock_def)
  ultimately show ?thesis using 3 4 by (intro exI [of _ ?s] exI [of _ ?s']) simp
qed

end
