(* ===== verification/Pager_Memcpy.thy ===== *)
theory Pager_Memcpy
  imports Mach_Types
begin

text \<open>
  \<open>src/libpager/pager-memcpy.c\<close>: copying between a buffer of the task and a memory object, through
  windows onto the object, with \<^verbatim>\<open>vm_copy\<close> for long aligned stretches and \<^verbatim>\<open>memcpy\<close> for the rest. A
  page of the object that cannot be supplied makes \<^verbatim>\<open>memcpy\<close> fault; the handler \<^verbatim>\<open>fault\<close> then
  leaves the copy by \<^verbatim>\<open>siglongjmp\<close>.

  \<^item> Numbers are \<open>int\<close>, and \<open>wrap\<close> marks where C computes modulo \<open>2 ^ 32\<close>.
  \<^item> \<open>copy_state\<close> holds the variables the nested functions share, the memory of the task and the
    contents of the object. A window is transparent: reading or writing it reads or writes the
    object.
  \<^item> \<open>copy_env\<close> are the answers of the kernel and the pager, which are not in this file: errors of
    \<^verbatim>\<open>vm_map\<close> and \<^verbatim>\<open>vm_copy\<close>, the bytes of the object whose access faults, and the error that
    \<^verbatim>\<open>pager_get_error\<close> reports for an offset.
\<close>

definition vm_page_size :: int where "vm_page_size = 4096"

definition wrap :: "int \<Rightarrow> int" where "wrap x = x mod 2 ^ 32"

definition round_page :: "int \<Rightarrow> int" where
  "round_page x = wrap (x + vm_page_size - 1) div vm_page_size * vm_page_size"

definition page_offset :: "int \<Rightarrow> int" where "page_offset x = x mod vm_page_size"

definition VMCOPY_BETTER_THAN_MEMCPY :: int where "VMCOPY_BETTER_THAN_MEMCPY = 8 * vm_page_size"
definition VMCOPY_WINDOW_DEFAULT_SIZE :: int where "VMCOPY_WINDOW_DEFAULT_SIZE = 32 * vm_page_size"
definition MEMCPY_WINDOW_DEFAULT_SIZE :: int where "MEMCPY_WINDOW_DEFAULT_SIZE = 32 * vm_page_size"

datatype direction = From_pager | Into_pager

record copy_state =
  offset :: int
  other :: int
  n :: int
  mem :: "int \<Rightarrow> 8 word"
  obj :: "int \<Rightarrow> 8 word"

record copy_env =
  vm_map_error :: "int \<Rightarrow> int \<Rightarrow> int"
  vm_copy_error :: "int \<Rightarrow> int \<Rightarrow> int"
  unreadable :: "int \<Rightarrow> bool"
  get_error_at :: "int \<Rightarrow> int"

text \<open>\<open>c\<close> bytes between the object at \<open>off\<close> and the memory at \<open>a\<close>.\<close>

definition copy_bytes :: "direction \<Rightarrow> int \<Rightarrow> int \<Rightarrow> int \<Rightarrow> copy_state \<Rightarrow> copy_state" where
  "copy_bytes dir off a c s = (case dir of
     From_pager \<Rightarrow> s\<lparr>mem := (\<lambda>x. if a \<le> x \<and> x < a + c then obj s (off + (x - a)) else mem s x)\<rparr>
   | Into_pager \<Rightarrow> s\<lparr>obj := (\<lambda>x. if off \<le> x \<and> x < off + c then mem s (a + (x - off)) else obj s x)\<rparr>)"

text \<open>The variables after \<open>c\<close> bytes were copied.\<close>

definition advance :: "int \<Rightarrow> copy_state \<Rightarrow> copy_state" where
  "advance c s = s\<lparr>offset := wrap (offset s + c), other := wrap (other s + c), n := wrap (n s - c)\<rparr>"

text \<open>How a nested function ends: it returns an error code, or the fault handler leaves it.\<close>

datatype ending = Return int copy_state | Jump int copy_state

section \<open>\<^verbatim>\<open>do_vm_copy\<close>\<close>

definition vm_copy_window :: "int \<Rightarrow> int" where
  "vm_copy_window k = (if VMCOPY_WINDOW_DEFAULT_SIZE > k then k - page_offset k else VMCOPY_WINDOW_DEFAULT_SIZE)"

function vm_copy_loop :: "copy_env \<Rightarrow> direction \<Rightarrow> copy_state \<Rightarrow> ending result" where
  "vm_copy_loop E dir s =
     (let window_size = vm_copy_window (n s) in
      if window_size < VMCOPY_BETTER_THAN_MEMCPY then Inl (Assert_failed ''window_size >= VMCOPY_BETTER_THAN_MEMCPY'')
      else if page_offset window_size \<noteq> 0 then Inl (Assert_failed ''(window_size & (vm_page_size - 1)) == 0'')
      else if vm_map_error E (offset s) window_size \<noteq> 0 then Inr (Return (vm_map_error E (offset s) window_size) s)
      else if vm_copy_error E (offset s) window_size \<noteq> 0 then Inr (Return (vm_copy_error E (offset s) window_size) s)
      else
        let s' = advance window_size (copy_bytes dir (offset s) (other s) window_size s)
        in if n s' \<ge> VMCOPY_BETTER_THAN_MEMCPY then vm_copy_loop E dir s' else Inr (Return 0 s'))"
  by pat_completeness auto
termination
proof (relation "measure (\<lambda>(E, dir, s). nat (n s))")
  fix E dir s w s'
  assume w: "w = vm_copy_window (n s)" "\<not> w < VMCOPY_BETTER_THAN_MEMCPY"
    and s': "s' = advance w (copy_bytes dir (offset s) (other s) w s)"
  have n: "n s' = wrap (n s - w)" unfolding s' by (simp add: advance_def copy_bytes_def split: direction.split)
  have pos: "0 < w" using w(2) by (simp add: VMCOPY_BETTER_THAN_MEMCPY_def vm_page_size_def)
  have le: "w \<le> n s" unfolding w(1) vm_copy_window_def by (simp add: page_offset_def vm_page_size_def)
  then have "wrap (n s - w) \<le> n s - w" by (simp add: wrap_def zmod_le_nonneg_dividend)
  with n pos le show "((E, dir, s'), (E, dir, s)) \<in> measure (\<lambda>(E, dir, s). nat (n s))" by simp
qed simp

declare vm_copy_loop.simps [simp del]

definition do_vm_copy :: "copy_env \<Rightarrow> direction \<Rightarrow> copy_state \<Rightarrow> ending result" where
  "do_vm_copy E dir s =
     (if page_offset (offset s) \<noteq> 0 then Inl (Assert_failed ''(offset & (vm_page_size - 1)) == 0'')
      else if page_offset (other s) \<noteq> 0 then Inl (Assert_failed ''((vm_address_t) other & (vm_page_size - 1)) == 0'')
      else if n s < vm_page_size then Inl (Assert_failed ''n >= vm_page_size'')
      else vm_copy_loop E dir s)"

section \<open>\<^verbatim>\<open>do_memcpy\<close> and the fault handler\<close>

text \<open>The position of the first byte that faults among \<open>c\<close> bytes of the object at \<open>off\<close>.\<close>

definition first_fault :: "copy_env \<Rightarrow> int \<Rightarrow> int \<Rightarrow> int option" where
  "first_fault E off c = List.find (\<lambda>i. unreadable E (off + i)) [0 .. c - 1]"

text \<open>
  \<^verbatim>\<open>fault\<close>: \<open>at\<close> is \<^verbatim>\<open>sigcode - window\<close>, the position in the window of the byte that faulted. The
  window starts \<^verbatim>\<open>pageoff\<close> bytes below \<^verbatim>\<open>offset\<close>.
\<close>

definition fault :: "copy_env \<Rightarrow> int \<Rightarrow> copy_state \<Rightarrow> ending" where
  "fault E at s = Jump (get_error_at E (wrap (at + offset s))) (s\<lparr>n := wrap (n s - at)\<rparr>)"

definition last_window :: "int \<Rightarrow> nat \<Rightarrow> bool" where
  "last_window pageoff to_copy \<longleftrightarrow> MEMCPY_WINDOW_DEFAULT_SIZE \<ge> round_page (wrap (pageoff + int to_copy))"

lemma full_window_fits:
  assumes "\<not> last_window po k" and "0 \<le> po" and "po < vm_page_size"
  shows "MEMCPY_WINDOW_DEFAULT_SIZE - po < int k"
proof -
  let ?x = "wrap (po + int k)"
  have x: "?x \<le> po + int k" using assms(2) by (simp add: wrap_def zmod_le_nonneg_dividend)
  have "0 \<le> ?x" by (simp add: wrap_def)
  then have "wrap (?x + vm_page_size - 1) \<le> ?x + vm_page_size - 1"
    by (simp add: wrap_def zmod_le_nonneg_dividend vm_page_size_def)
  moreover have "MEMCPY_WINDOW_DEFAULT_SIZE < round_page ?x" using assms(1) by (simp add: last_window_def)
  ultimately have "33 * 4096 \<le> ?x + 4095"
    by (simp add: round_page_def MEMCPY_WINDOW_DEFAULT_SIZE_def vm_page_size_def)
  with x show ?thesis by (simp add: MEMCPY_WINDOW_DEFAULT_SIZE_def vm_page_size_def)
qed

function do_memcpy :: "copy_env \<Rightarrow> direction \<Rightarrow> nat \<Rightarrow> copy_state \<Rightarrow> ending" where
  "do_memcpy E dir to_copy s =
     (let pageoff = page_offset (offset s);
          last = last_window pageoff to_copy;
          copy_count = (if last then int to_copy else MEMCPY_WINDOW_DEFAULT_SIZE - pageoff);
          window_size = (if last then round_page (wrap (pageoff + int to_copy)) else MEMCPY_WINDOW_DEFAULT_SIZE);
          err = vm_map_error E (wrap (offset s - pageoff)) window_size
      in if err \<noteq> 0 then Return err s
         else case first_fault E (offset s) copy_count of
           Some i \<Rightarrow> fault E (pageoff + i) (copy_bytes dir (offset s) (other s) i s)
         | None \<Rightarrow>
             let s' = advance copy_count (copy_bytes dir (offset s) (other s) copy_count s);
                 left = to_copy - nat copy_count
             in if left > 0 then do_memcpy E dir left s' else Return 0 s')"
  by pat_completeness auto
termination
proof (relation "measure (\<lambda>(E, dir, to_copy, s). to_copy)")
  fix E dir k s po l c w e s' r
  assume po: "po = page_offset (offset s)" and l: "l = last_window po k"
    and c: "c = (if l then int k else MEMCPY_WINDOW_DEFAULT_SIZE - po)" and r: "r = k - nat c" "r > 0"
  have "po < vm_page_size" unfolding po by (simp add: page_offset_def vm_page_size_def)
  then have "0 < MEMCPY_WINDOW_DEFAULT_SIZE - po" by (simp add: MEMCPY_WINDOW_DEFAULT_SIZE_def vm_page_size_def)
  then have "0 < c" using c r by (cases l) auto
  with r show "((E, dir, r, s'), (E, dir, k, s)) \<in> measure (\<lambda>(E, dir, to_copy, s). to_copy)" by simp
qed simp

declare do_memcpy.simps [simp del]

section \<open>\<^verbatim>\<open>do_copy\<close> and \<^verbatim>\<open>pager_memcpy\<close>\<close>

definition do_copy :: "copy_env \<Rightarrow> direction \<Rightarrow> copy_state \<Rightarrow> ending result" where
  "do_copy E dir s =
     (if page_offset (other s) = page_offset (offset s)
         \<and> n s \<ge> VMCOPY_BETTER_THAN_MEMCPY + vm_page_size - page_offset (other s)
      then case do_memcpy E dir (nat (vm_page_size - page_offset (other s))) s of
        Jump err s \<Rightarrow> Inr (Jump err s)
      | Return err s \<Rightarrow>
          if err \<noteq> 0 then Inr (Return err s)
          else if n s < VMCOPY_BETTER_THAN_MEMCPY then Inl (Assert_failed ''n >= VMCOPY_BETTER_THAN_MEMCPY'')
          else andThen (do_vm_copy E dir s) (\<lambda>r. case r of
            Jump err s \<Rightarrow> Inr (Jump err s)
          | Return err s \<Rightarrow>
              if err \<noteq> 0 \<or> n s = 0 then Inr (Return err s)
              else if n s \<ge> VMCOPY_BETTER_THAN_MEMCPY then Inl (Assert_failed ''n < VMCOPY_BETTER_THAN_MEMCPY'')
              else Inr (do_memcpy E dir (nat (n s)) s))
      else Inr (do_memcpy E dir (nat (n s)) s))"

fun ending_error :: "ending \<Rightarrow> int" where
  "ending_error (Return err s) = err"
| "ending_error (Jump err s) = err"

fun ending_state :: "ending \<Rightarrow> copy_state" where
  "ending_state (Return err s) = s"
| "ending_state (Jump err s) = s"

text \<open>The result: the error code, \<^verbatim>\<open>*size\<close> and the final state.\<close>

definition hard_way :: "copy_env \<Rightarrow> direction \<Rightarrow> int \<Rightarrow> copy_state \<Rightarrow> (int \<times> int \<times> copy_state) result" where
  "hard_way E dir sz s = andThen (do_copy E dir s) (\<lambda>r.
     if ending_error r = 0 \<and> n (ending_state r) \<noteq> 0 then Inl (Assert_failed ''n == 0'')
     else Inr (ending_error r, wrap (sz - n (ending_state r)), ending_state r))"

definition pager_memcpy :: "copy_env \<Rightarrow> direction \<Rightarrow> copy_state \<Rightarrow> (int \<times> int \<times> copy_state) result" where
  "pager_memcpy E dir s =
     (let sz = n s in
      if n s = 0 then Inr (0, sz, s)
      else if page_offset (other s) = 0 \<and> page_offset (offset s) = 0 \<and> n s \<ge> VMCOPY_BETTER_THAN_MEMCPY then
        andThen (do_vm_copy E dir s) (\<lambda>r.
          let err = ending_error r; s = ending_state r in
          if err \<noteq> 0 \<or> n s = 0 then Inr (err, wrap (sz - n s), s)
          else if n s \<ge> VMCOPY_BETTER_THAN_MEMCPY then Inl (Assert_failed ''n < VMCOPY_BETTER_THAN_MEMCPY'')
          else hard_way E dir sz s)
      else hard_way E dir sz s)"

section \<open>Copying without errors\<close>

definition no_errors :: "copy_env \<Rightarrow> bool" where
  "no_errors E \<longleftrightarrow> (\<forall>x z. vm_map_error E x z = 0 \<and> vm_copy_error E x z = 0) \<and> (\<forall>x. \<not> unreadable E x)"

text \<open>The buffer and the region of the object are inside the address space.\<close>

definition in_range :: "copy_state \<Rightarrow> bool" where
  "in_range s \<longleftrightarrow> 0 \<le> offset s \<and> 0 \<le> other s \<and> 0 \<le> n s \<and>
     offset s + n s + vm_page_size < 2 ^ 32 \<and> other s + n s < 2 ^ 32"

text \<open>\<open>t\<close> is the state after the first \<open>k\<close> bytes of the copy that \<open>s\<close> starts.\<close>

definition progress :: "direction \<Rightarrow> copy_state \<Rightarrow> int \<Rightarrow> copy_state \<Rightarrow> bool" where
  "progress dir s k t \<longleftrightarrow> 0 \<le> k \<and> k \<le> n s \<and>
     offset t = offset s + k \<and> other t = other s + k \<and> n t = n s - k \<and>
     mem t = mem (copy_bytes dir (offset s) (other s) k s) \<and> obj t = obj (copy_bytes dir (offset s) (other s) k s)"

lemma copy_bytes_frame [simp]:
  "offset (copy_bytes dir x a c s) = offset s" "other (copy_bytes dir x a c s) = other s" "n (copy_bytes dir x a c s) = n s"
  by (simp_all add: copy_bytes_def split: direction.split)

lemma progress_start: "0 \<le> n s \<Longrightarrow> progress dir s 0 s"
  by (cases dir) (auto simp: progress_def copy_bytes_def fun_eq_iff)

lemma progress_advance:
  assumes "in_range s" and "progress dir s k t" and "0 \<le> c" and "k + c \<le> n s"
  shows "progress dir s (k + c) (advance c (copy_bytes dir (offset t) (other t) c t))"
proof -
  from assms(2) have t: "offset t = offset s + k" "other t = other s + k" "n t = n s - k" "0 \<le> k"
    "mem t = mem (copy_bytes dir (offset s) (other s) k s)" "obj t = obj (copy_bytes dir (offset s) (other s) k s)"
    by (simp_all add: progress_def)
  have "wrap (offset t + c) = offset s + (k + c)" "wrap (other t + c) = other s + (k + c)" "wrap (n t - c) = n s - (k + c)"
    using assms(1,3,4) t(1-4) by (auto simp: wrap_def in_range_def vm_page_size_def)
  moreover have "mem (copy_bytes dir (offset t) (other t) c t) = mem (copy_bytes dir (offset s) (other s) (k + c) s)"
    "obj (copy_bytes dir (offset t) (other t) c t) = obj (copy_bytes dir (offset s) (other s) (k + c) s)"
    using assms(3) t by (cases dir; auto simp: copy_bytes_def fun_eq_iff algebra_simps)+
  ultimately show ?thesis using assms(3,4) t(4) by (simp add: progress_def advance_def)
qed

lemma first_fault_none: "no_errors E \<Longrightarrow> first_fault E x c = None"
  by (simp add: first_fault_def no_errors_def find_None_iff)

lemma do_memcpy_ok:
  assumes E: "no_errors E" and r: "in_range s"
  shows "progress dir s k t \<Longrightarrow> 0 < to_copy \<Longrightarrow> k + int to_copy \<le> n s \<Longrightarrow>
    \<exists>t'. do_memcpy E dir to_copy t = Return 0 t' \<and> progress dir s (k + int to_copy) t'"
proof (induction to_copy arbitrary: k t rule: less_induct)
  case (less to_copy)
  let ?po = "page_offset (offset t)" let ?l = "last_window ?po to_copy"
  define c where "c = (if ?l then int to_copy else MEMCPY_WINDOW_DEFAULT_SIZE - ?po)"
  define t' where "t' = advance c (copy_bytes dir (offset t) (other t) c t)"
  have po: "0 \<le> ?po" "?po < vm_page_size" by (simp_all add: page_offset_def vm_page_size_def)
  have c: "0 < c" "c \<le> int to_copy" "?l \<Longrightarrow> c = int to_copy"
    using full_window_fits [OF _ po, of to_copy] po less.prems(2)
    by (auto simp: c_def MEMCPY_WINDOW_DEFAULT_SIZE_def vm_page_size_def)
  have t': "progress dir s (k + c) t'"
    unfolding t'_def by (rule progress_advance [OF r less.prems(1)]) (use c less.prems in auto)
  have step: "do_memcpy E dir to_copy t = (if 0 < to_copy - nat c then do_memcpy E dir (to_copy - nat c) t' else Return 0 t')"
    using E by (subst do_memcpy.simps) (simp add: Let_def first_fault_none no_errors_def flip: c_def t'_def)
  show ?case
  proof (cases "0 < to_copy - nat c")
    case True
    have "\<exists>u. do_memcpy E dir (to_copy - nat c) t' = Return 0 u \<and> progress dir s (k + c + int (to_copy - nat c)) u"
      by (rule less.IH [OF _ t']) (use True c less.prems in auto)
    moreover have "k + c + int (to_copy - nat c) = k + int to_copy" using c by simp
    ultimately show ?thesis using step True by simp
  next
    case False
    then have "c = int to_copy" using c by simp
    with step t' False show ?thesis by simp
  qed
qed

lemma vm_copy_window_ok:
  assumes "VMCOPY_BETTER_THAN_MEMCPY \<le> k"
  shows "VMCOPY_BETTER_THAN_MEMCPY \<le> vm_copy_window k" "page_offset (vm_copy_window k) = 0" "vm_copy_window k \<le> k"
proof -
  have "8 \<le> k div 4096" using zdiv_mono1 [OF assms, of 4096] by (simp add: VMCOPY_BETTER_THAN_MEMCPY_def vm_page_size_def)
  then have "8 * 4096 \<le> k - k mod 4096" by (simp add: minus_mod_eq_mult_div)
  then show "VMCOPY_BETTER_THAN_MEMCPY \<le> vm_copy_window k"
    by (simp add: vm_copy_window_def VMCOPY_BETTER_THAN_MEMCPY_def VMCOPY_WINDOW_DEFAULT_SIZE_def page_offset_def vm_page_size_def)
  show "page_offset (vm_copy_window k) = 0"
    by (simp add: vm_copy_window_def VMCOPY_WINDOW_DEFAULT_SIZE_def page_offset_def vm_page_size_def minus_mod_eq_mult_div)
  show "vm_copy_window k \<le> k"
    by (simp add: vm_copy_window_def VMCOPY_WINDOW_DEFAULT_SIZE_def page_offset_def vm_page_size_def)
qed

lemma vm_copy_loop_ok:
  assumes E: "no_errors E" and r: "in_range s"
  shows "progress dir s k t \<Longrightarrow> VMCOPY_BETTER_THAN_MEMCPY \<le> n t \<Longrightarrow>
    \<exists>k' t'. vm_copy_loop E dir t = Inr (Return 0 t') \<and> progress dir s k' t' \<and> n t' < VMCOPY_BETTER_THAN_MEMCPY"
proof (induction "nat (n t)" arbitrary: k t rule: less_induct)
  case less
  let ?w = "vm_copy_window (n t)" let ?t = "advance ?w (copy_bytes dir (offset t) (other t) ?w t)"
  note w = vm_copy_window_ok [OF less.prems(2)]
  have pos: "0 < ?w" using w(1) by (simp add: VMCOPY_BETTER_THAN_MEMCPY_def vm_page_size_def)
  have nt: "n t = n s - k" using less.prems(1) by (simp add: progress_def)
  have t': "progress dir s (k + ?w) ?t"
    by (rule progress_advance [OF r less.prems(1)]) (use pos w(3) nt in auto)
  then have n': "n ?t = n t - ?w" using nt by (simp add: progress_def)
  have step: "vm_copy_loop E dir t = (if VMCOPY_BETTER_THAN_MEMCPY \<le> n ?t then vm_copy_loop E dir ?t else Inr (Return 0 ?t))"
    using E w by (subst vm_copy_loop.simps) (simp add: Let_def no_errors_def not_less [symmetric])
  show ?case
  proof (cases "VMCOPY_BETTER_THAN_MEMCPY \<le> n ?t")
    case True
    have "nat (n ?t) < nat (n t)" using n' pos True by (simp add: VMCOPY_BETTER_THAN_MEMCPY_def vm_page_size_def)
    from less.hyps [OF this t' True] step True show ?thesis by simp
  next
    case False
    with step t' show ?thesis by auto
  qed
qed

lemma do_vm_copy_ok:
  assumes "no_errors E" and "in_range s" and "progress dir s k t" and "VMCOPY_BETTER_THAN_MEMCPY \<le> n t"
    and "page_offset (offset t) = 0" and "page_offset (other t) = 0"
  shows "\<exists>k' t'. do_vm_copy E dir t = Inr (Return 0 t') \<and> progress dir s k' t' \<and> n t' < VMCOPY_BETTER_THAN_MEMCPY"
  using vm_copy_loop_ok [OF assms(1-4)] assms(4-6)
  by (auto simp: do_vm_copy_def VMCOPY_BETTER_THAN_MEMCPY_def vm_page_size_def)

lemma do_memcpy_rest:
  assumes "no_errors E" and "in_range s" and "progress dir s k t" and "n t \<noteq> 0"
  shows "\<exists>t'. do_memcpy E dir (nat (n t)) t = Return 0 t' \<and> progress dir s (n s) t'"
proof -
  have "n t = n s - k" "k \<le> n s" using assms(3) by (simp_all add: progress_def)
  with do_memcpy_ok [OF assms(1-3), of "nat (n t)"] assms(4) show ?thesis by auto
qed

lemma next_page: "page_offset (x + (vm_page_size - page_offset x)) = 0"
proof -
  have "x + (vm_page_size - page_offset x) = vm_page_size * (x div vm_page_size + 1)"
    using minus_mod_eq_mult_div [of x vm_page_size] by (simp add: page_offset_def algebra_simps)
  then show ?thesis by (simp add: page_offset_def)
qed

lemma do_copy_ok:
  assumes E: "no_errors E" "in_range s" and p: "progress dir s k t" and "n t \<noteq> 0"
  shows "\<exists>t'. do_copy E dir t = Inr (Return 0 t') \<and> progress dir s (n s) t'"
proof (cases "page_offset (other t) = page_offset (offset t) \<and> n t \<ge> VMCOPY_BETTER_THAN_MEMCPY + vm_page_size - page_offset (other t)")
  case False
  with do_memcpy_rest [OF assms] show ?thesis by (auto simp: do_copy_def)
next
  case True
  let ?c = "vm_page_size - page_offset (other t)"
  have c: "0 < ?c" "?c \<le> vm_page_size" by (simp_all add: page_offset_def vm_page_size_def)
  have t: "offset t = offset s + k" "other t = other s + k" "n t = n s - k" using p by (simp_all add: progress_def)
  have "?c \<le> n t" using True by (simp add: VMCOPY_BETTER_THAN_MEMCPY_def vm_page_size_def)
  with do_memcpy_ok [OF E p, of "nat ?c"] c t(3) obtain u where
    u: "do_memcpy E dir (nat ?c) t = Return 0 u" "progress dir s (k + ?c) u" by auto
  have f: "offset u = offset t + ?c" "other u = other t + ?c" "n u = n t - ?c" using u(2) t by (simp_all add: progress_def)
  have al: "page_offset (offset u) = 0" "page_offset (other u) = 0"
    using True next_page [of "offset t"] next_page [of "other t"] unfolding f by auto
  have nu: "VMCOPY_BETTER_THAN_MEMCPY \<le> n u" using True f(3) by simp
  from do_vm_copy_ok [OF E u(2) nu al] obtain k' v where
    v: "do_vm_copy E dir u = Inr (Return 0 v)" "progress dir s k' v" "n v < VMCOPY_BETTER_THAN_MEMCPY" by blast
  show ?thesis
  proof (cases "n v = 0")
    case True': True
    then have "k' = n s" using v(2) by (simp add: progress_def)
    then show ?thesis using True u(1) v nu True' by (simp add: do_copy_def)
  next
    case False
    from do_memcpy_rest [OF E v(2) False] show ?thesis using True u(1) v nu False by (auto simp: do_copy_def)
  qed
qed

section \<open>Properties\<close>

text \<open>C16: Without faults and errors \<^verbatim>\<open>pager_memcpy\<close> is a plain copy: however the region is cut into windows,
  it returns success, leaves \<^verbatim>\<open>*size\<close> as it was, and copies every byte of the region and no
  other.\<close>

theorem pager_memcpy_copies:
  assumes "no_errors E" and "in_range s"
  shows "\<exists>s'. pager_memcpy E dir s = Inr (0, n s, s') \<and>
    (case dir of
       From_pager \<Rightarrow> obj s' = obj s \<and>
         (\<forall>x. mem s' x = (if other s \<le> x \<and> x < other s + n s then obj s (offset s + (x - other s)) else mem s x))
     | Into_pager \<Rightarrow> mem s' = mem s \<and>
         (\<forall>x. obj s' x = (if offset s \<le> x \<and> x < offset s + n s then mem s (other s + (x - offset s)) else obj s x)))"
proof -
  have n: "0 \<le> n s" "wrap (n s) = n s" using assms(2) by (auto simp: in_range_def wrap_def vm_page_size_def)
  have start: "progress dir s 0 s" using n(1) by (rule progress_start)
  have done_n: "n t = 0" if "progress dir s (n s) t" for t using that by (simp add: progress_def)
  have hard: "\<exists>t'. hard_way E dir (n s) t = Inr (0, n s, t') \<and> progress dir s (n s) t'" if "progress dir s k t" "n t \<noteq> 0" for k t
  proof -
    from do_copy_ok [OF assms that] obtain t' where t': "do_copy E dir t = Inr (Return 0 t')" "progress dir s (n s) t'" by blast
    then have "hard_way E dir (n s) t = Inr (0, n s, t')" using done_n n(2) by (simp add: hard_way_def del: andThen_Inr_iff)
    with t'(2) show ?thesis by blast
  qed
  have "\<exists>t'. pager_memcpy E dir s = Inr (0, n s, t') \<and> progress dir s (n s) t'"
  proof (cases "page_offset (other s) = 0 \<and> page_offset (offset s) = 0 \<and> n s \<ge> VMCOPY_BETTER_THAN_MEMCPY \<and> n s \<noteq> 0")
    case True
    then obtain k t where t: "do_vm_copy E dir s = Inr (Return 0 t)" "progress dir s k t" "n t < VMCOPY_BETTER_THAN_MEMCPY"
      using do_vm_copy_ok [OF assms start] by blast
    show ?thesis
    proof (cases "n t = 0")
      case z: True
      then have "k = n s" using t(2) by (simp add: progress_def)
      then show ?thesis using True t z n(2) by (simp add: pager_memcpy_def Let_def)
    next
      case False
      from hard [OF t(2) False] show ?thesis using True t False by (simp add: pager_memcpy_def Let_def)
    qed
  next
    case False
    then show ?thesis using hard [OF start] start by (cases "n s = 0") (auto simp: pager_memcpy_def Let_def)
  qed
  then show ?thesis by (cases dir) (auto simp: progress_def copy_bytes_def)
qed

definition quiet_env :: copy_env where
  "quiet_env = \<lparr>vm_map_error = (\<lambda>_ _. 0), vm_copy_error = (\<lambda>_ _. 0), unreadable = (\<lambda>_. False), get_error_at = (\<lambda>_. 0)\<rparr>"

definition sample_copy :: copy_state where
  "sample_copy = \<lparr>offset = 4000, other = 100, n = 200000, mem = (\<lambda>_. 0), obj = (\<lambda>_. 7)\<rparr>"

lemma pager_memcpy_copies_witness:
  "\<exists>s'. pager_memcpy quiet_env From_pager sample_copy = Inr (0, 200000, s') \<and> mem s' 200099 = 7 \<and> mem s' 200100 = 0"
proof -
  have "no_errors quiet_env" by (simp add: no_errors_def quiet_env_def)
  moreover have "in_range sample_copy" by (simp add: in_range_def sample_copy_def vm_page_size_def)
  ultimately show ?thesis using pager_memcpy_copies [of quiet_env sample_copy From_pager] by (auto simp: sample_copy_def)
qed

definition bad_env :: copy_env where
  "bad_env = \<lparr>vm_map_error = (\<lambda>_ _. 0), vm_copy_error = (\<lambda>_ _. 0), unreadable = (\<lambda>_. True), get_error_at = (\<lambda>_. 5)\<rparr>"

definition small_copy :: copy_state where
  "small_copy = \<lparr>offset = 100, other = 5000, n = 10, mem = (\<lambda>_. 0), obj = (\<lambda>_. 7)\<rparr>"

text \<open>When a page faults, the handler takes the window for one that starts at the offset of the copy, but
  it starts at the page: for a copy of 10 bytes from offset 100 of a page that cannot be read,
  no byte is copied and the caller is told that 100 were, more than it asked for.\<close>

theorem pager_memcpy_fault_miscounts:
  "\<exists>s'. pager_memcpy bad_env From_pager small_copy = Inr (5, 100, s') \<and> mem s' 5000 = 0 \<and> 100 > n small_copy"
proof -
  have "map_sum id (\<lambda>(e, z, s'). (e, z, mem s' 5000)) (pager_memcpy bad_env From_pager small_copy) = Inr (5, 100, 0)"
    by code_simp
  then obtain s' where "pager_memcpy bad_env From_pager small_copy = Inr (5, 100, s')" "mem s' 5000 = 0"
    by (cases "pager_memcpy bad_env From_pager small_copy") auto
  then show ?thesis by (simp add: small_copy_def)
qed

end
