(* ===== verification/Request_Queue.thy ===== *)
theory Request_Queue
  imports Prelude
begin

text \<open>
  The FIFO queue of \<^verbatim>\<open>libpager/queue.h\<close>: a singly linked list with a pointer to the field in which the
  next item is to be stored (\<^verbatim>\<open>struct item **tail\<close>). The items live in a heap that several queues
  share, so the frame rule matters: an operation on one queue leaves the others alone.

  The locale \<open>fifo\<close> is the contract the worker pool of \<^verbatim>\<open>demuxer.c\<close> relies on; it is interpreted on
  lists and on the linked queue.
\<close>

section \<open>The linked queue\<close>

type_synonym addr = nat

text \<open>The \<^verbatim>\<open>next\<close> fields of all items, and the two places \<^verbatim>\<open>tail\<close> can point to.\<close>

type_synonym item_heap = "addr \<Rightarrow> addr option"

datatype slot = Head_field | Next_field addr

record queue =
  head :: "addr option"
  tail :: slot

definition queue_init :: queue where
  "queue_init = \<lparr>head = None, tail = Head_field\<rparr>"

definition store_slot :: "slot \<Rightarrow> addr option \<Rightarrow> queue \<times> item_heap \<Rightarrow> queue \<times> item_heap" where
  "store_slot p v qh = (case qh of (q, h) \<Rightarrow>
     case p of Head_field \<Rightarrow> (q\<lparr>head := v\<rparr>, h) | Next_field a \<Rightarrow> (q, h(a := v)))"

definition queue_enqueue :: "addr \<Rightarrow> queue \<times> item_heap \<Rightarrow> queue \<times> item_heap" where
  "queue_enqueue r qh =
     (let (q, h) = store_slot (tail (fst qh)) (Some r) qh;
          q = q\<lparr>tail := Next_field r\<rparr>
      in (q, h(r := None)))"

definition queue_dequeue :: "queue \<times> item_heap \<Rightarrow> addr option \<times> queue \<times> item_heap" where
  "queue_dequeue qh =
     (let (q, h) = qh
      in case head q of None \<Rightarrow> (None, q, h)
         | Some r \<Rightarrow>
             let q = q\<lparr>head := h r\<rparr>;
                 q = (if head q = None then q\<lparr>tail := Head_field\<rparr> else q)
             in (Some r, q, h(r := None)))"

definition queue_empty :: "queue \<times> item_heap \<Rightarrow> bool" where
  "queue_empty qh \<longleftrightarrow> head (fst qh) = None"

section \<open>The list a queue stands for\<close>

fun chain :: "item_heap \<Rightarrow> addr option \<Rightarrow> addr list \<Rightarrow> bool" where
  "chain h p [] \<longleftrightarrow> p = None"
| "chain h p (x # xs) \<longleftrightarrow> p = Some x \<and> chain h (h x) xs"

definition queue_list :: "queue \<times> item_heap \<Rightarrow> addr list \<Rightarrow> bool" where
  "queue_list qh xs \<longleftrightarrow> chain (snd qh) (head (fst qh)) xs \<and> distinct xs \<and>
     tail (fst qh) = (if xs = [] then Head_field else Next_field (last xs))"

lemma chain_update [simp]: "a \<notin> set xs \<Longrightarrow> chain (h(a := v)) p xs \<longleftrightarrow> chain h p xs"
  by (induction xs arbitrary: p) auto

lemma chain_snoc:
  "chain h p xs \<Longrightarrow> xs \<noteq> [] \<Longrightarrow> distinct xs \<Longrightarrow> r \<notin> set xs \<Longrightarrow>
     chain (h(last xs := Some r, r := None)) p (xs @ [r])"
proof (induction xs arbitrary: p)
  case Nil
  then show ?case by simp
next
  case (Cons x xs)
  then show ?case by (cases "xs = []") auto
qed

lemma chain_unique: "chain h p xs \<Longrightarrow> chain h p ys \<Longrightarrow> xs = ys"
proof (induction xs arbitrary: p ys)
  case Nil
  then show ?case by (cases ys) auto
next
  case (Cons x xs)
  then show ?case by (cases ys) auto
qed

lemma queue_list_unique: "queue_list qh xs \<Longrightarrow> queue_list qh ys \<Longrightarrow> xs = ys"
  unfolding queue_list_def using chain_unique by blast

lemma queue_list_init: "queue_list (queue_init, h) []"
  by (simp add: queue_list_def queue_init_def)

lemma queue_enqueue_list:
  assumes "queue_list qh xs" and "r \<notin> set xs"
  shows "queue_list (queue_enqueue r qh) (xs @ [r])"
proof (cases "xs = []")
  case True
  with assms show ?thesis
    by (cases qh) (simp add: queue_list_def queue_enqueue_def store_slot_def)
next
  case False
  with assms chain_snoc [of "snd qh" "head (fst qh)" xs r] show ?thesis
    by (cases qh) (simp add: queue_list_def queue_enqueue_def store_slot_def)
qed

lemma queue_dequeue_list:
  assumes "queue_list qh (x # xs)"
  shows "\<exists>qh'. queue_dequeue qh = (Some x, qh') \<and> queue_list qh' xs"
  using assms
  by (cases qh; cases xs) (auto simp: queue_list_def queue_dequeue_def)

lemma queue_dequeue_empty: "queue_list qh [] \<Longrightarrow> queue_dequeue qh = (None, qh)"
  by (cases qh) (simp add: queue_list_def queue_dequeue_def)

text \<open>Frame: the \<^verbatim>\<open>next\<close> fields that an operation changes belong to the item or to the queue.\<close>

lemma queue_enqueue_frame:
  assumes "queue_list qh xs" and "a \<notin> set xs" and "a \<noteq> r"
  shows "snd (queue_enqueue r qh) a = snd qh a"
  using assms by (cases qh; cases "xs = []") (auto simp: queue_list_def queue_enqueue_def store_slot_def)

lemma queue_dequeue_frame:
  assumes "queue_list qh xs" and "a \<notin> set xs"
  shows "snd (snd (queue_dequeue qh)) a = snd qh a"
  using assms by (cases qh; cases xs) (auto simp: queue_list_def queue_dequeue_def Let_def)

lemma queue_list_frame:
  "queue_list (q, h) xs \<Longrightarrow> \<forall>a \<in> set xs. h' a = h a \<Longrightarrow> queue_list (q, h') xs"
proof -
  have "chain h p xs \<Longrightarrow> \<forall>a \<in> set xs. h' a = h a \<Longrightarrow> chain h' p xs" for p
    by (induction xs arbitrary: p) auto
  then show "queue_list (q, h) xs \<Longrightarrow> \<forall>a \<in> set xs. h' a = h a \<Longrightarrow> queue_list (q, h') xs"
    by (auto simp: queue_list_def)
qed

section \<open>The contract\<close>

text \<open>
  A queue with an invariant and the list of its contents. \<open>fresh r q\<close> says that the item is not in
  the queue.
\<close>

locale fifo =
  fixes init :: 'q
    and enqueue :: "'i \<Rightarrow> 'q \<Rightarrow> 'q"
    and dequeue :: "'q \<Rightarrow> 'i option \<times> 'q"
    and isempty :: "'q \<Rightarrow> bool"
    and contents :: "'q \<Rightarrow> 'i list"
    and invar :: "'q \<Rightarrow> bool"
    and fresh :: "'i \<Rightarrow> 'q \<Rightarrow> bool"
  assumes init_contents: "contents init = []"
    and init_invar: "invar init"
    and enqueue_contents: "invar q \<Longrightarrow> fresh r q \<Longrightarrow> contents (enqueue r q) = contents q @ [r]"
    and enqueue_invar: "invar q \<Longrightarrow> fresh r q \<Longrightarrow> invar (enqueue r q)"
    and dequeue_empty: "invar q \<Longrightarrow> contents q = [] \<Longrightarrow> dequeue q = (None, q)"
    and dequeue_head: "invar q \<Longrightarrow> contents q = x # xs \<Longrightarrow>
      \<exists>q'. dequeue q = (Some x, q') \<and> contents q' = xs \<and> invar q'"
    and isempty_iff: "invar q \<Longrightarrow> isempty q \<longleftrightarrow> contents q = []"
begin

text \<open>Taking as many items as there are gives them in the order they came in.\<close>

primrec take_all :: "nat \<Rightarrow> 'q \<Rightarrow> 'i list" where
  "take_all 0 q = []"
| "take_all (Suc n) q = (case dequeue q of (None, q') \<Rightarrow> [] | (Some x, q') \<Rightarrow> x # take_all n q')"

lemma take_all_contents: "invar q \<Longrightarrow> length (contents q) \<le> n \<Longrightarrow> take_all n q = contents q"
proof (induction n arbitrary: q)
  case 0
  then show ?case by simp
next
  case (Suc n)
  show ?case
  proof (cases "contents q")
    case Nil
    with Suc.prems show ?thesis by (simp add: dequeue_empty)
  next
    case (Cons x xs)
    with Suc.prems dequeue_head obtain q' where "dequeue q = (Some x, q')" "contents q' = xs" "invar q'" by blast
    with Suc Cons show ?thesis by simp
  qed
qed

lemma isempty_dequeue: "invar q \<Longrightarrow> isempty q \<longleftrightarrow> fst (dequeue q) = None"
  using isempty_iff dequeue_empty dequeue_head by (cases "contents q") (fastforce)+

end

text \<open>The contents of a well-formed linked queue.\<close>

definition queue_ok :: "queue \<times> item_heap \<Rightarrow> bool" where
  "queue_ok qh \<longleftrightarrow> (\<exists>xs. queue_list qh xs)"

definition queue_contents :: "queue \<times> item_heap \<Rightarrow> addr list" where
  "queue_contents qh = (if queue_ok qh then THE xs. queue_list qh xs else [])"

lemma queue_contents_eq: "queue_list qh xs \<Longrightarrow> queue_contents qh = xs"
  by (auto simp: queue_contents_def queue_ok_def intro: queue_list_unique)

interpretation list_queue: fifo "[]" "\<lambda>r q. q @ [r]"
  "\<lambda>q. case q of [] \<Rightarrow> (None, []) | x # xs \<Rightarrow> (Some x, xs)" "\<lambda>q. q = []" "\<lambda>q. q" "\<lambda>_. True" "\<lambda>_ _. True"
  by unfold_locales auto

interpretation linked_queue: fifo "(queue_init, h)" queue_enqueue queue_dequeue queue_empty queue_contents queue_ok
  "\<lambda>r qh. r \<notin> set (queue_contents qh)" for h
proof unfold_locales
  show "queue_contents (queue_init, h) = []" using queue_list_init by (rule queue_contents_eq)
  show "queue_ok (queue_init, h)" using queue_list_init unfolding queue_ok_def by blast
next
  fix q r assume q: "queue_ok q" "r \<notin> set (queue_contents q)"
  then obtain xs where xs: "queue_list q xs" by (auto simp: queue_ok_def)
  with q have e: "queue_list (queue_enqueue r q) (xs @ [r])"
    by (intro queue_enqueue_list) (simp_all add: queue_contents_eq)
  then show "queue_contents (queue_enqueue r q) = queue_contents q @ [r]"
    using xs by (simp add: queue_contents_eq)
  show "queue_ok (queue_enqueue r q)" using e by (auto simp: queue_ok_def)
next
  fix q assume "queue_ok q"
  then obtain xs where xs: "queue_list q xs" by (auto simp: queue_ok_def)
  show "queue_contents q = [] \<Longrightarrow> queue_dequeue q = (None, q)"
    using xs queue_dequeue_empty by (simp add: queue_contents_eq)
  show "\<exists>q'. queue_dequeue q = (Some x, q') \<and> queue_contents q' = ys \<and> queue_ok q'"
    if "queue_contents q = x # ys" for x ys
    using that xs queue_dequeue_list [of q x ys] by (auto simp: queue_contents_eq queue_ok_def)
  show "queue_empty q \<longleftrightarrow> queue_contents q = []"
    using xs queue_contents_eq [OF xs] by (cases xs) (auto simp: queue_empty_def queue_list_def)
qed

end
