(* ===== verification/Demuxer.thy ===== *)
theory Demuxer
  imports Request_Queue Mach_Types
begin

text \<open>
  The worker pool of \<^verbatim>\<open>libpager/demuxer.c\<close>. One thread receives messages and queues them
  (\<^verbatim>\<open>pager_demuxer\<close>); workers take them off and run the server routines (\<^verbatim>\<open>worker_func\<close>). Requests for
  one object have to be processed in the order they came, one at a time; a worker marks the object
  it works on with its tag, and a worker that takes a request for an object somebody else works on
  hands it to that worker's own queue.

  The code is compiled with one worker (\<^verbatim>\<open>WORKER_COUNT\<close>); the model has any number of them. A step is
  what a thread does while it holds \<^verbatim>\<open>requests->lock\<close>. Queues are lists (\<open>Request_Queue\<close> shows that the
  linked queues of the code behave like them). The histories \<open>arrived\<close>, \<open>started\<close> and \<open>finished\<close> are only
  observed.
\<close>

section \<open>State\<close>

record request =
  request_id :: nat
  msgh_local_port :: mach_port_t

datatype activity = Ready | Asleep | Running request

record worker =
  w_queue :: "request list"
  tag :: mach_port_t
  activity :: activity

text \<open>
  \<open>queue_new\<close> is \<^verbatim>\<open>Some\<close> queue while the workers are inhibited: then \<^verbatim>\<open>queue_in\<close> is that queue,
  otherwise \<^verbatim>\<open>queue_in\<close> and \<^verbatim>\<open>queue_out\<close> are the same.
\<close>

record pager_requests =
  queue_out :: "request list"
  queue_new :: "request list option"
  asleep :: nat
  workers :: "worker list"
  arrived :: "request list"
  started :: "request list"
  finished :: "request list"

definition WORKER_COUNT :: "pager_requests \<Rightarrow> nat" where
  "WORKER_COUNT st = length (workers st)"

definition pager_start_workers :: "nat \<Rightarrow> pager_requests" where
  "pager_start_workers n =
     \<lparr>queue_out = [], queue_new = None, asleep = 0,
      workers = replicate n \<lparr>w_queue = [], tag = 0, activity = Ready\<rparr>,
      arrived = [], started = [], finished = []\<rparr>"

section \<open>The receiving thread\<close>

text \<open>The size of the copy of a message, rounded up to a multiple of eight.\<close>

definition padded_size :: "32 word \<Rightarrow> 32 word" where
  "padded_size sz = (let MASK = 8 - 1 in (sz + MASK) AND NOT MASK)"

definition enqueue_request :: "request \<Rightarrow> pager_requests \<Rightarrow> pager_requests" where
  "enqueue_request r st =
     (case queue_new st of None \<Rightarrow> st\<lparr>queue_out := queue_out st @ [r], arrived := arrived st @ [r]\<rparr>
      | Some q \<Rightarrow> st\<lparr>queue_new := Some (q @ [r]), arrived := arrived st @ [r]\<rparr>)"

datatype demux_reply = Not_ours | Reply_ENOMEM | Reply_later bool

text \<open>
  \<open>has_routine\<close>: one of the three tables (two of them generated) knows the message; \<open>malloc_ok\<close>: there is
  memory for the copy. The flag of \<^verbatim>\<open>Reply_later\<close> says whether a sleeping worker is signalled.
\<close>

definition pager_demuxer ::
    "bool \<Rightarrow> bool \<Rightarrow> request \<Rightarrow> pager_requests \<Rightarrow> pager_requests \<times> demux_reply" where
  "pager_demuxer has_routine malloc_ok r st =
     (if \<not> has_routine then (st, Not_ours)
      else if \<not> malloc_ok then (st, Reply_ENOMEM)
      else (enqueue_request r st, Reply_later (asleep st > 0 \<and> queue_new st = None)))"

section \<open>The workers\<close>

definition update_worker :: "nat \<Rightarrow> (worker \<Rightarrow> worker) \<Rightarrow> pager_requests \<Rightarrow> pager_requests" where
  "update_worker i f st = st\<lparr>workers := (workers st)[i := f (workers st ! i)]\<rparr>"

definition start_request :: "nat \<Rightarrow> request \<Rightarrow> pager_requests \<Rightarrow> pager_requests" where
  "start_request i r st =
     (update_worker i (\<lambda>w. w\<lparr>activity := Running r\<rparr>) st)\<lparr>started := started st @ [r]\<rparr>"

text \<open>The first worker whose tag is the request's object.\<close>

definition find_tagged :: "mach_port_t \<Rightarrow> pager_requests \<Rightarrow> nat option" where
  "find_tagged p st = List.find (\<lambda>i. tag (workers st ! i) = p) [0 ..< length (workers st)]"

text \<open>From the label \<^verbatim>\<open>get_request_locked\<close> on: take requests until one is ours, or sleep.\<close>

function get_request_locked :: "nat \<Rightarrow> pager_requests \<Rightarrow> pager_requests" where
  "get_request_locked i st =
     (case queue_out st of
        [] \<Rightarrow> update_worker i (\<lambda>w. w\<lparr>activity := Asleep\<rparr>) (st\<lparr>asleep := asleep st + 1\<rparr>)
      | r # rest \<Rightarrow>
          let st = st\<lparr>queue_out := rest\<rparr>
          in case find_tagged (msgh_local_port r) st of
               Some j \<Rightarrow> get_request_locked i (update_worker j (\<lambda>w. w\<lparr>w_queue := w_queue w @ [r]\<rparr>) st)
             | None \<Rightarrow> start_request i r (update_worker i (\<lambda>w. w\<lparr>tag := msgh_local_port r\<rparr>) st))"
  by pat_completeness auto
termination
  by (relation "measure (\<lambda>(i, st). length (queue_out st))") (auto simp: update_worker_def)

declare get_request_locked.simps [simp del]

text \<open>The top of the loop: a request delegated to us comes first.\<close>

definition worker_next :: "nat \<Rightarrow> pager_requests \<Rightarrow> pager_requests" where
  "worker_next i st =
     (case w_queue (workers st ! i) of
        r # rest \<Rightarrow> start_request i r (update_worker i (\<lambda>w. w\<lparr>w_queue := rest\<rparr>) st)
      | [] \<Rightarrow> get_request_locked i (update_worker i (\<lambda>w. w\<lparr>tag := 0\<rparr>) st))"

text \<open>\<^verbatim>\<open>pthread_cond_wait\<close> returns.\<close>

definition worker_wakeup :: "nat \<Rightarrow> pager_requests \<Rightarrow> pager_requests" where
  "worker_wakeup i st =
     get_request_locked i (update_worker i (\<lambda>w. w\<lparr>activity := Ready\<rparr>) (st\<lparr>asleep := asleep st - 1\<rparr>))"

text \<open>The server routine has returned and the reply, if any, is sent.\<close>

definition worker_done :: "nat \<Rightarrow> request \<Rightarrow> pager_requests \<Rightarrow> pager_requests" where
  "worker_done i r st =
     (update_worker i (\<lambda>w. w\<lparr>activity := Ready\<rparr>) st)\<lparr>finished := finished st @ [r]\<rparr>"

section \<open>Inhibiting the workers\<close>

text \<open>
  \<open>pager_inhibit_workers\<close> up to its wait, the condition on which the wait ends, and
  \<open>pager_resume_workers\<close>. \<^verbatim>\<open>malloc\<close> may fail; then the error is returned and nothing changes.
\<close>

definition pager_inhibit_workers :: "bool \<Rightarrow> pager_requests \<Rightarrow> (pager_requests \<times> bool) result" where
  "pager_inhibit_workers malloc_ok st =
     (if queue_new st \<noteq> None then Inl (Assert_failed ''requests->queue_out == requests->queue_in'')
      else if \<not> malloc_ok then Inr (st, False)
      else Inr (st\<lparr>queue_new := Some []\<rparr>, True))"

definition inhibited :: "pager_requests \<Rightarrow> bool" where
  "inhibited st \<longleftrightarrow> \<not> (asleep st < WORKER_COUNT st \<or> queue_out st \<noteq> [])"

definition pager_resume_workers :: "pager_requests \<Rightarrow> pager_requests result" where
  "pager_resume_workers st =
     (case queue_new st of
        None \<Rightarrow> Inl (Assert_failed ''requests->queue_out != requests->queue_in'')
      | Some q \<Rightarrow>
          if asleep st \<noteq> WORKER_COUNT st then Inl (Assert_failed ''requests->asleep == WORKER_COUNT'')
          else if queue_out st \<noteq> [] then Inl (Assert_failed ''queue_empty(requests->queue_out)'')
          else Inr (st\<lparr>queue_out := q, queue_new := None\<rparr>))"

section \<open>Replies\<close>

record reply_header =
  msgh_bits :: "32 word"
  msgh_size :: "32 word"
  msgh_remote_port :: mach_port_t
  reply_local_port :: mach_port_t
  msgh_seqno :: "32 word"
  msgh_id :: "32 word"
  RetCode :: int

text \<open>A reply header is 24 bytes, a type descriptor and a code 4 each.\<close>

definition mig_reply_setup :: "32 word \<Rightarrow> mach_port_t \<Rightarrow> 32 word \<Rightarrow> reply_header" where
  "mig_reply_setup in_bits in_remote in_id =
     \<lparr>msgh_bits = MACH_MSGH_BITS (MACH_MSGH_BITS_REMOTE in_bits) 0, msgh_size = 32,
      msgh_remote_port = in_remote, reply_local_port = MACH_PORT_NULL, msgh_seqno = 0,
      msgh_id = in_id + 100, RetCode = -303\<rparr>"

datatype reply_action = Destroy_request | Destroy_reply | Send_reply reply_header

text \<open>What the worker does with the reply the routine left; \<open>delivered\<close> is the answer of \<^verbatim>\<open>mach_msg\<close>.\<close>

definition worker_reply :: "(reply_header \<Rightarrow> bool) \<Rightarrow> reply_header \<Rightarrow> reply_action list" where
  "worker_reply invalid_dest reply =
     (if RetCode reply = -305 then []
      else
        (if RetCode reply = 0 then [] else [Destroy_request]) @
        (if msgh_remote_port reply = MACH_PORT_NULL
         then (if msgh_bits reply AND MACH_MSGH_BITS_COMPLEX \<noteq> 0 then [Destroy_reply] else [])
         else Send_reply reply # (if invalid_dest reply then [Destroy_reply] else [])))"

end
