(* ===== verification/Demuxer_Order.thy ===== *)
theory Demuxer_Order
  imports Demuxer "HOL-Library.Multiset"
begin

text \<open>
  The worker pool as a state machine and its invariant: no two workers work on the same object,
  the requests for an object are started in the order they arrived, and nothing is lost. It holds
  for any number of workers.
\<close>

section \<open>Steps\<close>

inductive demux_step :: "pager_requests \<Rightarrow> pager_requests \<Rightarrow> bool" where
  receive: "pager_demuxer has_routine malloc_ok r st = (st', reply) \<Longrightarrow> msgh_local_port r \<noteq> 0 \<Longrightarrow> demux_step st st'"
| fetch: "i < length (workers st) \<Longrightarrow> activity (workers st ! i) = Ready \<Longrightarrow> demux_step st (worker_next i st)"
| wakeup: "i < length (workers st) \<Longrightarrow> activity (workers st ! i) = Asleep \<Longrightarrow> demux_step st (worker_wakeup i st)"
| finish: "i < length (workers st) \<Longrightarrow> activity (workers st ! i) = Running r \<Longrightarrow> demux_step st (worker_done i r st)"
| inhibit: "pager_inhibit_workers malloc_ok st = Inr (st', waits) \<Longrightarrow> demux_step st st'"
| resume: "pager_resume_workers st = Inr st' \<Longrightarrow> demux_step st st'"

inductive demux_reachable :: "nat \<Rightarrow> pager_requests \<Rightarrow> bool" for n where
  start: "demux_reachable n (pager_start_workers n)"
| step: "demux_reachable n st \<Longrightarrow> demux_step st st' \<Longrightarrow> demux_reachable n st'"

inductive_cases demux_stepE: "demux_step st st'"

section \<open>The invariant\<close>

definition running :: "pager_requests \<Rightarrow> request list" where
  "running st = concat (map (\<lambda>w. case activity w of Running r \<Rightarrow> [r] | _ \<Rightarrow> []) (workers st))"

definition for_port :: "mach_port_t \<Rightarrow> request list \<Rightarrow> request list" where
  "for_port p rs = filter (\<lambda>r. msgh_local_port r = p) rs"

text \<open>The requests for an object that its worker still has to do.\<close>

definition delegated :: "mach_port_t \<Rightarrow> pager_requests \<Rightarrow> request list" where
  "delegated p st = (case find_tagged p st of None \<Rightarrow> [] | Some j \<Rightarrow> w_queue (workers st ! j))"

definition queued :: "pager_requests \<Rightarrow> request list" where
  "queued st = queue_out st @ (case queue_new st of None \<Rightarrow> [] | Some q \<Rightarrow> q)"

definition worker_ok :: "worker \<Rightarrow> bool" where
  "worker_ok w \<longleftrightarrow> (\<forall>r \<in> set (w_queue w). msgh_local_port r = tag w) \<and>
     (w_queue w \<noteq> [] \<longrightarrow> tag w \<noteq> 0) \<and>
     (case activity w of Ready \<Rightarrow> True | Asleep \<Rightarrow> tag w = 0
      | Running r \<Rightarrow> tag w = msgh_local_port r \<and> tag w \<noteq> 0)"

definition tags_distinct :: "worker list \<Rightarrow> bool" where
  "tags_distinct ws \<longleftrightarrow> (\<forall>i j. i < length ws \<longrightarrow> j < length ws \<longrightarrow> tag (ws ! i) = tag (ws ! j) \<longrightarrow>
     tag (ws ! i) \<noteq> 0 \<longrightarrow> i = j)"

definition sleepers :: "worker list \<Rightarrow> nat" where
  "sleepers ws = length (filter (\<lambda>w. activity w = Asleep) ws)"

definition demux_ok :: "pager_requests \<Rightarrow> bool" where
  "demux_ok st \<longleftrightarrow> (\<forall>w \<in> set (workers st). worker_ok w) \<and> tags_distinct (workers st) \<and>
     asleep st = sleepers (workers st) \<and>
     (\<forall>r \<in> set (queued st). msgh_local_port r \<noteq> 0) \<and>
     (\<forall>p. p \<noteq> 0 \<longrightarrow> for_port p (arrived st) = for_port p (started st) @ delegated p st @ for_port p (queued st)) \<and>
     (\<forall>r \<in> set (arrived st) \<union> set (started st). msgh_local_port r \<noteq> 0) \<and>
     mset (started st) = mset (finished st) + mset (running st)"

lemma for_port_simps [simp]:
  "for_port p [] = []" "for_port p (xs @ ys) = for_port p xs @ for_port p ys"
  "for_port p (r # xs) = (if msgh_local_port r = p then r # for_port p xs else for_port p xs)"
  by (simp_all add: for_port_def)

lemma find_tagged_Some: "find_tagged p st = Some j \<Longrightarrow> j < length (workers st) \<and> tag (workers st ! j) = p"
  by (auto simp: find_tagged_def find_Some_iff)

lemma find_tagged_None: "find_tagged p st = None \<longleftrightarrow> (\<forall>j < length (workers st). tag (workers st ! j) \<noteq> p)"
  by (auto simp: find_tagged_def find_None_iff)

lemma find_tagged_iff:
  assumes "tags_distinct (workers st)" and "p \<noteq> 0"
  shows "find_tagged p st = Some j \<longleftrightarrow> j < length (workers st) \<and> tag (workers st ! j) = p"
proof
  assume j: "j < length (workers st) \<and> tag (workers st ! j) = p"
  then obtain k where k: "find_tagged p st = Some k" using find_tagged_None by fastforce
  with find_tagged_Some [OF k] j assms show "find_tagged p st = Some j" by (auto simp: tags_distinct_def)
qed (rule find_tagged_Some)

lemma find_tagged_cong: "map tag (workers st) = map tag (workers st') \<Longrightarrow> find_tagged p st = find_tagged p st'"
proof -
  assume eq: "map tag (workers st) = map tag (workers st')"
  then have len: "length (workers st) = length (workers st')" by (metis length_map)
  with eq have "i < length (workers st) \<Longrightarrow> tag (workers st ! i) = tag (workers st' ! i)" for i
    by (metis nth_map)
  with len show ?thesis
    unfolding find_tagged_def by (intro find_cong) auto
qed

lemma update_worker_fields [simp]:
  "queue_out (update_worker i f st) = queue_out st" "queue_new (update_worker i f st) = queue_new st"
  "asleep (update_worker i f st) = asleep st" "arrived (update_worker i f st) = arrived st"
  "started (update_worker i f st) = started st" "finished (update_worker i f st) = finished st"
  "workers (update_worker i f st) = (workers st)[i := f (workers st ! i)]"
  "queued (update_worker i f st) = queued st"
  by (simp_all add: update_worker_def queued_def)

lemma concat_update:
  assumes "i < length ws"
  shows "mset (concat (map f (ws[i := w]))) + mset (f (ws ! i)) = mset (concat (map f ws)) + mset (f w)"
proof -
  have 1: "concat (map f ws) = concat (map f (take i ws @ ws ! i # drop (Suc i) ws))"
    using id_take_nth_drop [OF assms] by simp
  have 2: "concat (map f (ws[i := w])) = concat (map f (take i ws @ w # drop (Suc i) ws))"
    using upd_conv_take_nth_drop [OF assms, of w] by simp
  show ?thesis unfolding 1 2 by (simp add: add_ac)
qed

lemma sleepers_update:
  assumes "i < length ws"
  shows "sleepers (ws[i := w]) + (if activity (ws ! i) = Asleep then 1 else 0) =
    sleepers ws + (if activity w = Asleep then 1 else 0)"
proof -
  have 1: "sleepers ws = length (filter (\<lambda>w. activity w = Asleep) (take i ws @ ws ! i # drop (Suc i) ws))"
    using id_take_nth_drop [OF assms] by (simp add: sleepers_def)
  have 2: "sleepers (ws[i := w]) = length (filter (\<lambda>w. activity w = Asleep) (take i ws @ w # drop (Suc i) ws))"
    using upd_conv_take_nth_drop [OF assms, of w] by (simp add: sleepers_def)
  show ?thesis unfolding 1 2 by simp
qed

lemma tags_distinct_update:
  assumes "tags_distinct ws" and "i < length ws"
    and "tag w = 0 \<or> tag w = tag (ws ! i) \<or> (\<forall>j < length ws. tag (ws ! j) \<noteq> tag w)"
  shows "tags_distinct (ws[i := w])"
  unfolding tags_distinct_def
proof (intro allI impI)
  fix a b
  assume ab: "a < length (ws[i := w])" "b < length (ws[i := w])"
    and eq: "tag (ws[i := w] ! a) = tag (ws[i := w] ! b)" "tag (ws[i := w] ! a) \<noteq> 0"
  have d: "tag (ws ! x) = tag (ws ! y) \<Longrightarrow> tag (ws ! x) \<noteq> 0 \<Longrightarrow> x = y" if "x < length ws" "y < length ws" for x y
    using assms(1) that by (simp add: tags_distinct_def)
  show "a = b"
    using ab eq assms(2,3) d by (cases "a = i"; cases "b = i") (simp_all, (metis)+)
qed

lemma tag_free:
  assumes "tags_distinct ws" and "i < length ws" and "tag (ws ! i) \<noteq> 0" and "tag w \<noteq> tag (ws ! i)"
  shows "\<forall>j < length (ws[i := w]). tag (ws[i := w] ! j) \<noteq> tag (ws ! i)"
proof (intro allI impI)
  fix j assume "j < length (ws[i := w])"
  then show "tag (ws[i := w] ! j) \<noteq> tag (ws ! i)"
    using assms unfolding tags_distinct_def by (cases "j = i") (simp, metis length_list_update nth_list_update_neq)
qed

lemma delegated_tagged:
  "tags_distinct (workers st) \<Longrightarrow> p \<noteq> 0 \<Longrightarrow> j < length (workers st) \<Longrightarrow> tag (workers st ! j) = p \<Longrightarrow>
     delegated p st = w_queue (workers st ! j)"
  using find_tagged_iff [of st p j] by (simp add: delegated_def)

lemma delegated_untagged:
  "\<forall>j < length (workers st). tag (workers st ! j) \<noteq> p \<Longrightarrow> delegated p st = []"
  using find_tagged_None [of p st] by (simp add: delegated_def)

lemma delegated_update:
  assumes "workers st' = (workers st)[i := w]" and "tags_distinct (workers st)" and "tags_distinct (workers st')"
    and "i < length (workers st)" and "p \<noteq> 0"
  shows "delegated p st' =
    (if tag w = p then w_queue w else if tag (workers st ! i) = p then [] else delegated p st)"
proof -
  consider "tag w = p" | "tag w \<noteq> p" "tag (workers st ! i) = p"
    | j where "tag w \<noteq> p" "tag (workers st ! i) \<noteq> p" "j < length (workers st)" "tag (workers st ! j) = p" "j \<noteq> i"
    | "tag w \<noteq> p" "\<forall>j < length (workers st). tag (workers st ! j) \<noteq> p"
    by blast
  then show ?thesis
  proof cases
    case 1
    with assms delegated_tagged [OF assms(3,5), of i] show ?thesis by simp
  next
    case 2
    then have "\<forall>j < length (workers st'). tag (workers st' ! j) \<noteq> p"
      using tag_free [OF assms(2,4)] assms(1,5) by simp
    with 2 delegated_untagged show ?thesis by simp
  next
    case 3
    with delegated_tagged [OF assms(3,5), of j] delegated_tagged [OF assms(2,5), of j] assms(1) show ?thesis by simp
  next
    case 4
    then have "\<forall>j < length (workers st'). tag (workers st' ! j) \<noteq> p"
      using assms(1) by (metis length_list_update nth_list_update_eq nth_list_update_neq)
    with 4 assms(4) show ?thesis by (simp add: delegated_untagged)
  qed
qed

lemma running_update:
  assumes "workers st' = (workers st)[i := w]" and "i < length (workers st)"
  shows "mset (running st') + mset (case activity (workers st ! i) of Running r \<Rightarrow> [r] | _ \<Rightarrow> []) =
    mset (running st) + mset (case activity w of Running r \<Rightarrow> [r] | _ \<Rightarrow> [])"
  unfolding running_def assms(1) using concat_update [OF assms(2), of "\<lambda>w. case activity w of Running r \<Rightarrow> [r] | _ \<Rightarrow> []" w] .

lemma started_account:
  fixes S S' F F' R R' x y :: "'a multiset"
  assumes "S' + F + x = S + F' + y" and "R' + x = R + y" and "S = F + R"
  shows "S' = F' + R'"
proof -
  have "S' + (F + x) = F + F' + (R + y)" using assms(1,3) by (simp add: add_ac)
  also have "\<dots> = (F' + R') + (F + x)" by (simp add: add_ac flip: assms(2))
  finally show ?thesis by (rule add_right_imp_eq)
qed

text \<open>What is to be shown of a step that changes one worker.\<close>

lemma demux_okI:
  assumes ok: "demux_ok st" and w: "workers st' = (workers st)[i := w]" and i: "i < length (workers st)"
    and "worker_ok w"
    and tag: "tag w = 0 \<or> tag w = tag (workers st ! i) \<or> (\<forall>j < length (workers st). tag (workers st ! j) \<noteq> tag w)"
    and "asleep st' + (if activity (workers st ! i) = Asleep then 1 else 0) = asleep st + (if activity w = Asleep then 1 else 0)"
    and "\<forall>r \<in> set (queued st'). msgh_local_port r \<noteq> 0"
    and "\<forall>r \<in> set (arrived st') \<union> set (started st'). msgh_local_port r \<noteq> 0"
    and hist: "\<And>p. p \<noteq> 0 \<Longrightarrow> for_port p (arrived st) = for_port p (started st) @ delegated p st @ for_port p (queued st) \<Longrightarrow>
      for_port p (arrived st') = for_port p (started st') @
        (if tag w = p then w_queue w else if tag (workers st ! i) = p then [] else delegated p st) @ for_port p (queued st')"
    and "mset (started st') + mset (finished st) + mset (case activity (workers st ! i) of Running r \<Rightarrow> [r] | _ \<Rightarrow> []) =
      mset (started st) + mset (finished st') + mset (case activity w of Running r \<Rightarrow> [r] | _ \<Rightarrow> [])"
  shows "demux_ok st'"
proof -
  have d: "tags_distinct (workers st)" using ok by (simp add: demux_ok_def)
  have d': "tags_distinct (workers st')" unfolding w using d i tag by (rule tags_distinct_update)
  have "\<forall>v \<in> set (workers st'). worker_ok v"
    using ok assms(4) set_update_subset_insert [of "workers st" i w] by (auto simp: w demux_ok_def)
  moreover have "asleep st' = sleepers (workers st')"
    using sleepers_update [OF i, of w] ok assms(6) by (simp add: w demux_ok_def split: if_splits)
  moreover have "for_port p (arrived st') = for_port p (started st') @ delegated p st' @ for_port p (queued st')"
    if "p \<noteq> 0" for p
    using hist [OF that] ok that delegated_update [OF w d d' i that] by (simp add: demux_ok_def)
  moreover have "mset (started st') = mset (finished st') + mset (running st')"
    using started_account [OF assms(10) running_update [OF w i]] ok by (simp add: demux_ok_def)
  ultimately show ?thesis using d' assms(7,8) by (simp add: demux_ok_def)
qed

section \<open>Every step keeps it\<close>

lemma queued_cong: "queue_out st' = queue_out st \<Longrightarrow> queue_new st' = queue_new st \<Longrightarrow> queued st' = queued st"
  by (simp add: queued_def)

lemma demux_ok_worker: "demux_ok st \<Longrightarrow> i < length (workers st) \<Longrightarrow> worker_ok (workers st ! i)"
  by (simp add: demux_ok_def)

lemma demux_ok_ports: "demux_ok st \<Longrightarrow> r \<in> set (queued st) \<union> set (arrived st) \<union> set (started st) \<Longrightarrow> msgh_local_port r \<noteq> 0"
  by (auto simp: demux_ok_def)

lemma delegate_ok:
  assumes ok: "demux_ok st" and q: "queue_out st = r # rest" and j: "find_tagged (msgh_local_port r) st = Some j"
  shows "demux_ok (update_worker j (\<lambda>w. w\<lparr>w_queue := w_queue w @ [r]\<rparr>) (st\<lparr>queue_out := rest\<rparr>))"
proof (rule demux_okI [OF ok])
  let ?w = "(workers st ! j)\<lparr>w_queue := w_queue (workers st ! j) @ [r]\<rparr>"
  have j': "j < length (workers st)" "tag (workers st ! j) = msgh_local_port r"
    using find_tagged_Some [OF j] by simp_all
  have r: "msgh_local_port r \<noteq> 0" using demux_ok_ports [OF ok, of r] q by (simp add: queued_def)
  show "j < length (workers st)" by (rule j'(1))
  show "worker_ok ?w" using demux_ok_worker [OF ok j'(1)] j'(2) r by (auto simp: worker_ok_def split: activity.splits)
  show "for_port p (arrived (update_worker j (\<lambda>w. w\<lparr>w_queue := w_queue w @ [r]\<rparr>) (st\<lparr>queue_out := rest\<rparr>))) =
      for_port p (started (update_worker j (\<lambda>w. w\<lparr>w_queue := w_queue w @ [r]\<rparr>) (st\<lparr>queue_out := rest\<rparr>))) @
      (if tag ?w = p then w_queue ?w else if tag (workers st ! j) = p then [] else delegated p st) @
      for_port p (queued (update_worker j (\<lambda>w. w\<lparr>w_queue := w_queue w @ [r]\<rparr>) (st\<lparr>queue_out := rest\<rparr>)))"
    if "p \<noteq> 0" and h: "for_port p (arrived st) = for_port p (started st) @ delegated p st @ for_port p (queued st)" for p
  proof -
    have "delegated p st = w_queue (workers st ! j)" if "p = msgh_local_port r"
      using that j' r delegated_tagged [of st p j] ok by (simp add: demux_ok_def)
    then show ?thesis using h j'(2) q by (auto simp: queued_def)
  qed
  show "\<forall>r' \<in> set (queued (update_worker j (\<lambda>w. w\<lparr>w_queue := w_queue w @ [r]\<rparr>) (st\<lparr>queue_out := rest\<rparr>))).
      msgh_local_port r' \<noteq> 0"
    using demux_ok_ports [OF ok] q by (auto simp: queued_def)
qed (use demux_ok_ports [OF ok] in \<open>simp_all add: queued_def\<close>)

definition fetching :: "nat \<Rightarrow> pager_requests \<Rightarrow> bool" where
  "fetching i st \<longleftrightarrow> i < length (workers st) \<and> activity (workers st ! i) = Ready \<and> tag (workers st ! i) = 0 \<and>
     w_queue (workers st ! i) = []"

lemma take_ok:
  assumes ok: "demux_ok st" and q: "queue_out st = r # rest" and none: "find_tagged (msgh_local_port r) st = None"
    and f: "fetching i st"
  shows "demux_ok (start_request i r (update_worker i (\<lambda>w. w\<lparr>tag := msgh_local_port r\<rparr>) (st\<lparr>queue_out := rest\<rparr>)))"
    (is "demux_ok ?st'")
proof (rule demux_okI [OF ok, of _ i "(workers st ! i)\<lparr>tag := msgh_local_port r, activity := Running r\<rparr>"])
  have i: "i < length (workers st)" using f by (simp add: fetching_def)
  have r: "msgh_local_port r \<noteq> 0" using demux_ok_ports [OF ok, of r] q by (simp add: queued_def)
  have free: "\<forall>j < length (workers st). tag (workers st ! j) \<noteq> msgh_local_port r"
    using none by (simp add: find_tagged_None)
  show "workers ?st' = (workers st)[i := (workers st ! i)\<lparr>tag := msgh_local_port r, activity := Running r\<rparr>]"
    using i by (simp add: start_request_def)
  show "i < length (workers st)" by (rule i)
  show "worker_ok ((workers st ! i)\<lparr>tag := msgh_local_port r, activity := Running r\<rparr>)"
    using f r by (simp add: worker_ok_def fetching_def)
  show "\<forall>r' \<in> set (queued ?st'). msgh_local_port r' \<noteq> 0"
    using demux_ok_ports [OF ok] q by (auto simp: queued_def start_request_def)
  show "\<forall>r' \<in> set (arrived ?st') \<union> set (started ?st'). msgh_local_port r' \<noteq> 0"
    using demux_ok_ports [OF ok] r by (auto simp: start_request_def)
  fix p assume "p \<noteq> 0" and h: "for_port p (arrived st) = for_port p (started st) @ delegated p st @ for_port p (queued st)"
  moreover have "delegated (msgh_local_port r) st = []" using free by (rule delegated_untagged)
  ultimately show "for_port p (arrived ?st') = for_port p (started ?st') @
      (if tag ((workers st ! i)\<lparr>tag := msgh_local_port r, activity := Running r\<rparr>) = p
       then w_queue ((workers st ! i)\<lparr>tag := msgh_local_port r, activity := Running r\<rparr>)
       else if tag (workers st ! i) = p then [] else delegated p st) @ for_port p (queued ?st')"
    using f q by (auto simp: start_request_def queued_def fetching_def)
qed (use f none in \<open>auto simp: start_request_def fetching_def find_tagged_None\<close>)

lemma sleep_ok:
  assumes ok: "demux_ok st" and f: "fetching i st"
  shows "demux_ok (update_worker i (\<lambda>w. w\<lparr>activity := Asleep\<rparr>) (st\<lparr>asleep := asleep st + 1\<rparr>))"
  by (rule demux_okI [OF ok, of _ i "(workers st ! i)\<lparr>activity := Asleep\<rparr>"])
    (use f demux_ok_worker [OF ok, of i] demux_ok_ports [OF ok] in
      \<open>auto simp: fetching_def worker_ok_def queued_def\<close>)

lemma get_request_locked_ok: "demux_ok st \<Longrightarrow> fetching i st \<Longrightarrow> demux_ok (get_request_locked i st)"
proof (induction i st rule: get_request_locked.induct)
  case (1 i st)
  show ?case
  proof (cases "queue_out st")
    case Nil
    with sleep_ok [OF 1(2,3)] show ?thesis by (simp add: get_request_locked.simps [of i st])
  next
    case (Cons r rest)
    have ft: "find_tagged p (st\<lparr>queue_out := rest\<rparr>) = find_tagged p st" for p
      by (rule find_tagged_cong) simp
    show ?thesis
    proof (cases "find_tagged (msgh_local_port r) st")
      case None
      with Cons 1 show ?thesis by (simp add: get_request_locked.simps [of i st] ft take_ok)
    next
      case (Some j)
      let ?st' = "update_worker j (\<lambda>w. w\<lparr>w_queue := w_queue w @ [r]\<rparr>) (st\<lparr>queue_out := rest\<rparr>)"
      have "msgh_local_port r \<noteq> 0" using demux_ok_ports [OF 1(2), of r] Cons by (simp add: queued_def)
      then have "j \<noteq> i" using find_tagged_Some [OF Some] 1(3) by (auto simp: fetching_def)
      then have "fetching i ?st'" using 1(3) by (simp add: fetching_def)
      moreover have "demux_ok ?st'" using 1(2) Cons Some by (rule delegate_ok)
      ultimately have "demux_ok (get_request_locked i ?st')"
        using 1(1) [OF Cons refl, of j] Some ft by simp
      with Cons Some show ?thesis by (simp add: get_request_locked.simps [of i st] ft)
    qed
  qed
qed

lemma start_queued_ok:
  assumes ok: "demux_ok st" and i: "i < length (workers st)" "activity (workers st ! i) = Ready"
    and q: "w_queue (workers st ! i) = r # rest"
  shows "demux_ok (start_request i r (update_worker i (\<lambda>w. w\<lparr>w_queue := rest\<rparr>) st))" (is "demux_ok ?st'")
proof (rule demux_okI [OF ok, of _ i "(workers st ! i)\<lparr>w_queue := rest, activity := Running r\<rparr>"])
  have w: "tag (workers st ! i) = msgh_local_port r" "msgh_local_port r \<noteq> 0"
    "\<forall>r' \<in> set rest. msgh_local_port r' = msgh_local_port r"
    using demux_ok_worker [OF ok i(1)] q by (auto simp: worker_ok_def)
  show "workers ?st' = (workers st)[i := (workers st ! i)\<lparr>w_queue := rest, activity := Running r\<rparr>]"
    using i by (simp add: start_request_def)
  show "i < length (workers st)" by (rule i)
  show "worker_ok ((workers st ! i)\<lparr>w_queue := rest, activity := Running r\<rparr>)" using w by (simp add: worker_ok_def)
  show "\<forall>r' \<in> set (queued ?st'). msgh_local_port r' \<noteq> 0"
    using demux_ok_ports [OF ok] by (auto simp: queued_def start_request_def)
  show "\<forall>r' \<in> set (arrived ?st') \<union> set (started ?st'). msgh_local_port r' \<noteq> 0"
    using demux_ok_ports [OF ok] w by (auto simp: start_request_def)
  fix p assume p: "p \<noteq> 0" and h: "for_port p (arrived st) = for_port p (started st) @ delegated p st @ for_port p (queued st)"
  have "delegated p st = r # rest" if "p = msgh_local_port r"
    using delegated_tagged [of st p i] ok p i q w that by (simp add: demux_ok_def)
  then show "for_port p (arrived ?st') = for_port p (started ?st') @
      (if tag ((workers st ! i)\<lparr>w_queue := rest, activity := Running r\<rparr>) = p
       then w_queue ((workers st ! i)\<lparr>w_queue := rest, activity := Running r\<rparr>)
       else if tag (workers st ! i) = p then [] else delegated p st) @ for_port p (queued ?st')"
    using h w by (auto simp: start_request_def queued_def)
qed (use i in \<open>auto simp: start_request_def\<close>)

lemma clear_tag_ok:
  assumes ok: "demux_ok st" and i: "i < length (workers st)" "activity (workers st ! i) = Ready"
    and q: "w_queue (workers st ! i) = []"
  shows "demux_ok (update_worker i (\<lambda>w. w\<lparr>tag := 0\<rparr>) st)"
proof (rule demux_okI [OF ok, of _ i "(workers st ! i)\<lparr>tag := 0\<rparr>"])
  fix p assume p: "p \<noteq> 0" and h: "for_port p (arrived st) = for_port p (started st) @ delegated p st @ for_port p (queued st)"
  have "tags_distinct (workers st)" using ok by (simp add: demux_ok_def)
  then have "delegated p st = []" if "tag (workers st ! i) = p"
    using delegated_tagged [OF _ p i(1) that] q by simp
  then show "for_port p (arrived (update_worker i (\<lambda>w. w\<lparr>tag := 0\<rparr>) st)) =
      for_port p (started (update_worker i (\<lambda>w. w\<lparr>tag := 0\<rparr>) st)) @
      (if tag ((workers st ! i)\<lparr>tag := 0\<rparr>) = p then w_queue ((workers st ! i)\<lparr>tag := 0\<rparr>)
       else if tag (workers st ! i) = p then [] else delegated p st) @
      for_port p (queued (update_worker i (\<lambda>w. w\<lparr>tag := 0\<rparr>) st))"
    using h p by (cases "tag (workers st ! i) = p") simp_all
qed (use i q demux_ok_ports [OF ok] in \<open>auto simp: worker_ok_def\<close>)

lemma worker_next_ok:
  assumes "demux_ok st" and "i < length (workers st)" and "activity (workers st ! i) = Ready"
  shows "demux_ok (worker_next i st)"
proof (cases "w_queue (workers st ! i)")
  case Nil
  with clear_tag_ok [OF assms] assms get_request_locked_ok show ?thesis
    by (simp add: worker_next_def fetching_def)
next
  case (Cons r rest)
  with start_queued_ok [OF assms] show ?thesis by (simp add: worker_next_def)
qed

lemma wake_ok:
  assumes ok: "demux_ok st" and i: "i < length (workers st)" "activity (workers st ! i) = Asleep"
  shows "demux_ok (update_worker i (\<lambda>w. w\<lparr>activity := Ready\<rparr>) (st\<lparr>asleep := asleep st - 1\<rparr>))"
proof (rule demux_okI [OF ok, of _ i "(workers st ! i)\<lparr>activity := Ready\<rparr>"])
  have "workers st ! i \<in> set (filter (\<lambda>w. activity w = Asleep) (workers st))" using i by simp
  then have "0 < asleep st" using ok by (auto simp: demux_ok_def sleepers_def filter_empty_conv)
  then show "asleep (update_worker i (\<lambda>w. w\<lparr>activity := Ready\<rparr>) (st\<lparr>asleep := asleep st - 1\<rparr>)) +
      (if activity (workers st ! i) = Asleep then 1 else 0) =
      asleep st + (if activity ((workers st ! i)\<lparr>activity := Ready\<rparr>) = Asleep then 1 else 0)"
    using i by simp
qed (use i demux_ok_worker [OF ok, of i] demux_ok_ports [OF ok] in \<open>auto simp: worker_ok_def queued_def\<close>)

lemma worker_wakeup_ok:
  assumes "demux_ok st" and "i < length (workers st)" and "activity (workers st ! i) = Asleep"
  shows "demux_ok (worker_wakeup i st)"
proof -
  have "tag (workers st ! i) = 0 \<and> w_queue (workers st ! i) = []"
    using demux_ok_worker [OF assms(1,2)] assms(3) by (auto simp: worker_ok_def)
  then have "fetching i (update_worker i (\<lambda>w. w\<lparr>activity := Ready\<rparr>) (st\<lparr>asleep := asleep st - 1\<rparr>))"
    using assms(2) by (simp add: fetching_def)
  with wake_ok [OF assms] show ?thesis unfolding worker_wakeup_def by (intro get_request_locked_ok)
qed

lemma worker_done_ok:
  assumes ok: "demux_ok st" and i: "i < length (workers st)" "activity (workers st ! i) = Running r"
  shows "demux_ok (worker_done i r st)"
proof (rule demux_okI [OF ok, of _ i "(workers st ! i)\<lparr>activity := Ready\<rparr>"])
  show "worker_ok ((workers st ! i)\<lparr>activity := Ready\<rparr>)"
    using demux_ok_worker [OF ok i(1)] by (simp add: worker_ok_def)
  fix p assume p: "p \<noteq> 0" and h: "for_port p (arrived st) = for_port p (started st) @ delegated p st @ for_port p (queued st)"
  have "tags_distinct (workers st)" using ok by (simp add: demux_ok_def)
  then have "delegated p st = w_queue (workers st ! i)" if "tag (workers st ! i) = p"
    using delegated_tagged [OF _ p i(1) that] by simp
  then show "for_port p (arrived (worker_done i r st)) = for_port p (started (worker_done i r st)) @
      (if tag ((workers st ! i)\<lparr>activity := Ready\<rparr>) = p then w_queue ((workers st ! i)\<lparr>activity := Ready\<rparr>)
       else if tag (workers st ! i) = p then [] else delegated p st) @ for_port p (queued (worker_done i r st))"
    using h by (cases "tag (workers st ! i) = p") (simp_all add: worker_done_def queued_def)
qed (use i demux_ok_ports [OF ok] in \<open>auto simp: worker_done_def queued_def\<close>)

lemma demux_ok_cong:
  assumes "demux_ok st" and "workers st' = workers st" and "asleep st' = asleep st" and "finished st' = finished st"
    and "started st' = started st" and "\<forall>r \<in> set (queued st') \<union> set (arrived st'). msgh_local_port r \<noteq> 0"
    and "\<And>p. \<exists>xs. for_port p (arrived st') = for_port p (arrived st) @ xs \<and> for_port p (queued st') = for_port p (queued st) @ xs"
  shows "demux_ok st'"
proof -
  have d: "delegated p st' = delegated p st" for p
    using assms(2) find_tagged_cong [of st' st p] by (simp add: delegated_def split: option.split)
  have "for_port p (arrived st') = for_port p (started st') @ delegated p st' @ for_port p (queued st')" if "p \<noteq> 0" for p
    using assms(1,5) assms(7) [of p] that d by (auto simp: demux_ok_def)
  moreover have "running st' = running st" using assms(2) by (simp add: running_def)
  ultimately show ?thesis using assms by (auto simp: demux_ok_def)
qed

lemma demux_ok_step: "demux_step st st' \<Longrightarrow> demux_ok st \<Longrightarrow> demux_ok st'"
proof (induction rule: demux_step.induct)
  case (receive has_routine malloc_ok r st st' reply)
  then consider "st' = st" | "st' = enqueue_request r st" by (auto simp: pager_demuxer_def split: if_splits)
  then show ?case
  proof cases
    case 2
    show ?thesis
      using receive(2,3) demux_ok_ports [OF receive(3)] unfolding 2
      by (intro demux_ok_cong [OF receive(3)])
        (auto simp: enqueue_request_def queued_def for_port_def split: option.splits)
  qed (use receive in simp)
next
  case (inhibit malloc_ok st st' waits)
  then show ?case
    using demux_ok_ports [OF inhibit(2)]
    by (intro demux_ok_cong [OF inhibit(2)]) (auto simp: pager_inhibit_workers_def queued_def split: if_splits)
next
  case (resume st st')
  then show ?case
    using demux_ok_ports [OF resume(2)]
    by (intro demux_ok_cong [OF resume(2)])
      (auto simp: pager_resume_workers_def queued_def split: if_splits option.splits)
qed (auto intro: worker_next_ok worker_wakeup_ok worker_done_ok)

lemma demux_ok_start: "demux_ok (pager_start_workers n)"
  by (simp add: demux_ok_def pager_start_workers_def worker_ok_def tags_distinct_def sleepers_def queued_def
    running_def delegated_def find_tagged_def split: option.split)
    (auto simp: find_Some_iff)

lemma demux_ok_reachable: "demux_reachable n st \<Longrightarrow> demux_ok st"
  by (induction rule: demux_reachable.induct) (auto intro: demux_ok_start demux_ok_step)

end
