(* ===== verification/Demuxer_Properties.thy ===== *)
theory Demuxer_Properties
  imports Demuxer_Order
begin

text \<open>
  The properties of the worker pool: requests for an object are processed one at a time and in the
  order they arrived, inhibiting the workers waits for everything that arrived before, and the
  linked queues behave like lists.
\<close>

section \<open>A run for the witnesses\<close>

definition request_a :: request where
  "request_a = \<lparr>request_id = 1, msgh_local_port = 5\<rparr>"

definition request_b :: request where
  "request_b = \<lparr>request_id = 2, msgh_local_port = 5\<rparr>"

definition two_received :: pager_requests where
  "two_received = enqueue_request request_b (enqueue_request request_a (pager_start_workers 2))"

text \<open>Two workers; the first has taken a request, the second delegates the next to it and sleeps.\<close>

definition delegated_run :: pager_requests where
  "delegated_run = worker_next 1 (worker_next 0 two_received)"

lemma two_received_reachable: "demux_reachable 2 two_received"
proof -
  have step: "demux_step st (enqueue_request r st)" if "msgh_local_port r \<noteq> 0" for r st
    using that by (intro demux_step.receive [of True True r st _ "snd (pager_demuxer True True r st)"])
      (simp_all add: pager_demuxer_def)
  have "demux_reachable 2 (enqueue_request request_a (pager_start_workers 2))"
    by (rule demux_reachable.step [OF demux_reachable.start step]) (simp add: request_a_def)
  then show ?thesis
    unfolding two_received_def by (rule demux_reachable.step [OF _ step]) (simp add: request_b_def)
qed

lemma delegated_run_reachable: "demux_reachable 2 delegated_run"
proof -
  have "demux_step two_received (worker_next 0 two_received)"
    by (rule demux_step.fetch) code_simp+
  moreover have "demux_step (worker_next 0 two_received) (worker_next 1 (worker_next 0 two_received))"
    by (rule demux_step.fetch) code_simp+
  ultimately show ?thesis
    unfolding delegated_run_def using two_received_reachable demux_reachable.step by blast
qed

section \<open>Order and exclusion\<close>



text \<open>No two workers process requests for the same object at the same time.\<close>

theorem one_worker_per_object:
  assumes "demux_reachable n st" and "i < length (workers st)" and "j < length (workers st)" and "i \<noteq> j"
    and "activity (workers st ! i) = Running r" and "activity (workers st ! j) = Running r'"
  shows "msgh_local_port r \<noteq> msgh_local_port r'"
proof -
  have ok: "demux_ok st" using assms(1) by (rule demux_ok_reachable)
  have "tag (workers st ! i) = msgh_local_port r \<and> msgh_local_port r \<noteq> 0"
    using demux_ok_worker [OF ok assms(2)] assms(5) by (auto simp: worker_ok_def)
  moreover have "tag (workers st ! j) = msgh_local_port r'"
    using demux_ok_worker [OF ok assms(3)] assms(6) by (simp add: worker_ok_def)
  moreover have "tags_distinct (workers st)" using ok by (simp add: demux_ok_def)
  ultimately show ?thesis using assms(2-4) unfolding tags_distinct_def by metis
qed

definition two_objects_run :: pager_requests where
  "two_objects_run = worker_next 1 (worker_next 0 (enqueue_request \<lparr>request_id = 3, msgh_local_port = 6\<rparr> two_received))"

lemma one_worker_per_object_witness:
  "\<exists>r r'. activity (workers two_objects_run ! 0) = Running r \<and> activity (workers two_objects_run ! 1) = Running r' \<and>
     msgh_local_port r \<noteq> msgh_local_port r'"
proof -
  let ?c = "\<lparr>request_id = 3, msgh_local_port = 6\<rparr>" let ?st = "enqueue_request ?c two_received"
  have "demux_step two_received ?st"
    by (rule demux_step.receive [of True True ?c two_received _ "snd (pager_demuxer True True ?c two_received)"])
      (simp_all add: pager_demuxer_def)
  moreover have "demux_step ?st (worker_next 0 ?st)" by (rule demux_step.fetch) code_simp+
  moreover have "demux_step (worker_next 0 ?st) two_objects_run"
    unfolding two_objects_run_def by (rule demux_step.fetch) code_simp+
  ultimately have reach: "demux_reachable 2 two_objects_run"
    using two_received_reachable by (blast intro: demux_reachable.step)
  have "activity (workers two_objects_run ! 0) = Running request_a"
    "activity (workers two_objects_run ! 1) = Running ?c" "length (workers two_objects_run) = 2" by code_simp+
  then show ?thesis using one_worker_per_object [OF reach, of 0 1 request_a ?c] by auto
qed

section \<open>Inhibiting the workers\<close>

lemma sleepers_all:
  assumes "sleepers ws = length ws"
  shows "\<forall>w \<in> set ws. activity w = Asleep"
  using assms length_filter_less [of _ ws "\<lambda>w. activity w = Asleep"] by (auto simp: sleepers_def)

lemma inhibited_asleep:
  assumes "demux_ok st" and "inhibited st"
  shows "(\<forall>w \<in> set (workers st). activity w = Asleep) \<and> queue_out st = [] \<and> asleep st = WORKER_COUNT st"
proof -
  have "sleepers (workers st) \<le> length (workers st)" by (simp add: sleepers_def)
  with assms have "sleepers (workers st) = length (workers st)"
    by (simp add: demux_ok_def inhibited_def WORKER_COUNT_def)
  with assms sleepers_all show ?thesis by (simp add: demux_ok_def inhibited_def WORKER_COUNT_def)
qed

lemma inhibited_delegated:
  assumes ok: "demux_ok st" and "inhibited st" and "p \<noteq> 0"
  shows "delegated p st = []"
proof (rule delegated_untagged, intro allI impI)
  fix j assume j: "j < length (workers st)"
  then have "activity (workers st ! j) = Asleep" using inhibited_asleep [OF assms(1,2)] by simp
  with demux_ok_worker [OF ok j] assms(3) show "tag (workers st ! j) \<noteq> p" by (auto simp: worker_ok_def)
qed

lemma count_for_port: "count (mset (for_port (msgh_local_port r) xs)) r = count (mset xs) r"
  by (induction xs) auto

text \<open>C27: When \<^verbatim>\<open>pager_inhibit_workers\<close> ends its wait, every request that arrived before it has been
  processed to the end (the requests that arrived later are exactly those in the new queue), no
  worker is running, and the assertions of \<^verbatim>\<open>pager_resume_workers\<close> hold.\<close>

theorem inhibit_waits_for_all:
  assumes "demux_reachable n st" and "queue_new st = Some q" and "inhibited st"
  shows "mset (arrived st) = mset (finished st) + mset q \<and> running st = [] \<and>
    (\<exists>st'. pager_resume_workers st = Inr st' \<and> queue_out st' = q)"
proof -
  have ok: "demux_ok st" using assms(1) by (rule demux_ok_reachable)
  note s = inhibited_asleep [OF ok assms(3)]
  have run: "running st = []" using s by (simp add: running_def)
  have "delegated p st = []" if "p \<noteq> 0" for p by (rule inhibited_delegated [OF ok assms(3) that])
  then have hist: "for_port p (arrived st) = for_port p (started st) @ for_port p q" if "p \<noteq> 0" for p
    using ok s assms(2) that by (simp add: demux_ok_def queued_def)
  have "count (mset (arrived st)) r = count (mset (started st)) r + count (mset q) r" for r
  proof (cases "msgh_local_port r = 0")
    case True
    then have "r \<notin> set (arrived st) \<union> set (started st) \<union> set q"
      using demux_ok_ports [OF ok, of r] assms(2) by (auto simp: queued_def)
    then have "count (mset (arrived st)) r = 0" "count (mset (started st)) r = 0" "count (mset q) r = 0"
      by (simp_all add: count_mset_0_iff)
    then show ?thesis by (simp only: add_0)
  next
    case False
    from arg_cong [OF hist [OF this], of "\<lambda>xs. count (mset xs) r"] show ?thesis by (simp add: count_for_port)
  qed
  then have "mset (arrived st) = mset (started st) + mset q" by (simp add: multiset_eq_iff)
  moreover have "mset (started st) = mset (finished st)" using ok run by (simp add: demux_ok_def)
  moreover have "pager_resume_workers st = Inr (st\<lparr>queue_out := q, queue_new := None\<rparr>)"
    using s assms(2) by (simp add: pager_resume_workers_def)
  ultimately show ?thesis using run by simp
qed

definition inhibited_run :: pager_requests where
  "inhibited_run = (worker_next 0 (pager_start_workers 1))\<lparr>queue_new := Some []\<rparr>"

lemma inhibited_run_reachable: "demux_reachable 1 inhibited_run"
proof -
  have "demux_step (pager_start_workers 1) (worker_next 0 (pager_start_workers 1))"
    by (rule demux_step.fetch) code_simp+
  moreover have "demux_step (worker_next 0 (pager_start_workers 1)) inhibited_run"
    by (rule demux_step.inhibit [of True _ _ True]) code_simp
  ultimately show ?thesis by (blast intro: demux_reachable.start demux_reachable.step)
qed

lemma inhibit_waits_for_all_witness: "\<exists>st'. pager_resume_workers inhibited_run = Inr st'"
proof -
  have "queue_new inhibited_run = Some []" "inhibited inhibited_run" by code_simp+
  then show ?thesis using inhibit_waits_for_all [OF inhibited_run_reachable] by blast
qed

text \<open>Once the workers are inhibited they stay so: any step, spurious wake-ups and new messages
  included, leaves them inhibited, except \<^verbatim>\<open>pager_resume_workers\<close> itself.\<close>

lemma inhibition_is_stable:
  assumes "demux_reachable n st" and "queue_new st = Some q" and "inhibited st" and "demux_step st st'"
  shows "(inhibited st' \<and> finished st' = finished st \<and> started st' = started st \<and> queue_new st' \<noteq> None) \<or>
    pager_resume_workers st = Inr st'"
proof -
  have ok: "demux_ok st" using assms(1) by (rule demux_ok_reachable)
  note s = inhibited_asleep [OF ok assms(3)]
  from assms(4) show ?thesis
  proof (cases rule: demux_step.cases)
    case (receive has_routine malloc_ok r reply)
    then show ?thesis
      using assms(2,3) by (auto simp: pager_demuxer_def enqueue_request_def inhibited_def WORKER_COUNT_def split: if_splits)
  next
    case (fetch i)
    then show ?thesis using s by force
  next
    case (wakeup i)
    let ?u = "update_worker i (\<lambda>w. w\<lparr>activity := Ready\<rparr>) (st\<lparr>asleep := asleep st - 1\<rparr>)"
    have "st' = update_worker i (\<lambda>w. w\<lparr>activity := Asleep\<rparr>) (?u\<lparr>asleep := asleep ?u + 1\<rparr>)"
      using wakeup s by (simp add: worker_wakeup_def get_request_locked.simps)
    then show ?thesis using s assms(2) wakeup by (auto simp: inhibited_def WORKER_COUNT_def)
  next
    case (finish i r)
    then show ?thesis using s by force
  next
    case (inhibit malloc_ok waits)
    then show ?thesis using assms(2) by (simp add: pager_inhibit_workers_def)
  next
    case resume
    then show ?thesis by simp
  qed
qed

section \<open>The linked queues\<close>

datatype queue_op = Enqueue addr | Dequeue

fun linked_run :: "queue_op list \<Rightarrow> queue \<times> item_heap \<Rightarrow> addr option list" where
  "linked_run [] qh = []"
| "linked_run (Enqueue r # ops) qh = linked_run ops (queue_enqueue r qh)"
| "linked_run (Dequeue # ops) qh = (case queue_dequeue qh of (r, qh') \<Rightarrow> r # linked_run ops qh')"

fun list_run :: "queue_op list \<Rightarrow> addr list \<Rightarrow> addr option list" where
  "list_run [] xs = []"
| "list_run (Enqueue r # ops) xs = list_run ops (xs @ [r])"
| "list_run (Dequeue # ops) [] = None # list_run ops []"
| "list_run (Dequeue # ops) (x # xs) = Some x # list_run ops xs"

text \<open>No item is put into the queue while it is in it.\<close>

fun fresh_ops :: "queue_op list \<Rightarrow> addr list \<Rightarrow> bool" where
  "fresh_ops [] xs \<longleftrightarrow> True"
| "fresh_ops (Enqueue r # ops) xs \<longleftrightarrow> r \<notin> set xs \<and> fresh_ops ops (xs @ [r])"
| "fresh_ops (Dequeue # ops) xs \<longleftrightarrow> fresh_ops ops (tl xs)"

lemma linked_run_list:
  "queue_list qh xs \<Longrightarrow> fresh_ops ops xs \<Longrightarrow> linked_run ops qh = list_run ops xs"
proof (induction ops xs arbitrary: qh rule: list_run.induct)
  case (2 r ops xs)
  then show ?case by (simp add: queue_enqueue_list)
next
  case (3 ops)
  then show ?case by (simp add: queue_dequeue_empty)
next
  case (4 ops x xs)
  with queue_dequeue_list [OF 4(2)] show ?case by auto
qed simp

text \<open>C37: The linked queue is a FIFO queue: for every sequence of operations that puts no item in twice,
  starting from \<^verbatim>\<open>queue_init\<close> and any heap, the dequeue operations return what they return on a list.\<close>

theorem linked_queue_is_fifo:
  assumes "fresh_ops ops []"
  shows "linked_run ops (queue_init, h) = list_run ops []"
  using queue_list_init assms by (rule linked_run_list)

lemma linked_queue_is_fifo_witness:
  "linked_run [Enqueue 1, Enqueue 2, Dequeue, Enqueue 1, Dequeue, Dequeue, Dequeue] (queue_init, \<lambda>_. None) =
     [Some 1, Some 2, Some 1, None]"
  using linked_queue_is_fifo [of "[Enqueue 1, Enqueue 2, Dequeue, Enqueue 1, Dequeue, Dequeue, Dequeue]" "\<lambda>_. None"]
  by simp

text \<open>Delegating a request moves it from the head of one queue to the end of another in the same
  heap: both stay well formed, and the rest of both is unchanged.\<close>

lemma delegate_between_queues:
  assumes "queue_list (q1, h) (x # xs)" and "queue_list (q2, h) ys" and "set (x # xs) \<inter> set ys = {}"
    and "queue_dequeue (q1, h) = (r, q1', h')" and "queue_enqueue x (q2, h') = (q2', h'')"
  shows "r = Some x \<and> queue_list (q1', h'') xs \<and> queue_list (q2', h'') (ys @ [x])"
proof -
  from queue_dequeue_list [OF assms(1)] assms(4) have r: "r = Some x" and l1: "queue_list (q1', h') xs" by auto
  have "\<forall>a \<in> set ys. h' a = h a"
    using queue_dequeue_frame [OF assms(1)] assms(3,4) by fastforce
  with assms(2) have l2: "queue_list (q2, h') ys" by (rule queue_list_frame)
  have x: "x \<notin> set ys" "x \<notin> set xs" using assms(1,3) by (auto simp: queue_list_def)
  from queue_enqueue_list [OF l2 x(1)] assms(5) have "queue_list (q2', h'') (ys @ [x])" by simp
  moreover have "\<forall>a \<in> set xs. h'' a = h' a"
    using queue_enqueue_frame [OF l2, of _ x] assms(3,5) x by fastforce
  with l1 have "queue_list (q1', h'') xs" by (rule queue_list_frame)
  ultimately show ?thesis using r by simp
qed

end
