(* ===== verification/Pager_System.thy ===== *)
theory Pager_System
  imports Pager_Threads Pager_Example Demuxer_Properties
begin

text \<open>
  The pager library as a whole: the thread that receives messages and the workers of \<open>demuxer.c\<close>
  (\<open>Demuxer\<close>), the queues between them, and the pagers that the messages are for, with their methods
  cut into critical sections and calls (\<open>Pager_Threads\<close>). Any number of workers serve any number
  of pagers; a step is one action of one thread.

  The message of a request is \<open>content\<close>, what the stack of its worker held before is \<open>stack_of\<close>, the
  functions of the file system behind a port are \<open>file_system\<close>. A step whose section fails an assertion ends
  the process, so the system has no such step.
\<close>

section \<open>The system\<close>

text \<open>
  \<open>tasks i\<close> is what worker \<open>i\<close> still has to do for its request; \<open>None\<close> before it calls the routine.
  \<open>signals\<close> is the number of sleeping workers that have been woken by \<^verbatim>\<open>pthread_cond_signal\<close> or
  \<^verbatim>\<open>pthread_cond_broadcast\<close> on \<^verbatim>\<open>requests->wakeup\<close> and have not yet got the lock.
\<close>

record system =
  pool :: pager_requests
  pagers :: "mach_port_t \<Rightarrow> pager"
  tasks :: "nat \<Rightarrow> task list option"
  signals :: nat

record environment =
  file_system :: "mach_port_t \<Rightarrow> user_pager"
  content :: "request \<Rightarrow> kernel_message"
  stack_of :: "request \<Rightarrow> nat \<Rightarrow> bool"

definition initial_system :: "nat \<Rightarrow> (mach_port_t \<Rightarrow> pager) \<Rightarrow> system" where
  "initial_system n ps = \<lparr>pool = pager_start_workers n, pagers = ps, tasks = (\<lambda>_. None), signals = 0\<rparr>"

definition works_on :: "system \<Rightarrow> nat \<Rightarrow> request \<Rightarrow> bool" where
  "works_on c i r \<longleftrightarrow> i < length (workers (pool c)) \<and> activity (workers (pool c) ! i) = Running r"

text \<open>The worker has the result of a section of its method: the pager and what is left to do.\<close>

definition section_done :: "nat \<Rightarrow> request \<Rightarrow> pager \<Rightarrow> task list \<Rightarrow> system \<Rightarrow> system" where
  "section_done i r s ts c = c\<lparr>pagers := (pagers c)(msgh_local_port r := s), tasks := (tasks c)(i := Some ts)\<rparr>"

text \<open>A signal wakes one more sleeping worker, if there is one.\<close>

definition signal_worker :: "demux_reply \<Rightarrow> system \<Rightarrow> nat" where
  "signal_worker reply c = (if reply = Reply_later True then min (signals c + 1) (asleep (pool c)) else signals c)"

inductive system_step :: "environment \<Rightarrow> system \<Rightarrow> system \<Rightarrow> bool" for E where
  receive: "pager_demuxer has_routine malloc_ok r (pool c) = (st', reply) \<Longrightarrow> msgh_local_port r \<noteq> 0 \<Longrightarrow>
    system_step E c (c\<lparr>pool := st', signals := signal_worker reply c\<rparr>)"
| inhibit: "pager_inhibit_workers malloc_ok (pool c) = Inr (st', waits) \<Longrightarrow> system_step E c (c\<lparr>pool := st'\<rparr>)"
| resume: "pager_resume_workers (pool c) = Inr st' \<Longrightarrow> system_step E c (c\<lparr>pool := st', signals := asleep (pool c)\<rparr>)"
| fetch: "i < length (workers (pool c)) \<Longrightarrow> activity (workers (pool c) ! i) = Ready \<Longrightarrow>
    system_step E c (c\<lparr>pool := worker_next i (pool c), tasks := (tasks c)(i := None)\<rparr>)"
| wakeup: "0 < signals c \<Longrightarrow> i < length (workers (pool c)) \<Longrightarrow> activity (workers (pool c) ! i) = Asleep \<Longrightarrow>
    system_step E c (c\<lparr>pool := worker_wakeup i (pool c), tasks := (tasks c)(i := None), signals := signals c - 1\<rparr>)"
| call: "works_on c i r \<Longrightarrow> tasks c i = None \<Longrightarrow>
    start (stack_of E r) (content E r) (pagers c (msgh_local_port r)) = Inr (s', ts) \<Longrightarrow>
    system_step E c (section_done i r s' ts c)"
| continue: "works_on c i r \<Longrightarrow> tasks c i = Some (t # ts) \<Longrightarrow>
    exec (file_system E (msgh_local_port r)) t (pagers c (msgh_local_port r)) = Inr (s', ts') \<Longrightarrow>
    system_step E c (section_done i r s' (ts' @ ts) c)"
| reply: "works_on c i r \<Longrightarrow> tasks c i = Some [] \<Longrightarrow> system_step E c (c\<lparr>pool := worker_done i r (pool c)\<rparr>)"

text \<open>Now and then \<^verbatim>\<open>pthread_cond_wait\<close> returns although the worker was not woken.\<close>

inductive system_reachable :: "environment \<Rightarrow> nat \<Rightarrow> (mach_port_t \<Rightarrow> pager) \<Rightarrow> system \<Rightarrow> bool" for E n ps where
  start: "system_reachable E n ps (initial_system n ps)"
| step: "system_reachable E n ps c \<Longrightarrow> system_step E c c' \<Longrightarrow> system_reachable E n ps c'"
| spurious: "system_reachable E n ps c \<Longrightarrow> i < length (workers (pool c)) \<Longrightarrow> activity (workers (pool c) ! i) = Asleep \<Longrightarrow>
    signals c < asleep (pool c) \<Longrightarrow>
    system_reachable E n ps (c\<lparr>pool := worker_wakeup i (pool c), tasks := (tasks c)(i := None)\<rparr>)"

section \<open>What a worker that fetches a request does to the pool\<close>

text \<open>Everybody else goes on with what he does; the worker starts one more request or sleeps.\<close>

definition fetched :: "nat \<Rightarrow> pager_requests \<Rightarrow> pager_requests \<Rightarrow> bool" where
  "fetched i st st' \<longleftrightarrow> map activity (workers st') = (map activity (workers st))[i := activity (workers st' ! i)] \<and>
     (activity (workers st' ! i) = Asleep \<and> started st' = started st \<or>
      (\<exists>r. activity (workers st' ! i) = Running r \<and> started st' = started st @ [r]))"

lemma activities_update:
  "(\<And>w. activity (f w) = activity w) \<Longrightarrow> map activity (workers (update_worker i f st)) = map activity (workers st)"
  by (simp add: map_update) (metis list_update_id map_update)

lemma start_request_fetched:
  assumes "i < length (workers st)" and "map activity (workers st') = map activity (workers st)" and "started st' = started st"
  shows "fetched i st (start_request i r st')"
proof -
  have "length (workers st') = length (workers st)" using assms(2) by (metis length_map)
  with assms show ?thesis by (simp add: fetched_def start_request_def map_update)
qed

lemma get_request_locked_fetched:
  assumes "i < length (workers st)" and "map activity (workers st') = map activity (workers st)" and "started st' = started st"
  shows "fetched i st (get_request_locked i st')"
  using assms
proof (induction i st' rule: get_request_locked.induct)
  case (1 i st')
  have len: "length (workers st') = length (workers st)" using 1(3) by (metis length_map)
  show ?case
  proof (cases "queue_out st'")
    case Nil
    then show ?thesis using 1(2-) len by (simp add: get_request_locked.simps [of i st'] fetched_def map_update)
  next
    case (Cons r rest)
    show ?thesis
    proof (cases "find_tagged (msgh_local_port r) (st'\<lparr>queue_out := rest\<rparr>)")
      case None
      then show ?thesis
        using Cons 1(2-) len activities_update [of "\<lambda>w. w\<lparr>tag := msgh_local_port r\<rparr>" i "st'\<lparr>queue_out := rest\<rparr>"]
        by (simp add: get_request_locked.simps [of i st'] start_request_fetched)
    next
      case (Some j)
      then show ?thesis
        using Cons 1(2-) 1(1) [OF Cons refl Some]
          activities_update [of "\<lambda>w. w\<lparr>w_queue := w_queue w @ [r]\<rparr>" j "st'\<lparr>queue_out := rest\<rparr>"]
        by (simp add: get_request_locked.simps [of i st'] del: update_worker_fields(7))
    qed
  qed
qed

lemma worker_next_fetched: "i < length (workers st) \<Longrightarrow> fetched i st (worker_next i st)"
  by (auto simp: worker_next_def activities_update split: list.split
    intro!: start_request_fetched get_request_locked_fetched simp del: update_worker_fields(7))

lemma worker_wakeup_fetched:
  assumes "i < length (workers st)" and "activity (workers st ! i) = Asleep"
  shows "fetched i st (worker_wakeup i st)"
proof -
  let ?st = "update_worker i (\<lambda>w. w\<lparr>activity := Ready\<rparr>) (st\<lparr>asleep := asleep st - 1\<rparr>)"
  have "fetched i ?st (get_request_locked i ?st)" using assms(1) by (intro get_request_locked_fetched) simp_all
  then show ?thesis by (simp add: fetched_def worker_wakeup_def map_update)
qed

section \<open>The invariant\<close>

text \<open>The requests of a port, served by its pager one after the other.\<close>

definition serve_requests :: "environment \<Rightarrow> mach_port_t \<Rightarrow> request list \<Rightarrow> pager \<Rightarrow> pager result" where
  "serve_requests E p rs s = for_each (\<lambda>r. method_of (file_system E p) (stack_of E r) (content E r)) rs s"

text \<open>What the pager will be when the worker is through with its request.\<close>

definition completion :: "environment \<Rightarrow> system \<Rightarrow> nat \<Rightarrow> request \<Rightarrow> pager result" where
  "completion E c i r =
     (let p = msgh_local_port r; U = file_system E p in
      case tasks c i of None \<Rightarrow> method_of U (stack_of E r) (content E r) (pagers c p)
      | Some ts \<Rightarrow> meanings U ts (pagers c p))"

lemma completion_cong:
  "pagers c' (msgh_local_port r) = pagers c (msgh_local_port r) \<Longrightarrow> tasks c' i = tasks c i \<Longrightarrow>
     completion E c' i r = completion E c i r"
  by (simp add: completion_def Let_def split: option.split)

definition free_port :: "system \<Rightarrow> mach_port_t \<Rightarrow> bool" where
  "free_port c p \<longleftrightarrow> (\<forall>i r. works_on c i r \<longrightarrow> msgh_local_port r \<noteq> p)"

definition system_ok :: "environment \<Rightarrow> (mach_port_t \<Rightarrow> pager) \<Rightarrow> system \<Rightarrow> bool" where
  "system_ok E ps c \<longleftrightarrow> demux_ok (pool c) \<and>
     (\<forall>i r. works_on c i r \<longrightarrow>
        serve_requests E (msgh_local_port r) (for_port (msgh_local_port r) (started (pool c))) (ps (msgh_local_port r)) =
        completion E c i r) \<and>
     (\<forall>p. free_port c p \<longrightarrow> serve_requests E p (for_port p (started (pool c))) (ps p) = Inr (pagers c p))"

lemma works_on_signals [simp]: "works_on (c\<lparr>signals := k\<rparr>) = works_on c"
  by (intro ext) (simp add: works_on_def)

lemma system_ok_signals [simp]: "system_ok E ps (c\<lparr>signals := k\<rparr>) = system_ok E ps c"
proof -
  have "completion E (c\<lparr>signals := k\<rparr>) i r = completion E c i r" for i r by (rule completion_cong) simp_all
  then show ?thesis by (simp add: system_ok_def free_port_def)
qed

lemma pool_step: "system_step E c c' \<Longrightarrow> demux_step (pool c) (pool c') \<or> pool c' = pool c"
  by (induction rule: system_step.induct) (auto simp: section_done_def works_on_def intro: demux_step.intros)

lemma demux_ok_unique:
  assumes "demux_ok (pool c)" and "works_on c i r" and "works_on c j r'" and "msgh_local_port r = msgh_local_port r'"
  shows "i = j"
proof -
  have "tag (workers (pool c) ! i) = msgh_local_port r" "tag (workers (pool c) ! j) = msgh_local_port r" "msgh_local_port r \<noteq> 0"
    using assms demux_ok_worker [OF assms(1)] by (force simp: works_on_def worker_ok_def)+
  then show ?thesis using assms(1-3) unfolding demux_ok_def tags_distinct_def works_on_def by metis
qed

text \<open>Steps that only queue requests.\<close>

lemma system_ok_queue:
  assumes "system_ok E ps c" and "demux_ok st'" and "workers st' = workers (pool c)" and "started st' = started (pool c)"
  shows "system_ok E ps (c\<lparr>pool := st'\<rparr>)"
proof -
  have "works_on (c\<lparr>pool := st'\<rparr>) i r = works_on c i r" for i r using assms(3) by (simp add: works_on_def)
  moreover have "completion E (c\<lparr>pool := st'\<rparr>) i r = completion E c i r" for i r by (rule completion_cong) simp_all
  ultimately show ?thesis using assms by (simp add: system_ok_def free_port_def)
qed

lemma works_on_fetched:
  assumes "fetched i (pool c) st'" and "i < length (workers (pool c))"
  shows "works_on (c\<lparr>pool := st', tasks := t\<rparr>) j r \<longleftrightarrow>
    (if j = i then activity (workers st' ! i) = Running r else works_on c j r)"
proof -
  have len: "length (workers st') = length (workers (pool c))" using assms(1) by (metis fetched_def length_list_update length_map)
  have "activity (workers st' ! j) = activity (workers (pool c) ! j)" if "j \<noteq> i" "j < length (workers (pool c))" for j
  proof -
    have "map activity (workers st') ! j = (map activity (workers (pool c)))[i := activity (workers st' ! i)] ! j"
      using assms(1) by (simp add: fetched_def)
    with that len show ?thesis by simp
  qed
  with len assms(2) show ?thesis by (auto simp: works_on_def)
qed

lemma system_ok_fetched:
  assumes ok: "system_ok E ps c" and ok': "demux_ok st'" and f: "fetched i (pool c) st'"
    and i: "i < length (workers (pool c))" "\<And>r. activity (workers (pool c) ! i) \<noteq> Running r"
  shows "system_ok E ps (c\<lparr>pool := st', tasks := (tasks c)(i := None)\<rparr>)" (is "system_ok E ps ?c")
proof -
  note w = works_on_fetched [OF f i(1), of "(tasks c)(i := None)"]
  have idle: "\<not> works_on c i r" for r using i(2) by (simp add: works_on_def)
  have same: "completion E ?c j r = completion E c j r" if "j \<noteq> i" for j r using that by (intro completion_cong) simp_all
  consider (sleep) "activity (workers st' ! i) = Asleep" "started st' = started (pool c)"
    | (run) r where "activity (workers st' ! i) = Running r" "started st' = started (pool c) @ [r]"
    using f by (auto simp: fetched_def)
  then show ?thesis
  proof cases
    case sleep
    then have "works_on ?c j r = works_on c j r" for j r using w idle by simp
    moreover have "works_on c j r \<Longrightarrow> j \<noteq> i" for j r using idle by blast
    ultimately show ?thesis using ok ok' sleep(2) same by (simp add: system_ok_def free_port_def)
  next
    case (run r)
    let ?p = "msgh_local_port r"
    have "works_on ?c i r" using w run by simp
    then have other: "msgh_local_port r' \<noteq> ?p" if "works_on ?c j r'" "j \<noteq> i" for j r'
      using demux_ok_unique [of ?c] ok' that by fastforce
    then have free: "free_port c ?p" using w idle by (force simp: free_port_def)
    have "serve_requests E ?p (for_port ?p (started st')) (ps ?p) = completion E ?c i r"
      using ok free run(2) by (simp add: system_ok_def serve_requests_def for_each_append completion_def Let_def)
    moreover have "for_port q (started st') = for_port q (started (pool c))" if "q \<noteq> ?p" for q using run(2) that by simp
    moreover have "free_port c q" if "free_port ?c q" for q using that w idle unfolding free_port_def by metis
    moreover have "free_port ?c q \<Longrightarrow> q \<noteq> ?p" for q using \<open>works_on ?c i r\<close> by (auto simp: free_port_def)
    moreover have "works_on ?c i r' \<Longrightarrow> r' = r" for r' using w run(1) by simp
    moreover have "works_on c j r' \<and> j \<noteq> i" if "works_on ?c j r'" "j \<noteq> i" for j r' using w that by simp
    moreover have "pool ?c = st'" "pagers ?c = pagers c" by simp_all
    ultimately show ?thesis
      using ok ok' other same unfolding system_ok_def by metis
  qed
qed

text \<open>A section of a method changes one pager and not what it will be in the end.\<close>

lemma system_ok_section:
  assumes ok: "system_ok E ps c" and w: "works_on c i r"
    and same: "completion E (section_done i r s' ts c) i r = completion E c i r"
  shows "system_ok E ps (section_done i r s' ts c)" (is "system_ok E ps ?c")
proof -
  have pool: "pool ?c = pool c" and works: "works_on ?c j r' = works_on c j r'" for j r'
    by (simp_all add: section_done_def works_on_def)
  have dmx: "demux_ok (pool c)" using ok by (simp add: system_ok_def)
  have one: "j = i \<and> r' = r" if "works_on c j r'" "msgh_local_port r' = msgh_local_port r" for j r'
    using demux_ok_unique [OF dmx that(1) w that(2)] that(1) w by (simp add: works_on_def)
  have "completion E ?c j r' = completion E c j r'" if "works_on c j r'" for j r'
  proof (cases "msgh_local_port r' = msgh_local_port r")
    case True
    with one [OF that] same show ?thesis by simp
  next
    case False
    moreover from this have "j \<noteq> i" using that w by (auto simp: works_on_def)
    ultimately show ?thesis by (intro completion_cong) (simp_all add: section_done_def)
  qed
  moreover have "free_port ?c p = free_port c p" for p by (simp add: free_port_def works)
  moreover have "pagers ?c p = pagers c p" if "free_port c p" for p
    using that w by (auto simp: free_port_def section_done_def)
  ultimately show ?thesis using ok by (simp add: system_ok_def pool works)
qed

lemma system_ok_reply:
  assumes ok: "system_ok E ps c" and w: "works_on c i r" and t: "tasks c i = Some []"
  shows "system_ok E ps (c\<lparr>pool := worker_done i r (pool c)\<rparr>)" (is "system_ok E ps ?c")
proof -
  have dmx: "demux_ok (pool c)" using ok by (simp add: system_ok_def)
  have i: "i < length (workers (pool c))" using w by (simp add: works_on_def)
  have works: "works_on ?c j r' \<longleftrightarrow> works_on c j r' \<and> j \<noteq> i" for j r'
    using i by (auto simp: works_on_def worker_done_def nth_list_update)
  have "demux_ok (pool ?c)" using worker_done_ok [OF dmx] w by (simp add: works_on_def)
  moreover have "started (pool ?c) = started (pool c)" by (simp add: worker_done_def)
  moreover have "completion E ?c j r' = completion E c j r'" for j r' by (rule completion_cong) simp_all
  moreover have "serve_requests E p (for_port p (started (pool c))) (ps p) = Inr (pagers c p)" if "free_port ?c p" for p
  proof (cases "free_port c p")
    case False
    then obtain j r' where "works_on c j r'" "msgh_local_port r' = p" by (auto simp: free_port_def)
    moreover from this that have "j = i" using works by (auto simp: free_port_def)
    ultimately have "msgh_local_port r = p" using w by (simp add: works_on_def)
    then show ?thesis using ok w t by (auto simp: system_ok_def completion_def Let_def)
  qed (use ok in \<open>simp add: system_ok_def\<close>)
  ultimately show ?thesis using ok by (simp add: system_ok_def works)
qed

lemma system_ok_step:
  assumes "system_step E c c'" and "system_ok E ps c"
  shows "system_ok E ps c'"
proof -
  have ok: "demux_ok (pool c)" using assms(2) by (simp add: system_ok_def)
  then have ok': "demux_ok (pool c')" using pool_step [OF assms(1)] demux_ok_step by auto
  from assms(1) show ?thesis
  proof cases
    case (receive has_routine malloc_ok r st' reply)
    show ?thesis
      unfolding receive(1) system_ok_signals using receive(2) ok' [unfolded receive(1)] by (intro system_ok_queue [OF assms(2)])
        (auto simp: pager_demuxer_def enqueue_request_def split: if_splits option.splits)
  next
    case (inhibit malloc_ok st' waits)
    show ?thesis
      unfolding inhibit(1) using inhibit(2) ok' [unfolded inhibit(1)] by (intro system_ok_queue [OF assms(2)]) (auto simp: pager_inhibit_workers_def split: if_splits)
  next
    case (resume st')
    show ?thesis
      unfolding resume(1) system_ok_signals using resume(2) ok' [unfolded resume(1)] by (intro system_ok_queue [OF assms(2)]) (auto simp: pager_resume_workers_def split: if_splits option.splits)
  next
    case (fetch i)
    then show ?thesis using ok' by (auto intro!: system_ok_fetched [OF assms(2)] worker_next_fetched)
  next
    case (wakeup i)
    then show ?thesis using ok' by (auto intro!: system_ok_fetched [OF assms(2)] worker_wakeup_fetched)
  next
    case (call i r s' ts)
    show ?thesis
      unfolding call(1) using call(3,4)
      by (intro system_ok_section [OF assms(2) call(2)]) (simp add: completion_def section_done_def start_meaning)
  next
    case (continue i r t ts s' ts')
    show ?thesis
      unfolding continue(1) using continue(3,4)
      by (intro system_ok_section [OF assms(2) continue(2)])
        (simp add: completion_def section_done_def exec_meaning for_each_append)
  next
    case (reply i r)
    then show ?thesis by (auto intro: system_ok_reply [OF assms(2)])
  qed
qed

lemma system_ok_reachable: "system_reachable E n ps c \<Longrightarrow> system_ok E ps c"
proof (induction rule: system_reachable.induct)
  case start
  have "\<not> works_on (initial_system n ps) i r" for i r
    by (simp add: works_on_def initial_system_def pager_start_workers_def)
  then show ?case
    by (auto simp: system_ok_def initial_system_def demux_ok_start serve_requests_def) (simp add: pager_start_workers_def)
next
  case (step c c')
  then show ?case by (blast intro: system_ok_step)
next
  case (spurious c i)
  have "demux_ok (worker_wakeup i (pool c))"
    using spurious demux_step.wakeup demux_ok_step by (auto simp: system_ok_def)
  with spurious show ?case by (intro system_ok_fetched worker_wakeup_fetched) auto
qed

section \<open>The library serves requests in order\<close>

definition held_back :: "pager_requests \<Rightarrow> request list" where
  "held_back st = (case queue_new st of None \<Rightarrow> [] | Some q \<Rightarrow> q)"

lemma at_rest:
  assumes dmx: "demux_ok (pool c)" and rest: "inhibited (pool c)" and "p \<noteq> 0"
  shows "free_port c p \<and> for_port p (arrived (pool c)) = for_port p (started (pool c)) @ for_port p (held_back (pool c))"
proof -
  have "\<not> works_on c i r" for i r using inhibited_asleep [OF dmx rest] by (auto simp: works_on_def)
  then show ?thesis
    using dmx assms(3) inhibited_asleep [OF dmx rest] inhibited_delegated [OF dmx rest assms(3)]
    by (simp add: demux_ok_def free_port_def queued_def held_back_def)
qed

text \<open>C3: The pager library with any number of workers and pagers behaves as if each pager had served its
  requests alone, one whole method after the other, in the order in which they arrived: whenever no worker works on
  a pager, its state is the result of serving a prefix of the requests that arrived for it; while a worker does, the
  rest of the method leads to such a state. When the workers have come to rest, nothing but the requests held back
  by an inhibition is missing. (The file system makes no calls of its own in between.)\<close>

theorem library_serves_in_order:
  assumes "system_reachable E n ps c" and "p \<noteq> 0"
  shows "\<exists>served rest. for_port p (arrived (pool c)) = served @ rest \<and>
    (free_port c p \<longrightarrow> serve_requests E p served (ps p) = Inr (pagers c p)) \<and>
    (\<forall>i r. works_on c i r \<and> msgh_local_port r = p \<longrightarrow> serve_requests E p served (ps p) = completion E c i r) \<and>
    (inhibited (pool c) \<longrightarrow> free_port c p \<and> rest = for_port p (held_back (pool c)))"
proof -
  have ok: "system_ok E ps c" and dmx: "demux_ok (pool c)"
    using system_ok_reachable [OF assms(1)] by (simp_all add: system_ok_def)
  obtain rest where "for_port p (arrived (pool c)) = for_port p (started (pool c)) @ rest"
    using dmx assms(2) by (auto simp: demux_ok_def)
  then show ?thesis
    using ok at_rest [OF dmx _ assms(2)]
    by (intro exI [of _ "for_port p (started (pool c))"] exI [of _ rest]) (auto simp: system_ok_def)
qed

text \<open>Two workers, a pager behind every port, and the two requests of the demuxer's example: the first opens a
  client, the second asks for its first page. Worker 0 has the first; the second is delegated to it.\<close>

definition example_env :: environment where
  "example_env = \<lparr>file_system = (\<lambda>_. good_fs),
     content = (\<lambda>r. if request_id r = 1 then Memory_object_init 11 12 4096
                    else Memory_object_data_request 11 0 4096 VM_PROT_READ),
     stack_of = (\<lambda>_ _. False)\<rparr>"

definition example_system :: "pager_requests \<Rightarrow> system" where
  "example_system st = \<lparr>pool = st, pagers = (\<lambda>_. example_pager), tasks = (\<lambda>_. None), signals = 0\<rparr>"

lemma example_system_pool:
  "(example_system st)\<lparr>pool := st'\<rparr> = example_system st'"
  "(example_system st)\<lparr>tasks := (tasks (example_system st'))(i := None)\<rparr> = example_system st"
  "pool (example_system st) = st" "initial_system n (\<lambda>_. example_pager) = example_system (pager_start_workers n)"
  by (auto simp: example_system_def initial_system_def)

lemma two_received_system: "system_reachable example_env 2 (\<lambda>_. example_pager) (example_system two_received)"
proof -
  have step: "system_step example_env (example_system st) (example_system (enqueue_request r st))"
    if "msgh_local_port r \<noteq> 0" "asleep st = 0" for r st
    using system_step.receive [of True True r "example_system st"] that
    by (simp add: pager_demuxer_def signal_worker_def example_system_def)
  have "system_reachable example_env 2 (\<lambda>_. example_pager) (example_system (pager_start_workers 2))"
    using system_reachable.start [of example_env 2 "\<lambda>_. example_pager"] by (simp add: example_system_pool)
  then show ?thesis
    unfolding two_received_def by (rule system_reachable.step [OF system_reachable.step [OF _ step] step]) code_simp+
qed

lemma delegated_system: "system_reachable example_env 2 (\<lambda>_. example_pager) (example_system delegated_run)"
proof -
  have step: "system_step example_env (example_system st) (example_system (worker_next i st))"
    if "i < length (workers st)" "activity (workers st ! i) = Ready" for i st
    using system_step.fetch [of i "example_system st"] that by (simp add: example_system_pool)
  show ?thesis
    unfolding delegated_run_def
    by (rule system_reachable.step [OF system_reachable.step [OF two_received_system step] step]) code_simp+
qed

lemma library_serves_in_order_witness:
  "\<exists>served rest. [request_a, request_b] = served @ rest \<and>
     serve_requests example_env 5 served example_pager = object_init 11 12 4096 example_pager"
proof -
  have "for_port 5 (arrived delegated_run) = [request_a, request_b]" by code_simp
  moreover have "works_on (example_system delegated_run) 0 request_a" by code_simp
  moreover have "completion example_env (example_system delegated_run) 0 request_a = object_init 11 12 4096 example_pager"
    by (simp add: completion_def example_system_def example_env_def request_a_def)
  moreover have "msgh_local_port request_a = 5" "(5 :: mach_port_t) \<noteq> 0" by code_simp+
  ultimately show ?thesis
    using library_serves_in_order [OF delegated_system, of 5] unfolding example_system_pool by metis
qed

end
