(* ===== verification/Pager_Rest.thy ===== *)
theory Pager_Rest
  imports Pager_System
begin

text \<open>
  The pager library comes to rest: when its requests can be served at all (no assertion fails in
  the sequential model), the workers can always go on until every request has been served. Each
  handler ends; each request is fetched once; no wake-up is lost, so while requests wait a worker is
  awake or has been signalled.
\<close>

section \<open>Every method ends\<close>

inductive_cases alone_ConsE: "alone U (t # ts) s r"

lemma ends_exec: "ends U (t # ts) s \<Longrightarrow> exec U t s = Inr (s', ts') \<Longrightarrow> ends U (ts' @ ts) s'"
  unfolding ends_def by (auto elim!: alone_ConsE)

lemma ends_start: "start stack m s = Inr (s', ts) \<Longrightarrow> ends U ts s'"
  using ending_start [of stack m s s' ts U] unfolding ending_def by (metis append_Nil2 ends_Nil)

definition tasks_end :: "environment \<Rightarrow> system \<Rightarrow> bool" where
  "tasks_end E c \<longleftrightarrow> (\<forall>i r ts. works_on c i r \<longrightarrow> tasks c i = Some ts \<longrightarrow>
     ends (file_system E (msgh_local_port r)) ts (pagers c (msgh_local_port r)))"

lemma tasks_end_section:
  assumes "tasks_end E c" and "demux_ok (pool c)" and w: "works_on c i r"
    and "ends (file_system E (msgh_local_port r)) ts s'"
  shows "tasks_end E (section_done i r s' ts c)"
proof -
  have "ends (file_system E (msgh_local_port r')) ts' (pagers (section_done i r s' ts c) (msgh_local_port r'))"
    if "works_on c j r'" "tasks (section_done i r s' ts c) j = Some ts'" for j r' ts'
  proof (cases "j = i")
    case True
    then have "r' = r" using that(1) w by (simp add: works_on_def)
    with True that(2) assms(4) show ?thesis by (simp add: section_done_def)
  next
    case False
    then have "msgh_local_port r' \<noteq> msgh_local_port r" using demux_ok_unique [OF assms(2) that(1) w] by blast
    with False that assms(1) show ?thesis by (simp add: section_done_def tasks_end_def)
  qed
  moreover have "works_on (section_done i r s' ts c) = works_on c" by (intro ext) (simp add: section_done_def works_on_def)
  ultimately show ?thesis by (simp add: tasks_end_def)
qed

lemma tasks_end_fetched:
  assumes "tasks_end E c" and "fetched i (pool c) st'" and "i < length (workers (pool c))"
  shows "tasks_end E (c\<lparr>pool := st', tasks := (tasks c)(i := None)\<rparr>)"
  using assms(1) works_on_fetched [OF assms(2,3)] by (auto simp: tasks_end_def)

lemma tasks_end_fewer:
  "tasks_end E c \<Longrightarrow> (\<And>i r. works_on (c\<lparr>pool := st'\<rparr>) i r \<Longrightarrow> works_on c i r) \<Longrightarrow> tasks_end E (c\<lparr>pool := st'\<rparr>)"
  by (auto simp: tasks_end_def)

lemma tasks_end_signals [simp]: "tasks_end E (c\<lparr>signals := k\<rparr>) = tasks_end E c"
  by (simp add: tasks_end_def)

lemma tasks_end_step:
  assumes "system_step E c c'" and "tasks_end E c" and "demux_ok (pool c)"
  shows "tasks_end E c'"
  using assms(1)
proof cases
  case (receive has_routine malloc_ok r st' reply)
  then show ?thesis
    using assms(2) by (auto simp: works_on_def pager_demuxer_def enqueue_request_def split: if_splits option.splits
      intro!: tasks_end_fewer)
next
  case (inhibit malloc_ok st' waits)
  then show ?thesis
    using assms(2) by (auto simp: works_on_def pager_inhibit_workers_def split: if_splits intro!: tasks_end_fewer)
next
  case (resume st')
  then show ?thesis
    using assms(2) by (auto simp: works_on_def pager_resume_workers_def split: if_splits option.splits intro!: tasks_end_fewer)
next
  case (fetch i)
  then show ?thesis using assms(2) by (auto intro: tasks_end_fetched worker_next_fetched)
next
  case (wakeup i)
  then show ?thesis using assms(2) by (auto intro: tasks_end_fetched worker_wakeup_fetched)
next
  case (call i r s' ts)
  then show ?thesis using assms(2,3) by (auto intro!: tasks_end_section ends_start)
next
  case (continue i r t ts s' ts')
  then have "ends (file_system E (msgh_local_port r)) (t # ts) (pagers c (msgh_local_port r))"
    using assms(2) by (auto simp: tasks_end_def)
  with continue show ?thesis using assms(2,3) by (auto intro!: tasks_end_section ends_exec)
next
  case (reply i r)
  then show ?thesis
    using assms(2) by (auto simp: works_on_def worker_done_def nth_list_update split: if_splits intro!: tasks_end_fewer)
qed

lemma tasks_end_reachable: "system_reachable E n ps c \<Longrightarrow> tasks_end E c"
proof (induction rule: system_reachable.induct)
  case start
  then show ?case by (simp add: tasks_end_def initial_system_def)
next
  case (step c c')
  then show ?case using tasks_end_step system_ok_reachable [OF step(1)] by (auto simp: system_ok_def)
next
  case (spurious c i)
  then show ?case by (auto intro: tasks_end_fetched worker_wakeup_fetched)
qed

text \<open>A worker can go on with its request to the end when the rest of the method succeeds.\<close>

lemma tasks_finish:
  assumes "alone U ts s r'" and "r' = Inr s'" and "works_on c i r" and "tasks c i = Some ts"
    and "pagers c (msgh_local_port r) = s" and "U = file_system E (msgh_local_port r)"
  shows "\<exists>c'. (system_step E)\<^sup>*\<^sup>* c c' \<and> pool c' = pool c \<and> tasks c' i = Some []"
  using assms
proof (induction arbitrary: c rule: alone.induct)
  case (finished s)
  then show ?case by blast
next
  case (more t s t' ts' ts r')
  let ?c = "section_done i r t' (ts' @ ts) c"
  have step: "system_step E c ?c" using more by (intro system_step.continue) auto
  obtain c' where "(system_step E)\<^sup>*\<^sup>* ?c c'" "pool c' = pool ?c" "tasks c' i = Some []"
    using more.IH [of ?c] more.prems by (auto simp: section_done_def works_on_def)
  moreover have "pool ?c = pool c" by (simp add: section_done_def)
  ultimately show ?case using step by (metis converse_rtranclp_into_rtranclp)
qed simp

lemma request_finishes:
  assumes "system_reachable E n ps c" and w: "works_on c i r" and ok: "completion E c i r = Inr s"
  shows "\<exists>c'. (system_step E)\<^sup>*\<^sup>* c c' \<and> pool c' = worker_done i r (pool c)"
proof -
  let ?p = "msgh_local_port r" let ?U = "file_system E ?p"
  obtain c1 ts where c1: "(system_step E)\<^sup>*\<^sup>* c c1" "pool c1 = pool c" "tasks c1 i = Some ts" "ends ?U ts (pagers c1 ?p)"
    "meanings ?U ts (pagers c1 ?p) = Inr s"
  proof (cases "tasks c i")
    case None
    then obtain s' ts where start: "start (stack_of E r) (content E r) (pagers c ?p) = Inr (s', ts)" "meanings ?U ts s' = Inr s"
      using ok by (auto simp: completion_def start_meaning Let_def)
    let ?c = "section_done i r s' ts c"
    have "system_step E c ?c" using w None start by (intro system_step.call) auto
    then show thesis using that [of ?c ts] start ends_start [OF start(1)] by (auto simp: section_done_def)
  next
    case (Some ts)
    then show thesis
      using that [of c ts] ok w tasks_end_reachable [OF assms(1)] by (auto simp: completion_def tasks_end_def Let_def)
  qed
  have w1: "works_on c1 i r" using w c1(2) by (simp add: works_on_def)
  obtain r' where r': "alone ?U ts (pagers c1 ?p) r'" using c1(4) by (auto simp: ends_def)
  moreover have "r' = Inr s" using alone_meaning [OF r'] c1(5) by simp
  ultimately obtain c2 where c2: "(system_step E)\<^sup>*\<^sup>* c1 c2" "pool c2 = pool c1" "tasks c2 i = Some []"
    using tasks_finish [OF _ _ w1 c1(3)] by blast
  let ?c = "c2\<lparr>pool := worker_done i r (pool c2)\<rparr>"
  have "system_step E c2 ?c" using w1 c2(2,3) by (intro system_step.reply) (simp_all add: works_on_def)
  with c1(1) c2 show ?thesis using c1(2) by (intro exI [of _ ?c]) auto
qed

section \<open>Something is always left to do until all is done\<close>

definition busy :: "activity \<Rightarrow> nat" where
  "busy a = (case a of Ready \<Rightarrow> 1 | Running r \<Rightarrow> 2 | Asleep \<Rightarrow> 0)"

definition work_left :: "pager_requests \<Rightarrow> nat" where
  "work_left st = 3 * (length (arrived st) - length (started st)) + sum_list (map (busy \<circ> activity) (workers st))"

lemma started_arrived: "demux_ok st \<Longrightarrow> length (started st) \<le> length (arrived st)"
proof -
  assume ok: "demux_ok st"
  have "multiset.count (mset (started st)) r \<le> multiset.count (mset (arrived st)) r" for r
  proof (cases "msgh_local_port r = 0")
    case True
    then have "r \<notin> set (started st)" using demux_ok_ports [OF ok, of r] by auto
    then have "multiset.count (mset (started st)) r = 0" by (simp add: count_mset_0_iff)
    then show ?thesis by (simp only: zero_le)
  next
    case False
    then have "for_port (msgh_local_port r) (arrived st) = for_port (msgh_local_port r) (started st) @
        delegated (msgh_local_port r) st @ for_port (msgh_local_port r) (queued st)"
      using ok by (simp add: demux_ok_def)
    from arg_cong [OF this, of "\<lambda>xs. multiset.count (mset xs) r"] show ?thesis by (simp add: count_for_port)
  qed
  then have "mset (started st) \<subseteq># mset (arrived st)" by (simp add: subseteq_mset_def)
  then show ?thesis by (metis size_mset size_mset_mono)
qed

lemma sum_busy_update:
  "i < length xs \<Longrightarrow> sum_list (map busy (xs[i := a])) + busy (xs ! i) = sum_list (map busy xs) + busy a"
  by (induction xs arbitrary: i) (auto split: nat.split simp: nth_Cons')

lemma fetched_work:
  assumes f: "fetched i st st'" and i: "i < length (workers st)" and ok: "demux_ok st'" and "arrived st' = arrived st"
  shows "work_left st' + (if activity (workers st' ! i) = Asleep then 0 else 1) + busy (activity (workers st ! i)) \<le> work_left st"
proof -
  have acts: "map activity (workers st') = (map activity (workers st))[i := activity (workers st' ! i)]"
    using f by (simp add: fetched_def)
  have "sum_list (map (busy \<circ> activity) (workers st')) + busy (activity (workers st ! i)) =
      sum_list (map (busy \<circ> activity) (workers st)) + busy (activity (workers st' ! i))"
    using sum_busy_update [of i "map activity (workers st)" "activity (workers st' ! i)"] i
    unfolding map_map [symmetric] acts by simp
  moreover have "length (started st') \<le> length (arrived st')" using ok by (rule started_arrived)
  ultimately show ?thesis
    using f assms(4) by (auto simp: work_left_def fetched_def busy_def)
qed

lemma fetched_arrived: "arrived (get_request_locked i st) = arrived st" "queue_new (get_request_locked i st) = queue_new st"
  by (induction i st rule: get_request_locked.induct)
    (simp_all add: get_request_locked.simps start_request_def Let_def split: list.split option.split)

lemma worker_next_arrived [simp]:
  "arrived (worker_next i st) = arrived st" "arrived (worker_wakeup i st) = arrived st"
  "arrived (worker_done i r st) = arrived st" "queue_new (worker_next i st) = queue_new st"
  "queue_new (worker_wakeup i st) = queue_new st" "queue_new (worker_done i r st) = queue_new st"
  by (simp_all add: worker_next_def worker_wakeup_def worker_done_def fetched_arrived start_request_def split: list.split)

text \<open>When all are asleep, the one that is woken takes the first request, as nobody has a tag.\<close>

lemma wakeup_starts:
  assumes ok: "demux_ok st" and i: "i < length (workers st)" and asleep: "\<forall>w \<in> set (workers st). activity w = Asleep"
    and q: "queue_out st = r # rest"
  shows "activity (workers (worker_wakeup i st) ! i) = Running r"
proof -
  have port: "msgh_local_port r \<noteq> 0" using demux_ok_ports [OF ok, of r] q by (simp add: queued_def)
  let ?st = "update_worker i (\<lambda>w. w\<lparr>activity := Ready\<rparr>) (st\<lparr>asleep := asleep st - 1\<rparr>)"
  have idle: "tag (workers st ! j) = 0" if "j < length (workers st)" for j
    using demux_ok_worker [OF ok that] asleep that by (simp add: worker_ok_def)
  have "tag (workers ?st ! j) = 0" if "j < length (workers st)" for j
    using idle [OF that] that by (cases "j = i") simp_all
  then have "find_tagged (msgh_local_port r) (?st\<lparr>queue_out := rest\<rparr>) = None"
    using port by (simp add: find_tagged_None)
  then show ?thesis
    using q i unfolding worker_wakeup_def get_request_locked.simps [of i ?st] by (simp add: start_request_def)
qed

section \<open>The library comes to rest\<close>

definition servable :: "environment \<Rightarrow> (mach_port_t \<Rightarrow> pager) \<Rightarrow> request list \<Rightarrow> bool" where
  "servable E ps rs \<longleftrightarrow> (\<forall>p. p \<noteq> 0 \<longrightarrow> (\<exists>s. serve_requests E p (for_port p rs) (ps p) = Inr s))"

lemma servable_completion:
  assumes "system_reachable E n ps c" and "servable E ps (arrived (pool c))" and w: "works_on c i r"
  shows "\<exists>s. completion E c i r = Inr s"
proof -
  let ?p = "msgh_local_port r"
  have ok: "system_ok E ps c" using assms(1) by (rule system_ok_reachable)
  then have "?p \<noteq> 0"
    using w demux_ok_worker [of "pool c" i] by (auto simp: system_ok_def works_on_def worker_ok_def)
  then have "for_port ?p (arrived (pool c)) = for_port ?p (started (pool c)) @ (delegated ?p (pool c) @ for_port ?p (queued (pool c)))"
    "\<exists>s. serve_requests E ?p (for_port ?p (arrived (pool c))) (ps ?p) = Inr s"
    using ok assms(2) by (auto simp: system_ok_def demux_ok_def servable_def)
  then have "\<exists>s. serve_requests E ?p (for_port ?p (started (pool c))) (ps ?p) = Inr s"
    by (auto simp: serve_requests_def for_each_append)
  with ok w show ?thesis by (auto simp: system_ok_def)
qed

lemma sleepers_asleep: "\<forall>w \<in> set ws. activity w = Asleep \<Longrightarrow> sleepers ws = length ws"
  by (simp add: sleepers_def)

lemma get_request_workers: "length (workers (get_request_locked i st)) = length (workers st)"
  by (induction i st rule: get_request_locked.induct)
    (simp add: get_request_locked.simps start_request_def Let_def split: list.split option.split)

lemma workers_kept: "demux_step st st' \<Longrightarrow> length (workers st') = length (workers st)"
  by (induction rule: demux_step.induct)
    (auto simp: pager_demuxer_def enqueue_request_def pager_inhibit_workers_def pager_resume_workers_def worker_next_def
      worker_wakeup_def worker_done_def start_request_def get_request_workers split: if_splits option.splits list.split)

lemma worker_count: "system_reachable E n ps c \<Longrightarrow> length (workers (pool c)) = n"
proof (induction rule: system_reachable.induct)
  case start
  then show ?case by (simp add: initial_system_def pager_start_workers_def)
next
  case (step c c')
  from pool_step [OF step(2)] show ?case using step(3) by (auto dest: workers_kept)
next
  case (spurious c i)
  then show ?case by (simp add: worker_wakeup_def get_request_workers)
qed

section \<open>No wake-up is lost\<close>

text \<open>While requests wait, a worker is awake or has been woken.\<close>

definition none_overslept :: "system \<Rightarrow> bool" where
  "none_overslept c \<longleftrightarrow> (queue_out (pool c) \<noteq> [] \<longrightarrow> (\<forall>w \<in> set (workers (pool c)). activity w = Asleep) \<longrightarrow> 0 < signals c)"

lemma get_request_sleeps:
  "i < length (workers st) \<Longrightarrow> queue_out (get_request_locked i st) = [] \<or> activity (workers (get_request_locked i st) ! i) \<noteq> Asleep"
proof (induction i st rule: get_request_locked.induct)
  case (1 i st)
  then show ?case
    by (cases "queue_out st"; cases "find_tagged (msgh_local_port (hd (queue_out st))) (st\<lparr>queue_out := tl (queue_out st)\<rparr>)")
      (simp_all add: get_request_locked.simps [of i st] start_request_def)
qed

lemma worker_next_sleeps:
  "i < length (workers st) \<Longrightarrow> queue_out (worker_next i st) = [] \<or> activity (workers (worker_next i st) ! i) \<noteq> Asleep"
  by (auto simp: worker_next_def start_request_def get_request_sleeps split: list.split)

lemma worker_wakeup_sleeps:
  "i < length (workers st) \<Longrightarrow> queue_out (worker_wakeup i st) = [] \<or> activity (workers (worker_wakeup i st) ! i) \<noteq> Asleep"
  by (simp add: worker_wakeup_def get_request_sleeps)

lemma none_oversleptI:
  "i < length (workers (pool c)) \<Longrightarrow> queue_out (pool c) = [] \<or> activity (workers (pool c) ! i) \<noteq> Asleep \<Longrightarrow> none_overslept c"
  by (auto simp: none_overslept_def)

lemma none_overslept_fetched:
  "fetched i (pool c) st' \<Longrightarrow> i < length (workers (pool c)) \<Longrightarrow> queue_out st' = [] \<or> activity (workers st' ! i) \<noteq> Asleep \<Longrightarrow>
     none_overslept (c\<lparr>pool := st', tasks := t, signals := k\<rparr>) \<and> none_overslept (c\<lparr>pool := st', tasks := t\<rparr>)"
proof -
  assume a: "fetched i (pool c) st'" "i < length (workers (pool c))" "queue_out st' = [] \<or> activity (workers st' ! i) \<noteq> Asleep"
  have "i < length (workers st')" using a(1,2) by (metis fetched_def length_list_update length_map)
  with a(3) show ?thesis by (auto intro!: none_oversleptI [of i])
qed

lemma none_overslept_step:
  assumes "system_step E c c'" and "none_overslept c" and "demux_ok (pool c)" and "0 < length (workers (pool c))"
  shows "none_overslept c'"
  using assms(1)
proof cases
  case (receive has_routine malloc_ok r st' reply)
  have "asleep (pool c) = length (workers (pool c))" if "\<forall>w \<in> set (workers (pool c)). activity w = Asleep"
    using sleepers_asleep [OF that] assms(3) by (simp add: demux_ok_def)
  with receive assms(2,4) show ?thesis
    by (auto simp: none_overslept_def pager_demuxer_def enqueue_request_def signal_worker_def split: if_splits option.splits)
next
  case (inhibit malloc_ok st' waits)
  then show ?thesis using assms(2) by (auto simp: none_overslept_def pager_inhibit_workers_def split: if_splits)
next
  case (resume st')
  then show ?thesis
    using assms(4) by (auto simp: none_overslept_def pager_resume_workers_def WORKER_COUNT_def split: if_splits option.splits)
next
  case (fetch i)
  then show ?thesis using none_overslept_fetched [OF worker_next_fetched] worker_next_sleeps by auto
next
  case (wakeup i)
  then show ?thesis using none_overslept_fetched [OF worker_wakeup_fetched] worker_wakeup_sleeps by auto
next
  case (reply i r)
  then show ?thesis by (auto simp: works_on_def worker_done_def intro!: none_oversleptI [of i])
qed (use assms(2) in \<open>simp_all add: none_overslept_def section_done_def\<close>)

lemma none_overslept_reachable: "system_reachable E n ps c \<Longrightarrow> 0 < n \<Longrightarrow> none_overslept c"
proof (induction rule: system_reachable.induct)
  case start
  then show ?case by (simp add: none_overslept_def initial_system_def pager_start_workers_def)
next
  case (step c c')
  then show ?case
    using none_overslept_step worker_count [OF step(1)] system_ok_reachable [OF step(1)] by (auto simp: system_ok_def)
next
  case (spurious c i)
  then show ?case using none_overslept_fetched [OF worker_wakeup_fetched] worker_wakeup_sleeps by auto
qed

lemma steps_reachable: "(system_step E)\<^sup>*\<^sup>* c c' \<Longrightarrow> system_reachable E n ps c \<Longrightarrow> system_reachable E n ps c'"
  by (induction rule: rtranclp_induct) (auto intro: system_reachable.step)


lemma work_done: "i < length (workers st) \<Longrightarrow> activity (workers st ! i) = Running r \<Longrightarrow> work_left (worker_done i r st) < work_left st"
  using sum_busy_update [of i "map activity (workers st)" Ready]
  by (simp add: work_left_def worker_done_def busy_def map_update flip: map_map)

text \<open>One thing a worker can do when not all of them sleep over an empty queue: it brings rest nearer.\<close>

lemma worker_progress:
  assumes reach: "system_reachable E n ps c" and "0 < n" and "servable E ps (arrived (pool c))" and "\<not> inhibited (pool c)"
  shows "\<exists>c'. (system_step E)\<^sup>*\<^sup>* c c' \<and> work_left (pool c') < work_left (pool c) \<and>
    arrived (pool c') = arrived (pool c) \<and> queue_new (pool c') = queue_new (pool c)"
proof -
  let ?ws = "workers (pool c)"
  have dmx: "demux_ok (pool c)" using system_ok_reachable [OF reach] by (simp add: system_ok_def)
  have dmx': "demux_ok (pool c')" if "system_step E c c'" for c'
    using system_ok_reachable [OF system_reachable.step [OF reach that]] by (simp add: system_ok_def)
  consider (run) i r where "i < length ?ws" "activity (?ws ! i) = Running r"
    | (ready) i where "i < length ?ws" "activity (?ws ! i) = Ready"
    | (sleep) "\<forall>w \<in> set ?ws. activity w = Asleep"
    by (metis activity.exhaust in_set_conv_nth)
  then show ?thesis
  proof cases
    case run
    then have w: "works_on c i r" by (simp add: works_on_def)
    obtain s where "completion E c i r = Inr s" using servable_completion [OF reach assms(3) w] by blast
    then obtain c' where "(system_step E)\<^sup>*\<^sup>* c c'" "pool c' = worker_done i r (pool c)"
      using request_finishes [OF reach w] by blast
    with work_done [OF run] show ?thesis by (intro exI [of _ c']) simp
  next
    case ready
    let ?c = "c\<lparr>pool := worker_next i (pool c), tasks := (tasks c)(i := None)\<rparr>"
    have step: "system_step E c ?c" using ready by (rule system_step.fetch)
    have "work_left (pool ?c) < work_left (pool c)"
      using fetched_work [OF worker_next_fetched [OF ready(1)] ready(1)] dmx' [OF step] ready(2)
      by (simp add: busy_def split: if_splits)
    with step show ?thesis by (intro exI [of _ ?c]) auto
  next
    case sleep
    then have "queue_out (pool c) \<noteq> []" using sleepers_asleep [OF sleep] assms(4) dmx
      by (simp add: inhibited_def WORKER_COUNT_def demux_ok_def)
    then obtain r rest where q: "queue_out (pool c) = r # rest" by (cases "queue_out (pool c)") auto
    have i: "0 < length ?ws" using worker_count [OF reach] assms(2) by simp
    let ?c = "c\<lparr>pool := worker_wakeup 0 (pool c), tasks := (tasks c)(0 := None), signals := signals c - 1\<rparr>"
    have signalled: "0 < signals c" using none_overslept_reachable [OF reach assms(2)] sleep q by (simp add: none_overslept_def)
    have asleep: "activity (?ws ! 0) = Asleep" using sleep i by simp
    have step: "system_step E c ?c" using signalled i asleep by (rule system_step.wakeup)
    have "work_left (pool ?c) < work_left (pool c)"
      using fetched_work [OF worker_wakeup_fetched [OF i asleep] i] dmx' [OF step] wakeup_starts [OF dmx i sleep q]
      by simp
    with step show ?thesis by (intro exI [of _ ?c]) auto
  qed
qed

lemma comes_to_rest:
  assumes "system_reachable E n ps c" and "0 < n" and "servable E ps (arrived (pool c))"
  shows "\<exists>c'. (system_step E)\<^sup>*\<^sup>* c c' \<and> inhibited (pool c') \<and>
    arrived (pool c') = arrived (pool c) \<and> queue_new (pool c') = queue_new (pool c)"
  using assms
proof (induction "work_left (pool c)" arbitrary: c rule: less_induct)
  case less
  show ?case
  proof (cases "inhibited (pool c)")
    case False
    obtain c1 where c1: "(system_step E)\<^sup>*\<^sup>* c c1" "work_left (pool c1) < work_left (pool c)"
      "arrived (pool c1) = arrived (pool c)" "queue_new (pool c1) = queue_new (pool c)"
      using worker_progress [OF less.prems False] by blast
    then obtain c2 where "(system_step E)\<^sup>*\<^sup>* c1 c2" "inhibited (pool c2)"
      "arrived (pool c2) = arrived (pool c)" "queue_new (pool c2) = queue_new (pool c)"
      using less.hyps [OF c1(2) steps_reachable [OF c1(1) less.prems(1)]] less.prems(2,3) by auto
    with c1(1) show ?thesis by (meson rtranclp_trans)
  qed blast
qed

text \<open>C10: The pager library comes to rest. Whatever the workers have done so far, if the requests that arrived can
  be served at all (one after the other, no assertion of a method fails), then the workers can go on, with no help
  from outside, until all of them are asleep and no request waits. Sleeping workers are woken by the signals that
  the code sends and by nothing else: none is lost. Every pager is then the result of serving, in order, all the
  requests that arrived for it, except those held back while the workers are inhibited. No request is lost, no
  worker blocks another, no request waits for one that never comes.\<close>

theorem library_comes_to_rest:
  assumes "system_reachable E n ps c" and "0 < n" and "servable E ps (arrived (pool c))"
  shows "\<exists>c'. (system_step E)\<^sup>*\<^sup>* c c' \<and> inhibited (pool c') \<and> arrived (pool c') = arrived (pool c) \<and>
    (\<forall>p. p \<noteq> 0 \<longrightarrow> (\<exists>served. for_port p (arrived (pool c)) = served @ for_port p (held_back (pool c)) \<and>
       serve_requests E p served (ps p) = Inr (pagers c' p)))"
proof -
  obtain c' where c': "(system_step E)\<^sup>*\<^sup>* c c'" "inhibited (pool c')" "arrived (pool c') = arrived (pool c)"
    "queue_new (pool c') = queue_new (pool c)"
    using comes_to_rest [OF assms] by blast
  have ok: "system_ok E ps c'" "demux_ok (pool c')"
    using system_ok_reachable [OF steps_reachable [OF c'(1) assms(1)]] by (simp_all add: system_ok_def)
  have "for_port p (arrived (pool c)) = for_port p (started (pool c')) @ for_port p (held_back (pool c)) \<and>
      serve_requests E p (for_port p (started (pool c'))) (ps p) = Inr (pagers c' p)" if "p \<noteq> 0" for p
    using at_rest [OF ok(2) c'(2) that] ok(1) c'(3,4) by (simp add: system_ok_def held_back_def)
  with c' show ?thesis by blast
qed

lemma library_comes_to_rest_witness:
  "\<exists>c'. (system_step example_env)\<^sup>*\<^sup>* (example_system two_received) c' \<and> inhibited (pool c') \<and>
     serve_requests example_env 5 [request_a, request_b] example_pager = Inr (pagers c' 5)"
proof -
  have arr: "arrived two_received = [request_a, request_b]" and held: "held_back two_received = []" by code_simp+
  have five: "for_port 5 [request_a, request_b] = [request_a, request_b]" by code_simp
  have "\<exists>s. serve_requests example_env 5 [request_a, request_b] example_pager = Inr s"
  proof -
    have "\<not> isl (serve_requests example_env 5 [request_a, request_b] example_pager)" by code_simp
    then show ?thesis by (cases "serve_requests example_env 5 [request_a, request_b] example_pager") auto
  qed
  moreover have "for_port p [request_a, request_b] = []" if "p \<noteq> 5" for p using that by (simp add: request_a_def request_b_def)
  ultimately have "servable example_env (\<lambda>_. example_pager) [request_a, request_b]"
    unfolding servable_def using five by (metis for_each.simps(1) serve_requests_def)
  then obtain c' where c': "(system_step example_env)\<^sup>*\<^sup>* (example_system two_received) c'" "inhibited (pool c')"
    "\<forall>p. p \<noteq> 0 \<longrightarrow> (\<exists>served. for_port p [request_a, request_b] = served @ for_port p [] \<and>
       serve_requests example_env p served example_pager = Inr (pagers c' p))"
    using library_comes_to_rest [OF two_received_system] unfolding example_system_pool arr held by auto
  have "serve_requests example_env 5 [request_a, request_b] example_pager = Inr (pagers c' 5)"
    using spec [OF c'(3), of 5] unfolding five by simp
  with c' show ?thesis by blast
qed

end
