(* ===== verification/Test_Kernel.thy ===== *)
theory Test_Kernel
  imports Pager_Api
begin

text \<open>
  The test program \<open>src/libpager/libpager-test.cc\<close>: a mock kernel (\<^verbatim>\<open>class client\<close>), a file system that
  keeps its pages in memory (the pager callbacks), and the test routines. Together with the pager
  they are a closed system, \<open>test_world\<close>: messages between the kernel and the pager are queued, the
  callbacks act on the buffer.

  \<^item> Of a page of memory only the integer at its start is modelled, which the test counts up. A page
    that the mock kernel has is \<open>ptr = Some v\<close>, a message that carries a page comes with its integer,
    and \<open>mem\<close> has the integers of the pages in the pager's address space.
  \<^item> The data of a message that the pager receives are at \<open>message_area\<close>, which is free again when the
    message has been handled; a page that is read is at an address of its own until it is supplied.
  \<^item> \<^verbatim>\<open>enable_synchronization\<close> is false, so \<^verbatim>\<open>translator_suspend_operation\<close> does not wait and messages to the
    client are served by a thread of their own. The steps of that thread and of the pager's worker
    may come in any order; \<open>settle\<close> is the order in which the worker comes first. A wait for
    something that does not hold in a settled system is a failure (it would never end).
\<close>

section \<open>The mock kernel\<close>

record test_page =
  ptr :: "int option"
  access :: vm_prot_t
  precious :: bool
  request_outstanding :: bool

definition fresh_page :: test_page where
  "fresh_page = \<lparr>ptr = None, access = 0, precious = False, request_outstanding = False\<rparr>"

record test_client =
  memory_control :: mach_port_t
  memory_object_name :: mach_port_t
  pageptrs :: "test_page list"

record test_world =
  pg :: pager
  cl :: test_client
  inbox :: "(event \<times> int) list"
  requests :: "(kernel_message \<times> int) list"
  mem :: "vm_address_t \<Rightarrow> int"
  backing :: "nat \<Rightarrow> int"
  buffer_write_count :: "nat \<Rightarrow> int"

definition num_pages :: nat where "num_pages = 20"

definition BUFFER_SIZE :: "32 word" where "BUFFER_SIZE = 81920"

text \<open>\<^verbatim>\<open>pageptrs[page]\<close>, which makes room for the page.\<close>

definition page_at :: "nat \<Rightarrow> test_client \<Rightarrow> test_page" where
  "page_at n c = vec_get fresh_page (pageptrs c) n"

definition set_page :: "nat \<Rightarrow> test_page \<Rightarrow> test_client \<Rightarrow> test_client" where
  "set_page n p c = c\<lparr>pageptrs := vec_set fresh_page n p (pageptrs c)\<rparr>"

definition client_pages :: "nat \<Rightarrow> nat \<Rightarrow> nat list" where
  "client_pages start_page end_page = [start_page ..< Suc end_page]"

definition page_bytes :: "nat \<Rightarrow> 32 word" where
  "page_bytes n = of_nat (4096 * n)"

definition mark_outstanding :: "(test_page \<Rightarrow> bool) \<Rightarrow> string \<Rightarrow> nat \<Rightarrow> test_client \<Rightarrow> test_client result" where
  "mark_outstanding ok what n c =
     (let p = page_at n c in
      if \<not> ok p then Inl (Assert_failed what)
      else if request_outstanding p then Inl (Assert_failed ''! pageptrs[page].request_outstanding'')
      else Inr (set_page n (p\<lparr>request_outstanding := True\<rparr>) c))"

text \<open>A message to the pager, with the integer of the page it carries, if any.\<close>

definition send :: "kernel_message \<Rightarrow> int \<Rightarrow> test_world \<Rightarrow> test_world" where
  "send m v w = w\<lparr>requests := requests w @ [(m, v)]\<rparr>"

text \<open>\<^verbatim>\<open>request_read_access\<close> and \<^verbatim>\<open>request_write_access\<close>, which differ in the access they ask for.\<close>

definition request_access :: "vm_prot_t \<Rightarrow> nat \<Rightarrow> nat \<Rightarrow> test_world \<Rightarrow> test_world result" where
  "request_access prot start_page end_page w =
     andThen (for_each (mark_outstanding (\<lambda>p. ptr p = None) ''pageptrs[page].ptr == nullptr'') (client_pages start_page end_page) (cl w))
       (\<lambda>c. Inr (send (Memory_object_data_request (memory_control c) (page_bytes start_page)
          (page_bytes (end_page - start_page + 1)) prot) 0 (w\<lparr>cl := c\<rparr>)))"

definition request_read_access :: "nat \<Rightarrow> test_world \<Rightarrow> test_world result" where
  "request_read_access n = request_access VM_PROT_READ n n"

definition request_write_access :: "nat \<Rightarrow> test_world \<Rightarrow> test_world result" where
  "request_write_access n = request_access (VM_PROT_READ OR VM_PROT_WRITE) n n"

definition request_unlock :: "nat \<Rightarrow> nat \<Rightarrow> test_world \<Rightarrow> test_world result" where
  "request_unlock start_page end_page w =
     andThen (for_each (mark_outstanding (\<lambda>p. ptr p \<noteq> None \<and> access p AND VM_PROT_WRITE = 0)
         ''pageptrs[page].ptr != nullptr && !(pageptrs[page].access & VM_PROT_WRITE)'')
         (client_pages start_page end_page) (cl w))
       (\<lambda>c. Inr (send (Memory_object_data_unlock (memory_control c) (page_bytes start_page)
          (page_bytes (end_page - start_page + 1)) (VM_PROT_READ OR VM_PROT_WRITE)) 0 (w\<lparr>cl := c\<rparr>)))"

text \<open>Where the data of a received message are in the address space of the pager.\<close>

definition message_area :: vm_address_t where "message_area = 0x4000000"

definition return_page :: "nat \<Rightarrow> bool \<Rightarrow> bool \<Rightarrow> test_world \<Rightarrow> test_world result" where
  "return_page n dirty kcopy w =
     (let p = page_at n (cl w) in
      case ptr p of None \<Rightarrow> Inl (Out_of_range ''null pointer'')
      | Some v \<Rightarrow>
          let w = w\<lparr>buffer_write_count := (buffer_write_count w)(n := buffer_write_count w n + 1)\<rparr>;
              w = send (Memory_object_data_return (memory_control (cl w)) (page_bytes n) message_area 4096 dirty kcopy) (v + 1) w
          in Inr (w\<lparr>cl := set_page n (p\<lparr>ptr := if kcopy then Some (v + 1) else None\<rparr>) (cl w)\<rparr>))"

text \<open>The case of a data supply: the data are saved. (\<^verbatim>\<open>precious\<close> is set from the wrong item.)\<close>

definition supply_page :: "vm_prot_t \<Rightarrow> int \<Rightarrow> nat \<Rightarrow> test_client \<Rightarrow> test_client result" where
  "supply_page lock_value v n c =
    (let p = page_at n c in
     if ptr p \<noteq> None then Inl (Assert_failed ''pageptrs[page].ptr == nullptr'')
     else if \<not> request_outstanding p then Inl (Assert_failed ''pageptrs[page].request_outstanding'')
     else Inr (set_page n \<lparr>ptr = Some v, access = lock_value, precious = lock_value \<noteq> 0, request_outstanding = False\<rparr> c))"

text \<open>
  The body of the loop of a lock request. The code tests \<^verbatim>\<open>access | VM_PROT_WRITE\<close>, which is never 0, so
  every page that is present is returned, and as dirty.
\<close>

definition return_if_present :: "bool \<Rightarrow> bool \<Rightarrow> nat \<Rightarrow> test_world \<Rightarrow> test_world result" where
  "return_if_present should_return should_flush n w =
     (let p = page_at n (cl w) in
      if ptr p \<noteq> None \<and> should_return \<and> access p OR VM_PROT_WRITE \<noteq> 0 then return_page n True (\<not> should_flush) w
      else Inr (w\<lparr>cl := (cl w)\<lparr>pageptrs := vec_resize fresh_page n (pageptrs (cl w))\<rparr>\<rparr>))"

text \<open>A supply carries one page here, as all those that the pager sends.\<close>

fun service_message :: "event \<times> int \<Rightarrow> test_world \<Rightarrow> test_world result" where
  "service_message (Data_supply c off data len dealloc lock_value prec, v) w =
     (if len mod 4096 \<noteq> 0 then Inl (Assert_failed ''msg[1].data_size() % page_size == 0'')
      else andThen (for_each (supply_page lock_value v) (map (\<lambda>i. unat off div 4096 + i) [0 ..< unat len div 4096]) (cl w))
        (\<lambda>c. Inr (w\<lparr>cl := c\<rparr>)))"
| "service_message (Lock_request c off len should_return should_flush lock_value reply, v) w =
     (if off mod 4096 \<noteq> 0 then Inl (Assert_failed ''msg[0][0] % page_size == 0'')
      else if len mod 4096 \<noteq> 0 then Inl (Assert_failed ''msg[1][0] % page_size == 0'')
      else andThen (for_each (return_if_present (should_return \<noteq> MEMORY_OBJECT_RETURN_NONE) should_flush)
          (map (\<lambda>i. unat off div 4096 + i) [0 ..< unat len div 4096]) w)
        (\<lambda>w. Inr (if reply \<noteq> MACH_PORT_NULL then send (Memory_object_lock_completed (memory_control (cl w)) off len) 0 w else w)))"
| "service_message _ w = Inr w"

section \<open>The pager callbacks\<close>

text \<open>The buffer that \<^verbatim>\<open>pager_read_page\<close> allocates for a page.\<close>

definition read_area :: "vm_offset_t \<Rightarrow> vm_address_t" where
  "read_area PAGE = 0x1000000 + PAGE"

abbreviation EIO :: int where "EIO \<equiv> 0x40000005"

definition test_fs :: user_pager where
  "test_fs = \<lparr>
     pager_read_page = (\<lambda>h PAGE. if PAGE + 4096 > BUFFER_SIZE then (EIO, 0, False)
       else (KERN_SUCCESS, read_area PAGE, True)),
     pager_write_page = (\<lambda>h PAGE BUF. if PAGE + 4096 > BUFFER_SIZE then EIO else KERN_SUCCESS),
     pager_unlock_page = (\<lambda>h ADDRESS. KERN_SUCCESS),
     pager_report_extent = (\<lambda>h. (0, BUFFER_SIZE))\<rparr>"

text \<open>What an event of the pager does outside the pager. A message goes to the client it is addressed to.\<close>

fun world_event :: "event \<Rightarrow> test_world \<Rightarrow> test_world result" where
  "world_event (Read_page off) w =
     Inr (if off + 4096 > BUFFER_SIZE then w else w\<lparr>mem := (mem w)(read_area off := backing w (unat off div 4096))\<rparr>)"
| "world_event (Write_page off data) w =
     (let n = unat off div 4096 in
      if off + 4096 > BUFFER_SIZE then Inr w
      else if \<not> mem w data \<ge> backing w n then Inl (Assert_failed ''*(int *)BUF >= *(int *)(buffer + PAGE)'')
      else Inr (w\<lparr>backing := (backing w)(n := mem w data)\<rparr>))"
| "world_event (Data_supply c off data len dealloc lock_value prec) w =
     Inr (if c = memory_control (cl w)
          then w\<lparr>inbox := inbox w @ [(Data_supply c off data len dealloc lock_value prec, mem w data)]\<rparr> else w)"
| "world_event (Lock_request c off len ret fl lock_value reply) w =
     Inr (if c = memory_control (cl w) then w\<lparr>inbox := inbox w @ [(Lock_request c off len ret fl lock_value reply, 0)]\<rparr> else w)"
| "world_event (Data_error c off len err) w =
     Inr (if c = memory_control (cl w) then w\<lparr>inbox := inbox w @ [(Data_error c off len err, 0)]\<rparr> else w)"
| "world_event _ w = Inr w"

definition world_update :: "pager \<Rightarrow> test_world \<Rightarrow> test_world result" where
  "world_update s w = for_each world_event (drop (length (events (pg w))) (events s)) (w\<lparr>pg := s\<rparr>)"

section \<open>Steps\<close>

definition serve_pager :: "test_world \<Rightarrow> test_world result" where
  "serve_pager w =
     (case requests w of [] \<Rightarrow> Inr w
      | (m, v) # ms \<Rightarrow> andThen (method_of test_fs (\<lambda>_. False) m (pg w)) (\<lambda>s.
          world_update s (w\<lparr>requests := ms, mem := (mem w)(message_area := v)\<rparr>)))"

definition serve_client :: "test_world \<Rightarrow> test_world result" where
  "serve_client w = (case inbox w of [] \<Rightarrow> Inr w | e # es \<Rightarrow> service_message e (w\<lparr>inbox := es\<rparr>))"

fun settle :: "nat \<Rightarrow> test_world \<Rightarrow> test_world result" where
  "settle 0 w = Inr w"
| "settle (Suc fuel) w =
     (if requests w \<noteq> [] then andThen (serve_pager w) (settle fuel)
      else if inbox w \<noteq> [] then andThen (serve_client w) (settle fuel)
      else Inr w)"

text \<open>Any order of the two threads.\<close>

inductive world_step :: "test_world \<Rightarrow> test_world \<Rightarrow> bool" where
  pager: "requests w \<noteq> [] \<Longrightarrow> serve_pager w = Inr w' \<Longrightarrow> world_step w w'"
| kernel: "inbox w \<noteq> [] \<Longrightarrow> serve_client w = Inr w' \<Longrightarrow> world_step w w'"

lemma settle_world_steps: "settle fuel w = Inr w' \<Longrightarrow> world_step\<^sup>*\<^sup>* w w'"
proof (induction fuel w arbitrary: w' rule: settle.induct)
  case (2 fuel w)
  consider (pager) v where "requests w \<noteq> []" "serve_pager w = Inr v" "settle fuel v = Inr w'"
    | (client) v where "requests w = []" "inbox w \<noteq> []" "serve_client w = Inr v" "settle fuel v = Inr w'"
    | (over) "w' = w"
    using 2(3) by (auto split: if_splits)
  then show ?case
    by cases (use 2(1,2) in \<open>auto intro: converse_rtranclp_into_rtranclp world_step.intros\<close>)
qed simp

section \<open>The test routines\<close>

definition initial_world :: test_world where
  "initial_world = \<lparr>pg = new_pager 7 4096 True 2 True, cl = \<lparr>memory_control = 0, memory_object_name = 0, pageptrs = []\<rparr>,
     inbox = [], requests = [], mem = (\<lambda>_. 0), backing = (\<lambda>_. 0), buffer_write_count = (\<lambda>_. 0)\<rparr>"

text \<open>
  The constructor and the destructor of \<^verbatim>\<open>class client\<close>, the latter after its wait. The constructor waits
  for the first message on its port, which has to say that the pager is ready.
\<close>

fun is_ready :: "mach_port_t \<Rightarrow> event \<Rightarrow> bool" where
  "is_ready control (Object_ready c mc cs) = (c = control)"
| "is_ready control _ = False"

definition new_client :: "mach_port_t \<Rightarrow> mach_port_t \<Rightarrow> test_world \<Rightarrow> test_world result" where
  "new_client control nm w =
     (let w = w\<lparr>cl := \<lparr>memory_control = control, memory_object_name = nm, pageptrs = []\<rparr>\<rparr>
      in andThen (serve_pager (send (Memory_object_init control nm 4096) 0 w)) (\<lambda>w'.
        if list_ex (is_ready control) (drop (length (events (pg w))) (events (pg w'))) then Inr w'
        else Inl (Assert_failed ''msg->msgh_id == 2094'')))"

definition destroy_client :: "test_world \<Rightarrow> test_world result" where
  "destroy_client w =
     andThen (for_each (\<lambda>n w. if ptr (page_at n (cl w)) \<noteq> None \<and> access (page_at n (cl w)) OR VM_PROT_WRITE \<noteq> 0
         then return_page n True False w else Inr w) [0 ..< length (pageptrs (cl w))] w)
       (\<lambda>w. Inr (send (Dead_name_notification (memory_control (cl w))) 0 w))"

text \<open>A call of the pager's interface that sends lock requests; the caller may wait for their effects.\<close>

definition call_pager :: "(pager \<Rightarrow> pager \<times> bool) \<Rightarrow> test_world \<Rightarrow> test_world result" where
  "call_pager f w = world_update (fst (f (pg w))) w"

text \<open>A wait of the test thread, in a settled system.\<close>

definition wait_for_page :: "nat \<Rightarrow> test_world \<Rightarrow> test_world result" where
  "wait_for_page n w = (if request_outstanding (page_at n (cl w)) then Inl (Process_exit ''wait_for_page'')
     else Inr (w\<lparr>cl := (cl w)\<lparr>pageptrs := vec_resize fresh_page n (pageptrs (cl w))\<rparr>\<rparr>))"

definition wait_for_all_pages :: "test_world \<Rightarrow> test_world result" where
  "wait_for_all_pages w = (if list_ex request_outstanding (pageptrs (cl w)) then Inl (Process_exit ''wait_for_all_pages'') else Inr w)"

text \<open>A turn of \<^verbatim>\<open>random_test_asynchronous\<close>: the page and the outcomes of \<^verbatim>\<open>rand() & 1\<close>.\<close>

type_synonym choice = "nat \<times> bool \<times> bool"

definition random_step :: "choice \<Rightarrow> test_world \<Rightarrow> test_world result" where
  "random_step = (\<lambda>(page, first, second) w.
     if first then
       andThen (wait_for_page page w) (\<lambda>w.
         let p = page_at page (cl w) in
         if ptr p = None then if second then request_read_access page w else request_write_access page w
         else if access p AND VM_PROT_WRITE \<noteq> 0 then return_page page True False w
         else if second then request_unlock page page w else return_page page False False w)
     else if second then call_pager (pager_return_some (page_bytes page) 4096 True) w
     else call_pager (pager_sync_some (page_bytes page) 4096 True) w)"

text \<open>The test, in the schedule in which every operation is over before the next one begins.\<close>

definition fuel :: nat where "fuel = 100"

definition random_test :: "mach_port_t \<Rightarrow> choice list \<Rightarrow> test_world \<Rightarrow> test_world result" where
  "random_test control choices w =
     andThen (new_client control (control + 1) w) (\<lambda>w.
     andThen (for_each (\<lambda>ch w. andThen (random_step ch w) (settle fuel)) choices w) (\<lambda>w.
     andThen (wait_for_all_pages w) (\<lambda>w.
     andThen (destroy_client w) (settle fuel))))"

end
