(* ===== verification/Test_Pager.thy ===== *)
theory Test_Pager
  imports Test_Kernel Pager_Protocol
begin

text \<open>
  What the pager does with the messages of the test program of \<open>Test_Kernel\<close>, when it has one client
  that holds some of the pages and every write is over: \<open>quiet_pager\<close>. Each message leads to such a
  state again; the events say what the file system and the client see of it.
\<close>

section \<open>Pages of the buffer\<close>

lemma page_bytes_simps:
  assumes "n < num_pages"
  shows "unat (page_bytes n) = 4096 * n" "page_bytes n mod 4096 = 0" "unat (page_bytes n div 4096) = n"
    "unat (page_bytes n) div 4096 = n"
proof -
  have n: "n < 20" using assms by (simp add: num_pages_def)
  then show u: "unat (page_bytes n) = 4096 * n" by (simp add: page_bytes_def unat_of_nat del: of_nat_mult)
  show "page_bytes n mod 4096 = 0" using u by (simp add: unat_eq_zero [symmetric] unat_mod)
  show "unat (page_bytes n div 4096) = n" using u by (simp add: unat_div_distrib)
  show "unat (page_bytes n) div 4096 = n" using u by simp
qed

lemma page_bytes_in_buffer:
  assumes "n < num_pages"
  shows "\<not> page_bytes n + 4096 > BUFFER_SIZE"
proof -
  have n: "n < 20" using assms by (simp add: num_pages_def)
  have "unat (page_bytes n + 4096) = 4096 * n + 4096"
    using page_bytes_simps(1) [OF assms] n by (simp add: unat_word_ariths)
  then show ?thesis using n by (simp add: word_less_nat_alt BUFFER_SIZE_def)
qed

section \<open>One client and no write under way\<close>

definition held_entry :: "mach_port_t \<Rightarrow> bool \<Rightarrow> pagemap_entry_data" where
  "held_entry c held = empty_page\<lparr>ACCESSLIST := if held then [c] else []\<rparr>"

definition quiet_pager :: "mach_port_t \<Rightarrow> nat set \<Rightarrow> (lock_range \<times> outstanding_lock) list \<Rightarrow> pager \<Rightarrow> bool" where
  "quiet_pager c H L s \<longleftrightarrow> page_size s = 4096 \<and> port_right s \<noteq> MACH_PORT_NULL \<and> \<not> terminating s \<and>
     WRITEWAIT s = [] \<and> NEXTERROR s = [] \<and> outstanding_locks s = L \<and> outstanding_change_requests s = [] \<and>
     (\<forall>n. page_read s n = held_entry c (n \<in> H))"

lemma held_entry_fields [simp]:
  "ACCESSLIST (held_entry c h) = (if h then [c] else [])" "WAITLIST (held_entry c h) = []"
  "PAGINGOUT (held_entry c h) = False" "WRITE_ACCESS_GRANTED (held_entry c h) = False"
  "INVALID (held_entry c h) = False" "ERROR (held_entry c h) = KERN_SUCCESS"
  by (simp_all add: held_entry_def empty_page_def)

lemma held_entry_eqI:
  "ACCESSLIST d = (if h then [c] else []) \<Longrightarrow> WAITLIST d = [] \<Longrightarrow> \<not> PAGINGOUT d \<Longrightarrow> \<not> WRITE_ACCESS_GRANTED d \<Longrightarrow>
     \<not> INVALID d \<Longrightarrow> ERROR d = KERN_SUCCESS \<Longrightarrow> d = held_entry c h"
  by (cases d) (simp add: held_entry_def empty_page_def)

lemma held_entry_updates [simp]:
  "(held_entry c h)\<lparr>PAGINGOUT := False\<rparr> = held_entry c h" "(held_entry c h)\<lparr>INVALID := False\<rparr> = held_entry c h"
  "(held_entry c h)\<lparr>ERROR := KERN_SUCCESS\<rparr> = held_entry c h"
  "(held_entry c h)\<lparr>INVALID := False, PAGINGOUT := False\<rparr> = held_entry c h"
  "(held_entry c h)\<lparr>PAGINGOUT := False, INVALID := False, ERROR := KERN_SUCCESS\<rparr> = held_entry c h"
  by (simp_all add: held_entry_def empty_page_def)

lemma quiet_pagerD:
  assumes "quiet_pager c H L s"
  shows "page_size s = 4096" "port_right s \<noteq> MACH_PORT_NULL" "\<not> terminating s" "WRITEWAIT s = []" "NEXTERROR s = []"
    "outstanding_locks s = L" "outstanding_change_requests s = []" "page_read s n = held_entry c (n \<in> H)"
  using assms by (simp_all add: quiet_pager_def)

lemma quiet_page_of: "quiet_pager c H L s \<Longrightarrow> n < num_pages \<Longrightarrow> page_of s (page_bytes n) = n"
  by (simp add: page_of_def quiet_pager_def page_bytes_simps)

lemma quiet_offset_of: "quiet_pager c H L s \<Longrightarrow> offset_of s n = page_bytes n"
  by (simp add: offset_of_def quiet_pager_def page_bytes_def)

lemma quiet_no_pages: "quiet_pager c {} L s \<longleftrightarrow> quiet_pager c' {} L s"
  by (simp add: quiet_pager_def held_entry_def)

section \<open>A request\<close>

lemma quiet_request:
  assumes q: "quiet_pager c H L s" and n: "n < num_pages" "n \<notin> H"
  shows "\<exists>s'. data_request test_fs c (page_bytes n) 4096 prot s = Inr s' \<and> quiet_pager c (insert n H) L s' \<and>
    events s' = events s @ [Read_page (page_bytes n),
      Data_supply c (page_bytes n) (read_area (page_bytes n)) 4096 True VM_PROT_WRITE (PRECIOUS s)]"
proof -
  note d = quiet_pagerD [OF q] quiet_page_of [OF q n(1)]
  have "aligned (page_bytes n) 4096 s" using d page_bytes_simps [OF n(1)] by (simp add: aligned_def)
  moreover have "no_next_error c (page_bytes n) s" using d by (simp add: no_next_error_def)
  moreover have "idle_page (page_read s (page_of s (page_bytes n)))" using d n by (simp add: idle_page_def)
  moreover have "pager_read_page test_fs (events s) (page_bytes n) = (KERN_SUCCESS, read_area (page_bytes n), True)"
    using page_bytes_in_buffer [OF n(1)] by (simp add: test_fs_def)
  ultimately show ?thesis
    using data_request_idle [of "page_bytes n" 4096 s c test_fs KERN_SUCCESS "read_area (page_bytes n)" True prot] d n
    by (auto simp: quiet_pager_def granted_page_def page_supply_def intro!: held_entry_eqI)
qed

section \<open>A page that comes back\<close>

text \<open>The events that have no effect outside the pager.\<close>

definition inner_event :: "event \<Rightarrow> bool" where
  "inner_event e \<longleftrightarrow> (\<forall>w. world_event e w = Inr w)"

lemma inner_event_simps [simp]:
  "inner_event (Munmap a l)" "inner_event (Notify_evict off)" "inner_event Wake_write_waiters"
  "inner_event (Wake_lock_waiters k)" "inner_event (Request_dead_name c p)" "inner_event (Object_ready c b i)"
  by (simp_all add: inner_event_def)

lemma return_scan_quiet:
  assumes q: "quiet_pager c H L s" and n: "n < num_pages" "n \<in> H" and c: "c \<noteq> MACH_PORT_DEAD"
  shows "return_scan_page stack c DATA True kcopy 0 n s =
    Inr (page_write n ((held_entry c kcopy)\<lparr>PAGINGOUT := True\<rparr>) s, idle_flags stack 0)"
proof (cases kcopy)
  case True
  with quiet_pagerD [OF q] n show ?thesis by (simp add: return_kept mark_dirty_def)
next
  case False
  have "returned_entry c (page_read s n) = held_entry c False"
    using quiet_pagerD(8) [OF q, of n] n c by (simp add: returned_entry_def held_entry_def)
  with False show ?thesis by (simp add: return_noted unlock_possible_def mark_dirty_def)
qed

lemma one_write_matches:
  assumes "page_size s = 4096" and "WRITEWAIT s = [e]" and "ww_OFFSET e = page_bytes n" "ww_LENGTH e = 4096"
  shows "matching_page_count_on_WRITEWAIT s n = 1"
  using assms by (simp add: matching_page_count_on_WRITEWAIT_def covers_page_def offset_of_def page_bytes_def algebra_simps)

lemma service_one_write:
  fixes kcopy DATA n
  defines "e \<equiv> \<lparr>ww_OFFSET = page_bytes n, ww_DATA = DATA, ww_LENGTH = 4096, ww_KERNEL_COPY = kcopy\<rparr>"
  assumes s: "page_size s = 4096" "WRITEWAIT s = [e]" "NEXTERROR s = []" and n: "n < num_pages"
    and d: "page_read s n = (held_entry c kcopy)\<lparr>PAGINGOUT := True\<rparr>"
  shows "service_first_WRITEWAIT_entry test_fs s =
    Inr (pop_WRITEWAIT ((if notify_on_evict s \<and> \<not> kcopy then emit (Notify_evict (page_bytes n)) else id)
      (emit (Munmap DATA 4096) (page_write n (held_entry c kcopy) (emit (Write_page (page_bytes n) DATA) s)))))"
proof -
  let ?t = "emit (Write_page (page_bytes n) DATA) s"
  have ns: "page_range s (page_bytes n) 4096 = [n]"
    using one_page [of s "page_bytes n"] s(1) n by (simp add: page_of_def page_bytes_simps)
  have offs: "page_size t = 4096 \<Longrightarrow> offset_of t n = page_bytes n" for t by (simp add: offset_of_def page_bytes_def)
  have m: "matching_page_count_on_WRITEWAIT s n = 1" "matching_page_count_on_WRITEWAIT ?t n = 1"
    using one_write_matches [of s e n] one_write_matches [of ?t e n] s by (simp_all add: e_def)
  have up: "write_upcalls test_fs DATA [(0, n, True)] s = (?t, [Some KERN_SUCCESS])"
    using offs s(1) page_bytes_in_buffer [OF n] by (simp add: test_fs_def data_at_def Let_def)
  have drop: "drop_errors_of_page n ?t = ?t" using s(3) by (cases s) (simp add: drop_errors_of_page_def emit_def)
  have fin: "finish_writes e [(0, n, Some KERN_SUCCESS)] ?t = Inr (page_write n (held_entry c kcopy) ?t, [\<not> kcopy])"
    using m(2) drop d by (simp add: finish_write_page_def Let_def e_def)
  show ?thesis
    using s(2) ns up fin m(1)
    by (simp add: service_first_WRITEWAIT_entry_def e_def Let_def pageout_flags_def offs s(1))
qed

lemma page_read_queue: "page_read (s\<lparr>WRITEWAIT := ws\<rparr>) n = page_read s n"
  by (simp add: page_read_def)

lemma drain_one:
  assumes "WRITEWAIT s = [e]" and "service_first_WRITEWAIT_entry U s = Inr t"
  shows "drain_WRITEWAIT U s = Inr t"
  using assms service_first_WRITEWAIT_entry_frame [OF assms(2)]
  by (simp add: drain_WRITEWAIT.simps [of U s] drain_WRITEWAIT.simps [of U t])

lemma quiet_return:
  assumes q: "quiet_pager c H L s" and n: "n < num_pages" "n \<in> H" and c: "c \<noteq> MACH_PORT_DEAD"
  shows "\<exists>s' es. data_return test_fs stack c (page_bytes n) DATA 4096 True kcopy s = Inr s' \<and>
    quiet_pager c (if kcopy then H else H - {n}) L s' \<and>
    events s' = events s @ Write_page (page_bytes n) DATA # es \<and> list_all inner_event es"
proof -
  let ?s1 = "page_write n ((held_entry c kcopy)\<lparr>PAGINGOUT := True\<rparr>) s"
  let ?s2 = "queue_write (page_bytes n) DATA 4096 kcopy ?s1"
  note d = quiet_pagerD [OF q]
  have "page_range s (page_bytes n) 4096 = [n]"
    using one_page [of s "page_bytes n"] d(1) quiet_page_of [OF q n(1)] by simp
  then have "data_return_pages test_fs stack c (page_bytes n) DATA 4096 True kcopy s = Inr ?s1"
    using d page_bytes_simps(2) [OF n(1)] return_scan_quiet [OF q n c]
    by (simp add: data_return_pages_def Let_def)
  then have r: "data_return test_fs stack c (page_bytes n) DATA 4096 True kcopy s = drain_WRITEWAIT test_fs ?s2"
    using d by (simp add: data_return_def)
  define s2 where "s2 = ?s2"
  have s2: "page_size s2 = 4096" "NEXTERROR s2 = []" "page_read s2 n = (held_entry c kcopy)\<lparr>PAGINGOUT := True\<rparr>"
    "port_right s2 \<noteq> MACH_PORT_NULL" "\<not> terminating s2" "outstanding_locks s2 = L"
    "outstanding_change_requests s2 = []" "events s2 = events s"
    and ww: "WRITEWAIT s2 = [\<lparr>ww_OFFSET = page_bytes n, ww_DATA = DATA, ww_LENGTH = 4096, ww_KERNEL_COPY = kcopy\<rparr>]"
    and pages: "page_read s2 m = (if m = n then (held_entry c kcopy)\<lparr>PAGINGOUT := True\<rparr> else held_entry c (m \<in> H))" for m
    using d by (simp_all add: s2_def queue_write_def page_read_queue)
  note drain = drain_one [OF ww service_one_write [OF s2(1) ww s2(2) n(1) s2(3)]]
  show ?thesis
    unfolding r s2_def [symmetric] drain
    using s2 ww pages n by (auto simp: pop_WRITEWAIT_def quiet_pager_def page_read_queue)
qed

section \<open>A lock that the file system asks for\<close>

lemma quiet_lock_object:
  assumes q: "quiet_pager c H [] s" and n: "n < num_pages" and r: "\<not> only_signal_WRITE_clients ret fl"
  shows "\<exists>s'. lock_object_request (page_bytes n) 4096 ret fl True s = (s', n \<in> H) \<and>
    quiet_pager c H (if n \<in> H then [((page_bytes n, 4096), [(c, \<lparr>count = 1, internal_lock_outstanding = False\<rparr>)])] else []) s' \<and>
    events s' = events s @
      (if n \<in> H then [Lock_request c (page_bytes n) 4096 ret fl VM_PROT_NO_CHANGE (port_right s)] else [])"
proof -
  note d = quiet_pagerD [OF q]
  have "page_range s (page_bytes n) 4096 = [n]"
    using one_page [of s "page_bytes n"] d(1) quiet_page_of [OF q n] by simp
  then have "lock_object_clients (page_bytes n) 4096 ret fl s = (if n \<in> H then [c] else [])"
    using d r by (simp add: lock_object_clients_def)
  then show ?thesis
    using d by (auto simp: lock_object_request_def Let_def pager_port_def quiet_pager_def put_client_lock_def
      client_lock_def range_locks_def fresh_client_lock_def omap_at_def omap_get_def page_read_def)
qed

lemma quiet_lock_completed:
  assumes "quiet_pager c H [(k, [(c, \<lparr>count = 1, internal_lock_outstanding = False\<rparr>)])] s"
  shows "\<exists>s'. lock_completed test_fs c (fst k) (snd k) s = Inr s' \<and> quiet_pager c H [] s' \<and>
    events s' = events s @ [Wake_lock_waiters k]"
  using quiet_pagerD [OF assms]
  by (auto simp: lock_completed_def omap_get_def omap_at_def Let_def quiet_pager_def page_read_def)

section \<open>The client comes and goes\<close>

lemma quiet_init:
  assumes "quiet_pager c {} [] s"
  shows "\<exists>s' es. object_init c' nm 4096 s = Inr s' \<and> quiet_pager c' {} [] s' \<and>
    events s' = events s @ es \<and> list_all inner_event es \<and> list_ex (is_ready c') es"
  using quiet_pagerD [OF assms] assms
  by (simp add: object_init_def Let_def quiet_pager_def page_read_def held_entry_def)

lemma quiet_dead_name:
  assumes "quiet_pager c {} [] s"
  shows "\<exists>s' es. dead_name test_fs c s = Inr s' \<and> quiet_pager c {} [] s' \<and>
    events s' = events s @ es \<and> list_all inner_event es"
proof -
  note d = quiet_pagerD [OF assms]
  have "d = held_entry c False" if "d \<in> set (pagemap s)" for d
    using that d(8) by (metis in_set_conv_nth page_read_def vec_get_def empty_iff)
  moreover have "drop_client_page c (held_entry c False) = held_entry c False" by (simp add: drop_client_page_def)
  ultimately have "map (drop_client_page c) (pagemap s) = pagemap s" by (intro map_idI) metis
  then show ?thesis
    using d by (simp add: dead_name_def drop_client_def Let_def complete_changes_def quiet_pager_def page_read_def)
qed

end
