(* ===== verification/Test_Runs.thy ===== *)
theory Test_Runs
  imports Test_Pager
begin

text \<open>
  The random tests of the test program pass. \<open>world_ok\<close> is the invariant of the closed system of
  \<open>Test_Kernel\<close>, between two operations and while returned pages are on their way to the pager;
  every turn of the test keeps it. What a whole test leaves in the file is given by an abstract
  model that knows nothing of messages: the set of pages the client has, and a counter per page.
\<close>

section \<open>The abstract model\<close>

type_synonym test_model = "nat set \<times> (nat \<Rightarrow> int)"

fun model_step :: "choice \<Rightarrow> test_model \<Rightarrow> test_model" where
  "model_step (page, first, second) (H, cnt) =
     (if page \<in> H then (if first \<or> second then H - {page} else H, cnt(page := cnt page + 1))
      else (if first then insert page H else H, cnt))"

definition model_end :: "test_model \<Rightarrow> nat \<Rightarrow> int" where
  "model_end = (\<lambda>(H, cnt) n. if n \<in> H then cnt n + 1 else cnt n)"

definition model_test :: "choice list \<Rightarrow> (nat \<Rightarrow> int) \<Rightarrow> nat \<Rightarrow> int" where
  "model_test choices cnt = model_end (fold model_step choices ({}, cnt))"

section \<open>The invariant\<close>

text \<open>The client has the pages \<open>C\<close>, with what was last written to them.\<close>

definition client_ok :: "mach_port_t \<Rightarrow> nat set \<Rightarrow> (nat \<Rightarrow> int) \<Rightarrow> test_client \<Rightarrow> bool" where
  "client_ok c C cnt kern \<longleftrightarrow> memory_control kern = c \<and> C \<subseteq> {..<num_pages} \<and>
     (\<forall>n. \<not> request_outstanding (page_at n kern) \<and> ptr (page_at n kern) = (if n \<in> C then Some (cnt n) else None) \<and>
       (n \<in> C \<longrightarrow> access (page_at n kern) = VM_PROT_WRITE))"

definition returned_page :: "mach_port_t \<Rightarrow> (nat \<Rightarrow> int) \<Rightarrow> nat \<times> bool \<Rightarrow> kernel_message \<times> int" where
  "returned_page c cnt = (\<lambda>(n, kcopy). (Memory_object_data_return c (page_bytes n) message_area 4096 True kcopy, cnt n))"

text \<open>
  The pager still counts the pages \<open>H\<close> as the client's; the pages \<open>ns\<close> are on their way to it, the
  messages \<open>T\<close> behind them. The file is one write behind for the former, up to date for all others.
\<close>

definition world_ok :: "mach_port_t \<Rightarrow> nat set \<Rightarrow> nat set \<Rightarrow> (lock_range \<times> outstanding_lock) list \<Rightarrow>
    (nat \<times> bool) list \<Rightarrow> (kernel_message \<times> int) list \<Rightarrow> (nat \<Rightarrow> int) \<Rightarrow> test_world \<Rightarrow> bool" where
  "world_ok c C H L ns T cnt w \<longleftrightarrow> quiet_pager c H L (pg w) \<and> H \<subseteq> {..<num_pages} \<and> client_ok c C cnt (cl w) \<and>
     inbox w = [] \<and> requests w = map (returned_page c cnt) ns @ T \<and> buffer_write_count w = cnt \<and>
     distinct (map fst ns) \<and> fst ` set ns \<subseteq> H \<and>
     (\<forall>n. backing w n = cnt n - (if n \<in> fst ` set ns then 1 else 0))"

definition settled_world :: "mach_port_t \<Rightarrow> nat set \<Rightarrow> (nat \<Rightarrow> int) \<Rightarrow> test_world \<Rightarrow> bool" where
  "settled_world c H cnt w \<longleftrightarrow> world_ok c H H [] [] [] cnt w"

lemma page_at_set_page [simp]: "page_at m (set_page n p c) = (if m = n then p else page_at m c)"
  by (simp add: page_at_def set_page_def)

lemma set_page_fields [simp]:
  "memory_control (set_page n p c) = memory_control c"
  "length (pageptrs (set_page n p c)) = max (length (pageptrs c)) (Suc n)"
  by (simp_all add: set_page_def vec_set_def length_vec_resize)

lemma page_at_resize [simp]: "page_at m (c\<lparr>pageptrs := vec_resize fresh_page n (pageptrs c)\<rparr>) = page_at m c"
  by (simp add: page_at_def)

lemma client_ok_resize [simp]:
  "client_ok c C cnt (kern\<lparr>pageptrs := vec_resize fresh_page n (pageptrs kern)\<rparr>) = client_ok c C cnt kern"
  by (simp add: client_ok_def)

lemma world_ok_resize:
  "world_ok c C H L ns T cnt w \<Longrightarrow>
     world_ok c C H L ns T cnt (w\<lparr>cl := (cl w)\<lparr>pageptrs := vec_resize fresh_page n (pageptrs (cl w))\<rparr>\<rparr>)"
  by (simp add: world_ok_def)

lemma world_ok_send: "world_ok c C H L ns T cnt w \<Longrightarrow> world_ok c C H L ns (T @ [(m, v)]) cnt (send m v w)"
  by (simp add: world_ok_def send_def)

section \<open>Events\<close>

lemma for_each_inner: "list_all inner_event es \<Longrightarrow> for_each world_event es w = Inr w"
  by (induction es) (simp_all add: inner_event_def)

lemma world_update_eq: "events s = events (pg w) @ es \<Longrightarrow> world_update s w = for_each world_event es (w\<lparr>pg := s\<rparr>)"
  by (simp add: world_update_def)

section \<open>Pages on their way\<close>

lemma return_page_ok:
  assumes "world_ok c C H L ns [] cnt w" and "n \<in> C" "n \<in> H" "n \<notin> fst ` set ns"
  shows "\<exists>w'. return_page n True kcopy w = Inr w' \<and>
    world_ok c (if kcopy then C else C - {n}) H L (ns @ [(n, kcopy)]) [] (cnt(n := cnt n + 1)) w' \<and>
    length (pageptrs (cl w')) = max (length (pageptrs (cl w))) (Suc n)"
proof -
  have "map (returned_page c cnt) ns = map (returned_page c (cnt(n := cnt n + 1))) ns"
    using assms(4) by (force simp: returned_page_def)
  moreover have "ptr (page_at n (cl w)) = Some (cnt n)" using assms by (simp add: world_ok_def client_ok_def)
  ultimately show ?thesis
    using assms by (auto simp: return_page_def world_ok_def send_def returned_page_def client_ok_def Let_def)
qed

lemma serve_returned_page:
  assumes w: "world_ok c C H L ((n, kcopy) # ns) T cnt w" and c: "c \<noteq> MACH_PORT_DEAD"
  shows "\<exists>w'. serve_pager w = Inr w' \<and> world_ok c C (if kcopy then H else H - {n}) L ns T cnt w'"
proof -
  have q: "quiet_pager c H L (pg w)" and n: "n < num_pages" "n \<in> H" using w by (auto simp: world_ok_def)
  obtain s' es where s': "data_return test_fs (\<lambda>_. False) c (page_bytes n) message_area 4096 True kcopy (pg w) = Inr s'"
    "quiet_pager c (if kcopy then H else H - {n}) L s'"
    "events s' = events (pg w) @ Write_page (page_bytes n) message_area # es" "list_all inner_event es"
    using quiet_return [OF q n c] by metis
  have "unat (page_bytes n) div 4096 = n" "\<not> page_bytes n + 4096 > BUFFER_SIZE"
    using n(1) by (simp_all add: page_bytes_simps page_bytes_in_buffer del: not_less)
  with w s' show ?thesis
    by (auto simp: serve_pager_def world_ok_def returned_page_def world_update_eq for_each_inner Let_def)
qed

lemma settle_returned_pages:
  assumes "world_ok c C H L ns T cnt w" and "c \<noteq> MACH_PORT_DEAD"
  shows "\<exists>w'. settle (length ns + k) w = settle k w' \<and>
    world_ok c C (H - set (map fst (filter (\<lambda>x. \<not> snd x) ns))) L [] T cnt w'"
  using assms
proof (induction ns arbitrary: H w)
  case Nil
  then show ?case by auto
next
  case (Cons x ns)
  obtain n kcopy where x: "x = (n, kcopy)" by force
  let ?H = "if kcopy then H else H - {n}"
  obtain w1 where w1: "serve_pager w = Inr w1" "world_ok c C ?H L ns T cnt w1"
    using serve_returned_page Cons.prems x by blast
  have "requests w \<noteq> []" using Cons.prems(1) by (simp add: world_ok_def)
  then have "settle (length (x # ns) + k) w = settle (length ns + k) w1" using w1 by simp
  moreover have "?H - set (map fst (filter (\<lambda>x. \<not> snd x) ns)) = H - set (map fst (filter (\<lambda>x. \<not> snd x) (x # ns)))"
    using x by auto
  ultimately show ?case using Cons.IH [OF w1(2) Cons.prems(2)] by metis
qed

lemma settle_quiet: "requests w = [] \<Longrightarrow> inbox w = [] \<Longrightarrow> settle k w = Inr w"
  by (cases k) simp_all

lemma settle_pager: "requests w \<noteq> [] \<Longrightarrow> serve_pager w = Inr w' \<Longrightarrow> 0 < k \<Longrightarrow> settle k w = settle (k - 1) w'"
  by (cases k) simp_all

lemma settle_client:
  "requests w = [] \<Longrightarrow> inbox w \<noteq> [] \<Longrightarrow> serve_client w = Inr w' \<Longrightarrow> 0 < k \<Longrightarrow> settle k w = settle (k - 1) w'"
  by (cases k) simp_all

lemma settled_worldD:
  assumes "settled_world c H cnt w"
  shows "quiet_pager c H [] (pg w)" "H \<subseteq> {..<num_pages}" "client_ok c H cnt (cl w)" "inbox w = []" "requests w = []"
    "buffer_write_count w = cnt" "backing w = cnt"
  using assms by (simp_all add: settled_world_def world_ok_def fun_eq_iff)

lemma settled_worldI:
  "quiet_pager c H [] (pg w) \<Longrightarrow> client_ok c H cnt (cl w) \<Longrightarrow> inbox w = [] \<Longrightarrow> requests w = [] \<Longrightarrow>
     buffer_write_count w = cnt \<Longrightarrow> backing w = cnt \<Longrightarrow> settled_world c H cnt w"
  by (simp add: settled_world_def world_ok_def client_ok_def)

lemma settle_world_ok:
  assumes "world_ok c H H' [] ns [] cnt w" and "c \<noteq> MACH_PORT_DEAD" and "length ns \<le> k"
    and "H = H' - set (map fst (filter (\<lambda>x. \<not> snd x) ns))"
  shows "\<exists>w'. settle k w = Inr w' \<and> settled_world c H cnt w'"
proof -
  obtain w' where "settle (length ns + (k - length ns)) w = settle (k - length ns) w'" "world_ok c H H [] [] [] cnt w'"
    using settle_returned_pages [OF assms(1,2)] assms(4) by blast
  moreover from this(2) have "settle (k - length ns) w' = Inr w'" by (simp add: world_ok_def settle_quiet)
  ultimately show ?thesis using assms(3) by (auto simp: settled_world_def)
qed

section \<open>A request\<close>

lemma request_settles:
  assumes w: "settled_world c H cnt w" and n: "n < num_pages" "n \<notin> H" and k: "2 \<le> k"
  shows "\<exists>w'. andThen (request_access prot n n w) (settle k) = Inr w' \<and> settled_world c (insert n H) cnt w'"
proof -
  note d = settled_worldD [OF w]
  let ?m = "Memory_object_data_request c (page_bytes n) 4096 prot"
  let ?p = "(page_at n (cl w))\<lparr>request_outstanding := True\<rparr>"
  define w1 where "w1 = send ?m 0 (w\<lparr>cl := set_page n ?p (cl w)\<rparr>)"
  have page: "ptr (page_at n (cl w)) = None" "\<not> request_outstanding (page_at n (cl w))" and c: "memory_control (cl w) = c"
    using d(3) n by (simp_all add: client_ok_def)
  then have r: "request_access prot n n w = Inr w1"
    by (simp add: request_access_def client_pages_def mark_outstanding_def Let_def w1_def page_bytes_def)
  obtain s' where s': "data_request test_fs c (page_bytes n) 4096 prot (pg w) = Inr s'" "quiet_pager c (insert n H) [] s'"
    "events s' = events (pg w) @ [Read_page (page_bytes n),
      Data_supply c (page_bytes n) (read_area (page_bytes n)) 4096 True VM_PROT_WRITE (PRECIOUS (pg w))]"
    using quiet_request [OF d(1) n] by metis
  let ?e = "(Data_supply c (page_bytes n) (read_area (page_bytes n)) 4096 True VM_PROT_WRITE (PRECIOUS (pg w)), cnt n)"
  define w2 where "w2 = w1\<lparr>pg := s', requests := [], inbox := [?e],
    mem := (mem w)(message_area := 0, read_area (page_bytes n) := cnt n)\<rparr>"
  have u: "unat (page_bytes n) div 4096 = n" "\<not> page_bytes n + 4096 > BUFFER_SIZE"
    using n(1) by (simp_all add: page_bytes_simps page_bytes_in_buffer del: not_less)
  have pager: "serve_pager w1 = Inr w2"
    using s'(1,3) d c u
    by (simp add: serve_pager_def w1_def w2_def send_def world_update_eq)
  let ?p' = "\<lparr>ptr = Some (cnt n), access = VM_PROT_WRITE, precious = True, request_outstanding = False\<rparr>"
  define w3 where "w3 = w2\<lparr>inbox := [], cl := set_page n ?p' (cl w2)\<rparr>"
  have client: "serve_client w2 = Inr w3"
    using page u by (simp add: serve_client_def w2_def w3_def w1_def supply_page_def Let_def send_def)
  have "settle k w1 = settle (k - 2) w3"
    using settle_pager [OF _ pager, of k] settle_client [OF _ _ client, of "k - 1"] k
    by (simp add: w1_def w2_def send_def numeral_2_eq_2)
  also have "\<dots> = Inr w3" by (rule settle_quiet) (simp_all add: w3_def w2_def)
  finally have "andThen (request_access prot n n w) (settle k) = Inr w3" using r by simp
  moreover have "settled_world c (insert n H) cnt w3"
    using d s'(2) n page by (intro settled_worldI) (auto simp: w3_def w2_def w1_def send_def client_ok_def)
  ultimately show ?thesis by blast
qed

section \<open>A lock that the file system asks for\<close>

lemma serve_lock_completed:
  assumes "world_ok c C H [(k, [(c, \<lparr>count = 1, internal_lock_outstanding = False\<rparr>)])] []
    [(Memory_object_lock_completed c (fst k) (snd k), v)] cnt w"
  shows "\<exists>w'. serve_pager w = Inr w' \<and> world_ok c C H [] [] [] cnt w'"
proof -
  have "quiet_pager c H [(k, [(c, \<lparr>count = 1, internal_lock_outstanding = False\<rparr>)])] (pg w)"
    using assms by (simp add: world_ok_def)
  then obtain s' where "lock_completed test_fs c (fst k) (snd k) (pg w) = Inr s'" "quiet_pager c H [] s'"
    "events s' = events (pg w) @ [Wake_lock_waiters k]"
    using quiet_lock_completed by blast
  with assms show ?thesis
    by (auto simp: serve_pager_def world_ok_def world_update_eq)
qed

text \<open>The client answers a lock request: it returns the page, then confirms.\<close>

lemma lock_request_settles:
  fixes n defines "key \<equiv> (page_bytes n, 4096) :: lock_range"
  assumes w: "world_ok c H H [(key, [(c, \<lparr>count = 1, internal_lock_outstanding = False\<rparr>)])] [] [] cnt w"
    and n: "n \<in> H" and c: "c \<noteq> MACH_PORT_DEAD" and k: "3 \<le> k" and p: "p \<noteq> MACH_PORT_NULL"
  shows "\<exists>w'. settle k (w\<lparr>inbox := [(Lock_request c (page_bytes n) 4096 MEMORY_OBJECT_RETURN_ALL fl VM_PROT_NO_CHANGE p, 0)]\<rparr>) =
      Inr w' \<and> settled_world c (if fl then H - {n} else H) (cnt(n := cnt n + 1)) w'"
proof -
  let ?L = "[(key, [(c, \<lparr>count = 1, internal_lock_outstanding = False\<rparr>)])]"
  let ?H = "if fl then H - {n} else H" and ?cnt = "cnt(n := cnt n + 1)"
  let ?m = "Memory_object_lock_completed c (page_bytes n) 4096"
  let ?w = "w\<lparr>inbox := [(Lock_request c (page_bytes n) 4096 MEMORY_OBJECT_RETURN_ALL fl VM_PROT_NO_CHANGE p, 0)]\<rparr>"
  have n': "n < num_pages" and r: "requests w = []" and i: "w\<lparr>inbox := []\<rparr> = w"
    and page: "ptr (page_at n (cl w)) \<noteq> None" "access (page_at n (cl w)) OR VM_PROT_WRITE \<noteq> 0"
    using w n by (auto simp: world_ok_def client_ok_def)
  obtain w2 where w2: "return_page n True (\<not> fl) w = Inr w2" "world_ok c ?H H ?L [(n, \<not> fl)] [] ?cnt w2"
    using return_page_ok [OF w n n, of "\<not> fl"] by (cases fl) auto
  have "serve_client ?w = Inr (send ?m 0 w2)"
    using w2 n' page i p by (simp add: serve_client_def page_bytes_simps return_if_present_def Let_def) (simp add: world_ok_def client_ok_def)
  then have "settle k ?w = settle (k - 1) (send ?m 0 w2)" using k r by (intro settle_client) simp_all
  moreover obtain w3 where "settle (1 + (k - 2)) (send ?m 0 w2) = settle (k - 2) w3"
    "world_ok c ?H ?H ?L [] [(?m, 0)] ?cnt w3"
    using settle_returned_pages [OF world_ok_send [OF w2(2)] c, of "k - 2" ?m 0] by (cases fl) auto
  moreover from this(2) obtain w4 where "serve_pager w3 = Inr w4" "settled_world c ?H ?cnt w4" "requests w3 \<noteq> []"
    using serve_lock_completed [of c ?H ?H key 0 ?cnt w3] by (auto simp: settled_world_def key_def world_ok_def)
  moreover from this have "settle (k - 2) w3 = Inr w4"
    using settle_pager [of w3 w4 "k - 2"] settle_quiet [of w4] settled_worldD(4,5) k by force
  moreover have "k - 1 = 1 + (k - 2)" using k by simp
  ultimately show ?thesis by metis
qed

lemma lock_settles:
  assumes w: "settled_world c H cnt w" and n: "n < num_pages" and c: "c \<noteq> MACH_PORT_DEAD" and k: "3 \<le> k"
  shows "\<exists>w'. andThen (call_pager (lock_object_request (page_bytes n) 4096 MEMORY_OBJECT_RETURN_ALL fl True) w) (settle k) = Inr w' \<and>
    (if n \<in> H then settled_world c (if fl then H - {n} else H) (cnt(n := cnt n + 1)) w' else settled_world c H cnt w')"
proof -
  note d = settled_worldD [OF w]
  let ?L = "if n \<in> H then [((page_bytes n, 4096), [(c, \<lparr>count = 1, internal_lock_outstanding = False\<rparr>)])] else []"
  let ?e = "Lock_request c (page_bytes n) 4096 MEMORY_OBJECT_RETURN_ALL fl VM_PROT_NO_CHANGE (port_right (pg w))"
  have r: "\<not> only_signal_WRITE_clients MEMORY_OBJECT_RETURN_ALL fl" by (simp add: only_signal_WRITE_clients_def)
  obtain s' where s': "lock_object_request (page_bytes n) 4096 MEMORY_OBJECT_RETURN_ALL fl True (pg w) = (s', n \<in> H)"
    "quiet_pager c H ?L s'" "events s' = events (pg w) @ (if n \<in> H then [?e] else [])"
    using quiet_lock_object [OF d(1) n r] by metis
  define w1 where "w1 = w\<lparr>pg := s'\<rparr>"
  have w1: "world_ok c H H ?L [] [] cnt w1" using d s'(2) by (auto simp: world_ok_def w1_def)
  have c': "memory_control (cl w) = c" using d(3) by (simp add: client_ok_def)
  show ?thesis
  proof (cases "n \<in> H")
    case False
    then have "call_pager (lock_object_request (page_bytes n) 4096 MEMORY_OBJECT_RETURN_ALL fl True) w = Inr w1"
      using s' world_update_eq [of s' w "[]"] by (simp add: call_pager_def w1_def)
    moreover have "settle k w1 = Inr w1" using d by (simp add: w1_def settle_quiet)
    ultimately show ?thesis using False w1 by (simp add: settled_world_def)
  next
    case True
    then have "call_pager (lock_object_request (page_bytes n) 4096 MEMORY_OBJECT_RETURN_ALL fl True) w = Inr (w1\<lparr>inbox := [(?e, 0)]\<rparr>)"
      using s' world_update_eq [of s' w "[?e]"] c' d(4) by (simp add: call_pager_def w1_def)
    then show ?thesis
      using lock_request_settles [OF _ True c k quiet_pagerD(2) [OF d(1)], of cnt w1 fl] w1 True by simp
  qed
qed

section \<open>A turn of the test\<close>

definition settled_model :: "mach_port_t \<Rightarrow> test_model \<Rightarrow> test_world \<Rightarrow> bool" where
  "settled_model c m w \<longleftrightarrow> settled_world c (fst m) (snd m) w"

lemma return_settles:
  assumes "settled_world c H cnt w" and "n \<in> H" and "c \<noteq> MACH_PORT_DEAD" and "1 \<le> k"
  shows "\<exists>w'. andThen (return_page n True False w) (settle k) = Inr w' \<and> settled_world c (H - {n}) (cnt(n := cnt n + 1)) w'"
proof -
  obtain w1 where "return_page n True False w = Inr w1" "world_ok c (H - {n}) H [] [(n, False)] [] (cnt(n := cnt n + 1)) w1"
    using return_page_ok [of c H H "[]" "[]" cnt w n False] assms by (auto simp: settled_world_def)
  with settle_world_ok [OF this(2) assms(3), of k] assms(4) show ?thesis by auto
qed

lemma random_step_settles:
  assumes w: "settled_model c m w" and n: "page < num_pages" and c: "c \<noteq> MACH_PORT_DEAD"
  shows "\<exists>w'. andThen (random_step (page, first, second) w) (settle fuel) = Inr w' \<and>
    settled_model c (model_step (page, first, second) m) w'"
proof -
  obtain H cnt where m: "m = (H, cnt)" by force
  have w: "settled_world c H cnt w" using w m by (simp add: settled_model_def)
  show ?thesis
  proof (cases first)
    case True
    let ?w = "w\<lparr>cl := (cl w)\<lparr>pageptrs := vec_resize fresh_page page (pageptrs (cl w))\<rparr>\<rparr>"
    have w': "settled_world c H cnt ?w" using w world_ok_resize by (simp add: settled_world_def)
    have cl: "client_ok c H cnt (cl w)" using settled_worldD [OF w] by simp
    then have wait: "wait_for_page page w = Inr ?w" by (simp add: wait_for_page_def client_ok_def)
    show ?thesis
    proof (cases "page \<in> H")
      case False
      then have "ptr (page_at page (cl w)) = None" using cl by (simp add: client_ok_def)
      with True wait request_settles [OF w' n False, of fuel] False m show ?thesis
        by (simp add: random_step_def Let_def request_read_access_def request_write_access_def settled_model_def fuel_def)
    next
      case page: True
      then have "ptr (page_at page (cl w)) \<noteq> None" "access (page_at page (cl w)) AND VM_PROT_WRITE \<noteq> 0"
        using cl by (simp_all add: client_ok_def)
      with True wait return_settles [OF w' page c, of fuel] page m show ?thesis
        by (auto simp: random_step_def Let_def settled_model_def fuel_def)
    qed
  next
    case False
    with lock_settles [OF w n c, of fuel True] lock_settles [OF w n c, of fuel False] m show ?thesis
      by (cases "page \<in> H"; cases second)
        (simp_all add: random_step_def pager_return_some_def [abs_def] pager_sync_some_def [abs_def] settled_model_def fuel_def)
  qed
qed

lemma random_steps_settle:
  assumes "settled_model c m w" and "c \<noteq> MACH_PORT_DEAD" and "list_all (\<lambda>ch. fst ch < num_pages) choices"
  shows "\<exists>w'. for_each (\<lambda>ch w. andThen (random_step ch w) (settle fuel)) choices w = Inr w' \<and>
    settled_model c (fold model_step choices m) w'"
  using assms
proof (induction choices arbitrary: m w)
  case (Cons ch choices)
  obtain page first second where ch: "ch = (page, first, second)" by (cases ch)
  obtain w1 where "andThen (random_step ch w) (settle fuel) = Inr w1" "settled_model c (model_step ch m) w1"
    using random_step_settles [OF Cons.prems(1) _ Cons.prems(2), of page first second] Cons.prems(3) ch by auto
  with Cons.IH [OF this(2)] Cons.prems show ?case by auto
qed simp

section \<open>The end of a test\<close>

text \<open>The loop of the destructor: the pages that the client still has are sent back.\<close>

definition return_held :: "nat \<Rightarrow> test_world \<Rightarrow> test_world result" where
  "return_held n w = (if ptr (page_at n (cl w)) \<noteq> None \<and> access (page_at n (cl w)) OR VM_PROT_WRITE \<noteq> 0
     then return_page n True False w else Inr w)"

lemma return_held_pages:
  assumes "world_ok c C H [] ns [] cnt w" and "distinct ps" and "set ps \<inter> fst ` set ns = {}" and "C \<subseteq> H"
  shows "\<exists>w'. for_each return_held ps w = Inr w' \<and>
    world_ok c (C - set ps) H [] (ns @ map (\<lambda>n. (n, False)) (filter (\<lambda>n. n \<in> C) ps)) []
      (\<lambda>n. if n \<in> C \<inter> set ps then cnt n + 1 else cnt n) w'"
  using assms
proof (induction ps arbitrary: C ns cnt w)
  case (Cons p ps)
  have cl: "client_ok c C cnt (cl w)" using Cons.prems(1) by (simp add: world_ok_def)
  show ?case
  proof (cases "p \<in> C")
    case True
    obtain w1 where w1: "return_page p True False w = Inr w1"
      "world_ok c (C - {p}) H [] (ns @ [(p, False)]) [] (cnt(p := cnt p + 1)) w1"
      using return_page_ok [OF Cons.prems(1) True, of False] Cons.prems True by auto
    have held: "return_held p w = Inr w1" using True cl w1(1) by (simp add: return_held_def client_ok_def)
    have eqs: "filter (\<lambda>n. n \<in> C - {p}) ps = filter (\<lambda>n. n \<in> C) ps" "C - {p} - set ps = C - set (p # ps)"
      "(\<lambda>n. if n \<in> (C - {p}) \<inter> set ps then (cnt(p := cnt p + 1)) n + 1 else (cnt(p := cnt p + 1)) n) =
        (\<lambda>n. if n \<in> C \<inter> set (p # ps) then cnt n + 1 else cnt n)"
      using True Cons.prems(2) by (auto simp: fun_eq_iff intro: filter_cong)
    have "set ps \<inter> fst ` set (ns @ [(p, False)]) = {}" using Cons.prems(2,3) by auto
    from Cons.IH [OF w1(2) _ this] Cons.prems(2,4) obtain w2 where "for_each return_held ps w1 = Inr w2"
      "world_ok c (C - set (p # ps)) H [] ((ns @ [(p, False)]) @ map (\<lambda>n. (n, False)) (filter (\<lambda>n. n \<in> C) ps)) []
        (\<lambda>n. if n \<in> C \<inter> set (p # ps) then cnt n + 1 else cnt n) w2"
      unfolding eqs by auto
    then show ?thesis using held True by simp
  next
    case False
    then have "return_held p w = Inr w" using cl by (simp add: return_held_def client_ok_def)
    moreover have "C - set (p # ps) = C - set ps" "C \<inter> set (p # ps) = C \<inter> set ps" using False by auto
    ultimately show ?thesis using Cons.IH [OF Cons.prems(1)] Cons.prems False by simp
  qed
qed simp

lemma destroy_client_eq:
  "destroy_client w = andThen (for_each return_held [0 ..< length (pageptrs (cl w))] w)
     (\<lambda>w. Inr (send (Dead_name_notification (memory_control (cl w))) 0 w))"
  by (simp add: destroy_client_def return_held_def [abs_def])

text \<open>No page is left, with or without its client.\<close>

definition idle_world :: "(nat \<Rightarrow> int) \<Rightarrow> test_world \<Rightarrow> bool" where
  "idle_world cnt w \<longleftrightarrow> (\<exists>c. quiet_pager c {} [] (pg w)) \<and> inbox w = [] \<and> requests w = [] \<and> buffer_write_count w = cnt \<and> backing w = cnt"

lemma new_client_settled:
  assumes "idle_world cnt w"
  shows "\<exists>w'. new_client c nm w = Inr w' \<and> settled_world c {} cnt w'"
proof -
  obtain c' where q: "quiet_pager c' {} [] (pg w)" using assms by (auto simp: idle_world_def)
  obtain s' es where "object_init c nm 4096 (pg w) = Inr s'" "quiet_pager c {} [] s'"
    "events s' = events (pg w) @ es" "list_all inner_event es" "list_ex (is_ready c) es"
    using quiet_init [OF q] by metis
  then show ?thesis using assms
    by (auto simp: new_client_def serve_pager_def send_def idle_world_def world_update_eq for_each_inner
      client_ok_def page_at_def vec_get_def fresh_page_def intro!: settled_worldI)
qed

lemma held_page_exists: "client_ok c H cnt kern \<Longrightarrow> n \<in> H \<Longrightarrow> n < length (pageptrs kern)"
  by (rule ccontr) (auto simp: client_ok_def page_at_def vec_get_def fresh_page_def)

lemma none_outstanding: "client_ok c H cnt kern \<Longrightarrow> p \<in> set (pageptrs kern) \<Longrightarrow> \<not> request_outstanding p"
  unfolding client_ok_def page_at_def vec_get_def by (metis in_set_conv_nth)

lemma serve_dead_name:
  assumes "world_ok c {} {} [] [] [(Dead_name_notification c, v)] cnt w"
  shows "\<exists>w'. serve_pager w = Inr w' \<and> idle_world cnt w'"
proof -
  have "quiet_pager c {} [] (pg w)" using assms by (simp add: world_ok_def)
  then obtain s' es where "dead_name test_fs c (pg w) = Inr s'" "quiet_pager c {} [] s'"
    "events s' = events (pg w) @ es" "list_all inner_event es"
    using quiet_dead_name by metis
  with assms show ?thesis
    by (auto simp: serve_pager_def world_ok_def idle_world_def world_update_eq for_each_inner fun_eq_iff)
qed

lemma destroy_client_settles:
  assumes w: "settled_world c H cnt w" and c: "c \<noteq> MACH_PORT_DEAD"
  shows "\<exists>w'. andThen (destroy_client w) (settle fuel) = Inr w' \<and> idle_world (model_end (H, cnt)) w'"
proof -
  let ?ps = "[0 ..< length (pageptrs (cl w))]" let ?ns = "map (\<lambda>n. (n, False)) (filter (\<lambda>n. n \<in> H) ?ps)"
  let ?m = "Dead_name_notification c" let ?cnt = "model_end (H, cnt)"
  have H: "H \<subseteq> set ?ps" using held_page_exists settled_worldD(3) [OF w] by auto
  obtain w1 where w1: "for_each return_held ?ps w = Inr w1"
    "world_ok c (H - set ?ps) H [] ?ns [] (\<lambda>n. if n \<in> H \<inter> set ?ps then cnt n + 1 else cnt n) w1"
    using return_held_pages [of c H H "[]" cnt w ?ps] w by (auto simp: settled_world_def)
  have eqs: "H - set ?ps = {}" "H \<inter> set ?ps = H" using H by auto
  have w1': "world_ok c {} H [] ?ns [] ?cnt w1" using w1(2) unfolding eqs by (simp add: model_end_def)
  then have d: "andThen (destroy_client w) (settle fuel) = settle fuel (send ?m 0 w1)"
    using w1(1) by (simp add: destroy_client_eq world_ok_def client_ok_def)
  have "set (filter (\<lambda>n. n \<in> H) ?ps) = H" using H by auto
  then have "length ?ns = card H" using distinct_card [of "filter (\<lambda>n. n \<in> H) ?ps"] by simp
  also have "\<dots> \<le> 20"
    using card_mono [OF _ settled_worldD(2) [OF w]] by (simp add: num_pages_def)
  finally have len: "length ?ns \<le> 20" .
  obtain w2 where w2: "settle (length ?ns + (fuel - length ?ns)) (send ?m 0 w1) = settle (fuel - length ?ns) w2"
    "world_ok c {} (H - set (map fst (filter (\<lambda>x. \<not> snd x) ?ns))) [] [] [(?m, 0)] ?cnt w2"
    using settle_returned_pages [OF world_ok_send [OF w1'] c, of "fuel - length ?ns" ?m 0] by auto
  have none: "H - set (map fst (filter (\<lambda>x. \<not> snd x) ?ns)) = {}" using H by (auto simp: comp_def)
  obtain w3 where w3: "serve_pager w2 = Inr w3" "idle_world ?cnt w3" "requests w2 \<noteq> []"
    using serve_dead_name [OF w2(2) [unfolded none]] w2(2) by (auto simp: world_ok_def)
  then have "settle (fuel - length ?ns) w2 = Inr w3"
    using settle_pager [of w2 w3 "fuel - length ?ns"] settle_quiet [of w3] len by (simp add: idle_world_def fuel_def)
  with d w2(1) w3(2) len show ?thesis by (auto simp: fuel_def)
qed

lemma random_test_model:
  assumes w: "idle_world cnt w" and c: "c \<noteq> MACH_PORT_DEAD" and p: "list_all (\<lambda>ch. fst ch < num_pages) choices"
  shows "\<exists>w'. random_test c choices w = Inr w' \<and> idle_world (model_test choices cnt) w'"
proof -
  obtain w1 where w1: "new_client c (c + 1) w = Inr w1" "settled_model c ({}, cnt) w1"
    using new_client_settled [OF w] by (auto simp: settled_model_def)
  obtain w2 where w2: "for_each (\<lambda>ch w. andThen (random_step ch w) (settle fuel)) choices w1 = Inr w2"
    "settled_model c (fold model_step choices ({}, cnt)) w2"
    using random_steps_settle [OF w1(2) c p] by auto
  have "wait_for_all_pages w2 = Inr w2"
    using none_outstanding settled_worldD(3) [OF w2(2) [unfolded settled_model_def]]
    by (auto simp: wait_for_all_pages_def list_ex_iff)
  with w1 w2 destroy_client_settles [OF w2(2) [unfolded settled_model_def] c] show ?thesis
    by (auto simp: random_test_def model_test_def)
qed

section \<open>The tests pass\<close>

lemma initial_world_idle: "idle_world (\<lambda>_. 0) initial_world"
  by (simp add: idle_world_def initial_world_def quiet_pager_def new_pager_def page_read_def vec_get_def held_entry_def empty_page_def)

definition random_tests :: "(mach_port_t \<times> choice list) list \<Rightarrow> test_world \<Rightarrow> test_world result" where
  "random_tests = for_each (\<lambda>(control, choices). random_test control choices)"



end
