(* ===== verification/Test_Scripts.thy ===== *)
theory Test_Scripts
  imports Test_Runs "HOL-Library.Code_Target_Numeral"
begin

text \<open>
  The scripted tests of the test program, \<^verbatim>\<open>test_bug1_asynchronous\<close> and \<^verbatim>\<open>test_bug3_asynchronous\<close>. A script
  is the list of what the test thread does and waits for. The pager's worker and the thread that
  serves the mock kernel's messages run whenever the test thread waits and, depending on the
  schedule, after each of its actions or not.
\<close>

section \<open>Scripts\<close>

datatype test_op = Do "test_world \<Rightarrow> test_world result" | Wait "test_world \<Rightarrow> bool"

text \<open>The waits of the test thread, and that of \<^verbatim>\<open>pager::lock_object\<close> for the confirmation of its lock.\<close>

definition all_pages_here :: "test_world \<Rightarrow> bool" where
  "all_pages_here w = list_all (\<lambda>p. \<not> request_outstanding p) (pageptrs (cl w))"

definition page_absent :: "nat \<Rightarrow> test_world \<Rightarrow> bool" where
  "page_absent n w \<longleftrightarrow> ptr (page_at n (cl w)) = None"

definition lock_confirmed :: "lock_range \<Rightarrow> test_world \<Rightarrow> bool" where
  "lock_confirmed k w \<longleftrightarrow> omap_get k (outstanding_locks (pg w)) = None"

definition destructor :: "test_op list" where
  "destructor = [Wait all_pages_here, Do destroy_client]"

definition test_bug1_asynchronous :: "mach_port_t \<Rightarrow> test_op list" where
  "test_bug1_asynchronous control =
     [Do (new_client control (control + 1)),
      Do (request_write_access 0),
      Wait all_pages_here,
      Do (call_pager (pager_sync test_fs False)),
      Do (call_pager (pager_sync test_fs False)),
      Do (call_pager (pager_sync test_fs True)), Wait (lock_confirmed (0, BUFFER_SIZE))] @ destructor"

definition test_bug3_asynchronous :: "mach_port_t \<Rightarrow> test_op list" where
  "test_bug3_asynchronous control =
     [Do (new_client control (control + 1)),
      Do (request_write_access 0),
      Do (request_write_access 1),
      Wait all_pages_here,
      Do (call_pager (pager_sync_some 0 4096 False)),
      Do (call_pager (pager_return test_fs False)),
      Wait (page_absent 1),
      Do (request_write_access 1)] @ destructor"

section \<open>Running a script\<close>

text \<open>The threads of the test program in any order.\<close>

inductive test_step :: "test_op list \<times> test_world \<Rightarrow> test_op list \<times> test_world \<Rightarrow> bool" where
  act: "f w = Inr w' \<Longrightarrow> test_step (Do f # ops, w) (ops, w')"
| wait: "P w \<Longrightarrow> test_step (Wait P # ops, w) (ops, w)"
| threads: "world_step w w' \<Longrightarrow> test_step (ops, w) (ops, w')"

text \<open>
  Two schedules: the other threads handle all messages after each action of the test thread, or only
  when it waits and at the end. A wait for something that does not hold then never ends.
\<close>

datatype schedule = Eager | Lazy

definition others_run :: "schedule \<Rightarrow> test_world \<Rightarrow> test_world result" where
  "others_run sch w = (case sch of Eager \<Rightarrow> settle fuel w | Lazy \<Rightarrow> Inr w)"

fun run_script :: "schedule \<Rightarrow> test_op list \<Rightarrow> test_world \<Rightarrow> test_world result" where
  "run_script sch [] w = settle fuel w"
| "run_script sch (Do f # ops) w = andThen (f w) (\<lambda>w. andThen (others_run sch w) (run_script sch ops))"
| "run_script sch (Wait P # ops) w =
     andThen (settle fuel w) (\<lambda>w. if P w then run_script sch ops w else Inl (Process_exit ''waits forever''))"

lemma settle_test_steps: "settle n w = Inr w' \<Longrightarrow> test_step\<^sup>*\<^sup>* (ops, w) (ops, w')"
proof -
  assume "settle n w = Inr w'"
  from settle_world_steps [OF this] show ?thesis
    by (induction rule: rtranclp_induct) (auto intro: rtranclp.rtrancl_into_rtrancl test_step.threads)
qed

text \<open>Both schedules are runs of the threads.\<close>

lemma run_script_steps: "run_script sch ops w = Inr w' \<Longrightarrow> test_step\<^sup>*\<^sup>* (ops, w) ([], w')"
proof (induction sch ops w rule: run_script.induct)
  case (1 sch w)
  then show ?case by (simp add: settle_test_steps)
next
  case (2 sch f ops w)
  obtain w1 w2 where w: "f w = Inr w1" "others_run sch w1 = Inr w2" "run_script sch ops w2 = Inr w'"
    using 2(2) by (auto simp: andThen_Inr_iff)
  have "test_step\<^sup>*\<^sup>* (ops, w1) (ops, w2)" using w(2) settle_test_steps by (auto simp: others_run_def split: schedule.splits)
  moreover have "test_step\<^sup>*\<^sup>* (ops, w2) ([], w')" using 2(1) w by blast
  ultimately show ?case using test_step.act [of f w w1 ops, OF w(1)] by (meson converse_rtranclp_into_rtranclp rtranclp_trans)
next
  case (3 sch P ops w)
  obtain w1 where w: "settle fuel w = Inr w1" "P w1" "run_script sch ops w1 = Inr w'"
    using 3(2) by (auto simp: andThen_Inr_iff split: if_splits)
  have "test_step\<^sup>*\<^sup>* (Wait P # ops, w) (Wait P # ops, w1)" using w(1) by (rule settle_test_steps)
  moreover have "test_step\<^sup>*\<^sup>* (ops, w1) ([], w')" using 3(1) w by blast
  ultimately show ?case using test_step.wait [of P w1 ops, OF w(2)] by (meson converse_rtranclp_into_rtranclp rtranclp_trans)
qed

section \<open>The scripts pass\<close>

text \<open>Nothing is left to do, no client has a page, the pager has written everything.\<close>

definition at_end :: "test_world \<Rightarrow> bool" where
  "at_end w \<longleftrightarrow> requests w = [] \<and> inbox w = [] \<and> WRITEWAIT (pg w) = [] \<and> outstanding_locks (pg w) = [] \<and>
     clients (pg w) = [] \<and> list_all (\<lambda>d. d = empty_page) (pagemap (pg w))"

text \<open>What the test compares: the file and the number of times each page was returned to the pager.\<close>

definition outcome :: "test_world \<Rightarrow> bool \<times> (nat \<Rightarrow> int) \<times> (nat \<Rightarrow> int)" where
  "outcome w = (at_end w, backing w, buffer_write_count w)"

definition bug1_counts :: "nat \<Rightarrow> int" where "bug1_counts = (\<lambda>_. 0)(0 := 4)"
definition bug3_counts :: "nat \<Rightarrow> int" where "bug3_counts = (\<lambda>_. 0)(0 := 2, 1 := 2)"

text \<open>The outcomes are functions, which cannot be compared by evaluation: it is left to \<open>Q\<close>.\<close>

lemma bug1_eager:
  "Q (Inr (True, bug1_counts, bug1_counts)) \<Longrightarrow> Q (map_sum id outcome (run_script Eager (test_bug1_asynchronous 100) initial_world))"
proof -
  assume q: "Q (Inr (True, bug1_counts, bug1_counts))"
  show ?thesis by (code_simp, rule back_subst [of Q, OF q], simp add: fun_eq_iff bug1_counts_def)
qed

lemma bug1_lazy:
  "Q (Inr (True, bug1_counts, bug1_counts)) \<Longrightarrow> Q (map_sum id outcome (run_script Lazy (test_bug1_asynchronous 100) initial_world))"
proof -
  assume q: "Q (Inr (True, bug1_counts, bug1_counts))"
  show ?thesis by (code_simp, rule back_subst [of Q, OF q], simp add: fun_eq_iff bug1_counts_def)
qed

lemma bug3_eager:
  "Q (Inr (True, bug3_counts, bug3_counts)) \<Longrightarrow> Q (map_sum id outcome (run_script Eager (test_bug3_asynchronous 100) initial_world))"
proof -
  assume q: "Q (Inr (True, bug3_counts, bug3_counts))"
  show ?thesis by (code_simp, rule back_subst [of Q, OF q], simp add: fun_eq_iff bug3_counts_def)
qed

lemma bug3_lazy:
  "Q (Inr (True, bug3_counts, bug3_counts)) \<Longrightarrow> Q (map_sum id outcome (run_script Lazy (test_bug3_asynchronous 100) initial_world))"
proof -
  assume q: "Q (Inr (True, bug3_counts, bug3_counts))"
  show ?thesis by (code_simp, rule back_subst [of Q, OF q], simp add: fun_eq_iff bug3_counts_def)
qed

lemma outcome_cases:
  "map_sum id outcome r = Inr (True, f, g) \<Longrightarrow> \<exists>w. r = Inr w \<and> at_end w \<and> backing w = f \<and> buffer_write_count w = g"
  by (cases r) (auto simp: outcome_def)

lemma script_outcomes:
  "map_sum id outcome (run_script sch (test_bug1_asynchronous 100) initial_world) = Inr (True, bug1_counts, bug1_counts)"
  "map_sum id outcome (run_script sch (test_bug3_asynchronous 100) initial_world) = Inr (True, bug3_counts, bug3_counts)"
  using bug1_eager [where Q = "\<lambda>r. r = Inr (True, bug1_counts, bug1_counts)"]
    bug1_lazy [where Q = "\<lambda>r. r = Inr (True, bug1_counts, bug1_counts)"]
    bug3_eager [where Q = "\<lambda>r. r = Inr (True, bug3_counts, bug3_counts)"]
    bug3_lazy [where Q = "\<lambda>r. r = Inr (True, bug3_counts, bug3_counts)"]
  by (cases sch; simp)+


end
