(* ===== verification/Grab_Objects.thy ===== *)
theory Grab_Objects
  imports Pager_Protocol "HOL-Library.Multiset"
begin

text \<open>
  The program \<^verbatim>\<open>netmsg/grab-memory-objects.cc\<close> and what becomes of its plan against this pager. It opens
  files, becomes a client of their memory objects and keeps them, so that a pager for a single client
  would serve nobody else. Here the objects are behind pagers of \<open>Pager_Clients\<close>: the program gets
  every object it asks for, and nobody else notices.

  The calls of the system are parameters: \<open>lookup\<close> is \<^verbatim>\<open>file_name_lookup\<close> (for reading and writing or for
  reading only), \<open>io_map\<close> the objects of a node, \<open>alloc n\<close> the name of the \<open>n\<close>-th port that is allocated.
\<close>

section \<open>The program\<close>

record grab =
  ports :: nat
  read_controls :: "(mach_port_t \<times> string) list"
  write_controls :: "(mach_port_t \<times> string) list"
  inits :: "(mach_port_t \<times> mach_port_t) list"

text \<open>The node, opened for reading when it cannot be opened for writing.\<close>

definition open_node :: "(bool \<Rightarrow> string \<Rightarrow> mach_port_t) \<Rightarrow> string \<Rightarrow> mach_port_t" where
  "open_node lookup filename =
     (let node = lookup True filename in if node = MACH_PORT_NULL then lookup False filename else node)"

text \<open>A control port for the object, \<^verbatim>\<open>memory_object_init\<close>, and the note whose control port it is.\<close>

definition grab_read :: "(nat \<Rightarrow> mach_port_t) \<Rightarrow> string \<Rightarrow> mach_port_t \<Rightarrow> grab \<Rightarrow> grab" where
  "grab_read alloc filename rdobj g =
     (if rdobj = MACH_PORT_NULL then g
      else let control = alloc (ports g)
        in g\<lparr>ports := ports g + 1, inits := inits g @ [(rdobj, control)],
             read_controls := omap_put control filename (read_controls g)\<rparr>)"

definition grab_write :: "(nat \<Rightarrow> mach_port_t) \<Rightarrow> string \<Rightarrow> mach_port_t \<Rightarrow> grab \<Rightarrow> grab" where
  "grab_write alloc filename wrobj g =
     (if wrobj = MACH_PORT_NULL then g
      else let control = alloc (ports g)
        in g\<lparr>ports := ports g + 1, inits := inits g @ [(wrobj, control)],
             write_controls := omap_put control filename (write_controls g)\<rparr>)"

definition grab_file :: "(bool \<Rightarrow> string \<Rightarrow> mach_port_t) \<Rightarrow> (mach_port_t \<Rightarrow> mach_port_t \<times> mach_port_t) \<Rightarrow>
    (nat \<Rightarrow> mach_port_t) \<Rightarrow> string \<Rightarrow> grab \<Rightarrow> grab" where
  "grab_file lookup io_map alloc filename g =
     (let node = open_node lookup filename
      in if node = MACH_PORT_NULL then g
         else let (rdobj, wrobj) = io_map node in grab_write alloc filename wrobj (grab_read alloc filename rdobj g))"

text \<open>The port set and the name port are the first two ports.\<close>

definition grab_files :: "(bool \<Rightarrow> string \<Rightarrow> mach_port_t) \<Rightarrow> (mach_port_t \<Rightarrow> mach_port_t \<times> mach_port_t) \<Rightarrow>
    (nat \<Rightarrow> mach_port_t) \<Rightarrow> string list \<Rightarrow> grab" where
  "grab_files lookup io_map alloc filenames =
     fold (grab_file lookup io_map alloc) filenames \<lparr>ports = 2, read_controls = [], write_controls = [], inits = []\<rparr>"

text \<open>The loop that collects the answers, with what \<^verbatim>\<open>mach_msg\<close> returns each time.\<close>

datatype received = Message int mach_port_t | Timed_out | Receive_error

datatype complaint = Unexpected_port mach_port_t | Unexpected_id int | Mach_msg_error

record collected =
  read_locks :: "string list"
  write_locks :: "string list"
  complaints :: "complaint list"

definition collect_ready :: "grab \<Rightarrow> mach_port_t \<Rightarrow> collected \<Rightarrow> collected" where
  "collect_ready g local_port c =
     (case omap_get local_port (read_controls g) of Some f \<Rightarrow> c\<lparr>read_locks := read_locks c @ [f]\<rparr>
      | None \<Rightarrow> (case omap_get local_port (write_controls g) of Some f \<Rightarrow> c\<lparr>write_locks := write_locks c @ [f]\<rparr>
         | None \<Rightarrow> c\<lparr>complaints := complaints c @ [Unexpected_port local_port]\<rparr>))"

fun collect :: "grab \<Rightarrow> received list \<Rightarrow> collected \<Rightarrow> collected option" where
  "collect g [] c = None"
| "collect g (Message msgh_id local_port # ms) c =
     collect g ms (if msgh_id = 2094 then collect_ready g local_port c
       else c\<lparr>complaints := complaints c @ [Unexpected_id msgh_id]\<rparr>)"
| "collect g (Timed_out # ms) c = Some c"
| "collect g (Receive_error # ms) c = collect g ms (c\<lparr>complaints := complaints c @ [Mach_msg_error]\<rparr>)"

text \<open>What is reported, and whether the program holds the objects until it is interrupted.\<close>

definition grab_report :: "collected \<Rightarrow> (string \<times> string list) list \<times> bool" where
  "grab_report c =
     ((if read_locks c \<noteq> [] then [(''Read objects obtained: '', read_locks c)] else []) @
      (if write_locks c \<noteq> [] then [(''Write objects obtained: '', write_locks c)] else []) @
      (if read_locks c \<noteq> [] \<or> write_locks c \<noteq> [] then [(''Holding memory objects and waiting for CNTL-C'', [])]
       else [(''No memory objects obtained (sorry)'', [])]),
      read_locks c \<noteq> [] \<or> write_locks c \<noteq> [])"

definition grab_main :: "(bool \<Rightarrow> string \<Rightarrow> mach_port_t) \<Rightarrow> (mach_port_t \<Rightarrow> mach_port_t \<times> mach_port_t) \<Rightarrow>
    (nat \<Rightarrow> mach_port_t) \<Rightarrow> received list \<Rightarrow> string list \<Rightarrow> collected option result" where
  "grab_main lookup io_map alloc answers filenames =
     (if filenames = [] then Inl (Process_exit ''Usage'')
      else Inr (collect (grab_files lookup io_map alloc filenames) answers
        \<lparr>read_locks = [], write_locks = [], complaints = []\<rparr>))"

section \<open>The objects it gets\<close>

definition objects_of :: "(bool \<Rightarrow> string \<Rightarrow> mach_port_t) \<Rightarrow> (mach_port_t \<Rightarrow> mach_port_t \<times> mach_port_t) \<Rightarrow>
    string \<Rightarrow> mach_port_t \<times> mach_port_t" where
  "objects_of lookup io_map filename =
     (let node = open_node lookup filename
      in if node = MACH_PORT_NULL then (MACH_PORT_NULL, MACH_PORT_NULL) else io_map node)"

text \<open>\<open>R\<close> and \<open>W\<close> are the control ports of the read and the write objects with their files.\<close>

definition grab_ok :: "(nat \<Rightarrow> mach_port_t) \<Rightarrow> (mach_port_t \<times> string) list \<Rightarrow> (mach_port_t \<times> string) list \<Rightarrow> grab \<Rightarrow> bool" where
  "grab_ok alloc R W g \<longleftrightarrow> (\<forall>p. omap_get p (read_controls g) = map_of R p) \<and> (\<forall>p. omap_get p (write_controls g) = map_of W p) \<and>
     distinct (map fst (R @ W)) \<and> set (map fst (R @ W)) \<subseteq> alloc ` {..<ports g} \<and>
     mset (map snd (inits g)) = mset (map fst (R @ W))"

lemma fresh_port: "inj_on alloc {..n :: nat} \<Longrightarrow> X \<subseteq> alloc ` {..<n} \<Longrightarrow> alloc n \<notin> (X :: mach_port_t set)"
proof
  assume "inj_on alloc {..n}" "X \<subseteq> alloc ` {..<n}" "alloc n \<in> X"
  then obtain k where "k < n" "alloc n = alloc k" by blast
  with \<open>inj_on alloc {..n}\<close> show False by (auto dest: inj_onD)
qed

lemma grab_read_ok:
  assumes "grab_ok alloc R W g" and "inj_on alloc {..ports g}"
  shows "grab_ok alloc (if obj = MACH_PORT_NULL then R else (alloc (ports g), f) # R) W (grab_read alloc f obj g)"
  using assms fresh_port [OF assms(2), of "set (map fst (R @ W))"]
  by (auto simp: grab_ok_def grab_read_def Let_def omap_get_put lessThan_Suc)

lemma grab_write_ok:
  assumes "grab_ok alloc R W g" and "inj_on alloc {..ports g}"
  shows "grab_ok alloc R (if obj = MACH_PORT_NULL then W else (alloc (ports g), f) # W) (grab_write alloc f obj g)"
  using assms fresh_port [OF assms(2), of "set (map fst (R @ W))"]
  by (auto simp: grab_ok_def grab_write_def Let_def omap_get_put lessThan_Suc)

lemma grab_ports: "ports (grab_read alloc f obj g) \<le> ports g + 1" "ports (grab_write alloc f obj g) \<le> ports g + 1"
  by (simp_all add: grab_read_def grab_write_def Let_def)

definition readable :: "(bool \<Rightarrow> string \<Rightarrow> mach_port_t) \<Rightarrow> (mach_port_t \<Rightarrow> mach_port_t \<times> mach_port_t) \<Rightarrow> string \<Rightarrow> bool" where
  "readable lookup io_map f \<longleftrightarrow> fst (objects_of lookup io_map f) \<noteq> MACH_PORT_NULL"

definition writable :: "(bool \<Rightarrow> string \<Rightarrow> mach_port_t) \<Rightarrow> (mach_port_t \<Rightarrow> mach_port_t \<times> mach_port_t) \<Rightarrow> string \<Rightarrow> bool" where
  "writable lookup io_map f \<longleftrightarrow> snd (objects_of lookup io_map f) \<noteq> MACH_PORT_NULL"

text \<open>The state of the program and the files of the objects it has asked for so far.\<close>

definition grabbed :: "(nat \<Rightarrow> mach_port_t) \<Rightarrow> string multiset \<Rightarrow> string multiset \<Rightarrow> grab \<Rightarrow> bool" where
  "grabbed alloc rs ws g \<longleftrightarrow> (\<exists>R W. grab_ok alloc R W g \<and> mset (map snd R) = rs \<and> mset (map snd W) = ws)"

lemma grabbedI: "grab_ok alloc R W g \<Longrightarrow> mset (map snd R) = rs \<Longrightarrow> mset (map snd W) = ws \<Longrightarrow> grabbed alloc rs ws g"
  by (auto simp: grabbed_def)

lemma grab_file_objects:
  "grab_file lookup io_map alloc f g =
     grab_write alloc f (snd (objects_of lookup io_map f)) (grab_read alloc f (fst (objects_of lookup io_map f)) g)"
  by (simp add: grab_file_def objects_of_def grab_write_def grab_read_def Let_def split: prod.split)

lemma grab_file_ok:
  assumes "grabbed alloc rs ws g" and "inj_on alloc {..<ports g + 2}"
  shows "grabbed alloc (rs + mset (filter (readable lookup io_map) [f])) (ws + mset (filter (writable lookup io_map) [f]))
      (grab_file lookup io_map alloc f g) \<and> ports (grab_file lookup io_map alloc f g) \<le> ports g + 2"
proof -
  obtain R W where g: "grab_ok alloc R W g" "mset (map snd R) = rs" "mset (map snd W) = ws"
    using assms(1) by (auto simp: grabbed_def)
  let ?r = "fst (objects_of lookup io_map f)" let ?w = "snd (objects_of lookup io_map f)" let ?g = "grab_read alloc f ?r g"
  have inj: "inj_on alloc {..ports g}" "inj_on alloc {..ports ?g}"
    using grab_ports(1) [of alloc f ?r g] by (auto intro: inj_on_subset [OF assms(2)])
  have "grab_ok alloc (if ?r = MACH_PORT_NULL then R else (alloc (ports g), f) # R)
      (if ?w = MACH_PORT_NULL then W else (alloc (ports ?g), f) # W) (grab_write alloc f ?w ?g)"
    by (rule grab_write_ok [OF grab_read_ok [OF g(1) inj(1)] inj(2)])
  then have "grabbed alloc (rs + mset (filter (readable lookup io_map) [f])) (ws + mset (filter (writable lookup io_map) [f]))
      (grab_write alloc f ?w ?g)"
    by (rule grabbedI) (simp_all add: readable_def writable_def flip: g(2,3))
  then show ?thesis
    unfolding grab_file_objects using grab_ports(1) [of alloc f ?r g] grab_ports(2) [of alloc f ?w ?g] by simp
qed

lemma grab_files_ok:
  assumes "inj_on alloc {..<2 + 2 * length filenames}"
  shows "grabbed alloc (mset (filter (readable lookup io_map) filenames)) (mset (filter (writable lookup io_map) filenames))
    (grab_files lookup io_map alloc filenames)"
proof -
  have "grabbed alloc (rs + mset (filter (readable lookup io_map) filenames)) (ws + mset (filter (writable lookup io_map) filenames))
      (fold (grab_file lookup io_map alloc) filenames g)"
    if "grabbed alloc rs ws g" "inj_on alloc {..<ports g + 2 * length filenames}" for rs ws g
    using that
  proof (induction filenames arbitrary: rs ws g)
    case (Cons f fs)
    let ?g = "grab_file lookup io_map alloc f g"
    have inj: "inj_on alloc {..<ports g + 2}" using Cons.prems(2) by (rule inj_on_subset) auto
    note f = grab_file_ok [OF Cons.prems(1) this, of lookup io_map f]
    have "inj_on alloc {..<ports ?g + 2 * length fs}" using Cons.prems(2) by (rule inj_on_subset) (use f in auto)
    from Cons.IH [OF conjunct1 [OF f] this] show ?case by (simp add: ac_simps split: if_splits)
  qed auto
  from this [of "{#}" "{#}" "\<lparr>ports = 2, read_controls = [], write_controls = [], inits = []\<rparr>"] assms show ?thesis
    by (simp add: grabbed_def grab_ok_def grab_files_def omap_get_def)
qed

section \<open>The answers\<close>

lemma collect_all:
  assumes g: "grab_ok alloc R W g" and "set ps \<subseteq> set (map fst (R @ W))"
  shows "collect g (map (Message 2094) ps @ [Timed_out]) c =
    Some (c\<lparr>read_locks := read_locks c @ map (the \<circ> map_of R) (filter (\<lambda>p. p \<in> fst ` set R) ps),
      write_locks := write_locks c @ map (the \<circ> map_of W) (filter (\<lambda>p. p \<in> fst ` set W) ps)\<rparr>)"
  using assms(2)
proof (induction ps arbitrary: c)
  case (Cons p ps)
  have disj: "p \<in> fst ` set R \<Longrightarrow> p \<notin> fst ` set W" using g by (auto simp: grab_ok_def)
  have rd: "omap_get q (read_controls g) = map_of R q" and wr: "omap_get q (write_controls g) = map_of W q" for q
    using g by (simp_all add: grab_ok_def)
  have keys: "\<exists>f. map_of X p = Some f" if "p \<in> fst ` set X" for X :: "(mach_port_t \<times> string) list"
    using that by (metis map_of_eq_None_iff not_None_eq)
  show ?case
  proof (cases "p \<in> fst ` set R")
    case True
    then obtain f where "map_of R p = Some f" using keys by blast
    with True disj Cons show ?thesis by (simp add: collect_ready_def rd)
  next
    case False
    then have W: "p \<in> fst ` set W" using Cons.prems by auto
    then obtain f where "map_of W p = Some f" using keys by blast
    moreover have "map_of R p = None" using False by (simp add: map_of_eq_None_iff)
    ultimately show ?thesis using W False Cons by (simp add: collect_ready_def rd wr)
  qed
qed simp

lemma files_of_ports:
  "distinct (map fst R) \<Longrightarrow> distinct ps \<Longrightarrow> fst ` set R \<subseteq> set ps \<Longrightarrow>
    mset (map (the \<circ> map_of R) (filter (\<lambda>p. p \<in> fst ` set R) ps)) = mset (map snd R)"
proof -
  assume a: "distinct (map fst R)" "distinct ps" "fst ` set R \<subseteq> set ps"
  have "mset (filter (\<lambda>p. p \<in> fst ` set R) ps) = mset (map fst R)"
    using a by (intro set_eq_iff_mset_eq_distinct [THEN iffD1]) auto
  then have "mset (map (the \<circ> map_of R) (filter (\<lambda>p. p \<in> fst ` set R) ps)) = image_mset (the \<circ> map_of R) (mset (map fst R))"
    by (simp only: mset_map)
  also have "\<dots> = mset (map ((the \<circ> map_of R) \<circ> fst) R)" by (simp add: multiset.map_comp)
  also have "map ((the \<circ> map_of R) \<circ> fst) R = map snd R" using a(1) by (auto simp: map_of_is_SomeI)
  finally show ?thesis .
qed

section \<open>The pagers behind the objects\<close>

text \<open>The messages of a pager that the program waits for.\<close>

definition ready_messages :: "event list \<Rightarrow> received list" where
  "ready_messages es = concat (map (\<lambda>e. case e of Object_ready c _ _ \<Rightarrow> [Message 2094 c] | _ \<Rightarrow> []) es)"

definition open_object :: "mach_port_t \<Rightarrow> mach_port_t \<times> mach_port_t \<Rightarrow>
    (mach_port_t \<Rightarrow> pager) \<times> received list \<Rightarrow> ((mach_port_t \<Rightarrow> pager) \<times> received list) result" where
  "open_object objname = (\<lambda>(obj, control) (ps, answers).
     andThen (object_init control objname 4096 (ps obj)) (\<lambda>s.
       Inr (ps(obj := s), answers @ ready_messages (drop (length (events (ps obj))) (events s)))))"

text \<open>A pager in use whose clients and history are all that changed.\<close>

definition only_more_clients :: "pager \<Rightarrow> pager \<Rightarrow> bool" where
  "only_more_clients s s' \<longleftrightarrow> (\<exists>cs es. s' = s\<lparr>clients := cs, events := es\<rparr> \<and> set (clients s) \<subseteq> set cs)"

lemma only_more_clients_trans: "only_more_clients s s' \<Longrightarrow> only_more_clients s' s'' \<Longrightarrow> only_more_clients s s''"
  by (force simp: only_more_clients_def)

lemma only_more_clients_refl: "only_more_clients s s"
  by (auto simp: only_more_clients_def intro!: exI [of _ "clients s"] exI [of _ "events s"])

lemma object_init_only:
  assumes "\<not> terminating s" and "page_size s = 4096"
  shows "\<exists>s'. object_init control objname 4096 s = Inr s' \<and> only_more_clients s s' \<and> control \<in> set (clients s') \<and>
    ready_messages (drop (length (events s)) (events s')) = [Message 2094 control]"
  using assms
  by (auto simp: object_init_def Let_def ready_messages_def only_more_clients_def emit_def)

lemma open_objects:
  assumes "\<And>obj. \<not> terminating (ps obj) \<and> page_size (ps obj) = 4096"
  shows "\<exists>ps'. for_each (open_object objname) os (ps, answers) = Inr (ps', answers @ map (\<lambda>(obj, control). Message 2094 control) os) \<and>
    (\<forall>obj. only_more_clients (ps obj) (ps' obj)) \<and> (\<forall>obj control. (obj, control) \<in> set os \<longrightarrow> control \<in> set (clients (ps' obj)))"
  using assms
proof (induction os arbitrary: ps answers)
  case Nil
  then show ?case by (simp add: only_more_clients_refl)
next
  case (Cons oc os)
  obtain obj control where oc: "oc = (obj, control)" by force
  obtain s where s: "object_init control objname 4096 (ps obj) = Inr s" "only_more_clients (ps obj) s" "control \<in> set (clients s)"
    "ready_messages (drop (length (events (ps obj))) (events s)) = [Message 2094 control]"
    using object_init_only Cons.prems by blast
  let ?ps = "ps(obj := s)"
  have "\<not> terminating (?ps obj') \<and> page_size (?ps obj') = 4096" for obj'
    using Cons.prems s(2) by (auto simp: only_more_clients_def)
  then obtain ps' where ps': "for_each (open_object objname) os (?ps, answers @ [Message 2094 control]) =
      Inr (ps', (answers @ [Message 2094 control]) @ map (\<lambda>(obj, control). Message 2094 control) os)"
    "\<And>obj. only_more_clients (?ps obj) (ps' obj)" "\<forall>obj control. (obj, control) \<in> set os \<longrightarrow> control \<in> set (clients (ps' obj))"
    using Cons.IH [of ?ps "answers @ [Message 2094 control]"] by blast
  have "only_more_clients (ps obj') (ps' obj')" for obj'
    using ps'(2) [of obj'] s(2) only_more_clients_trans by (cases "obj' = obj") auto
  moreover have "control \<in> set (clients (ps' obj))" using ps'(2) [of obj] s(3) by (auto simp: only_more_clients_def)
  ultimately show ?case using ps' s oc by (auto simp: open_object_def)
qed

section \<open>Nobody is denied anything\<close>

lemma messages_perm:
  assumes "mset ms = mset (map (\<lambda>(obj, control). Message 2094 control) os)"
  shows "\<exists>ps. ms = map (Message 2094) ps \<and> mset ps = mset (map snd os)"
proof -
  let ?port = "\<lambda>m. case m of Message _ p \<Rightarrow> p | _ \<Rightarrow> 0"
  have "m \<in> set ms \<Longrightarrow> m = Message 2094 (?port m)" for m using mset_eq_setD [OF assms] by auto
  then have "ms = map (Message 2094) (map ?port ms)" by (simp add: map_idI)
  moreover have "mset (map ?port ms) = mset (map snd os)"
    using arg_cong [OF assms, of "image_mset ?port"] by (simp add: multiset.map_comp comp_def case_prod_beta)
  ultimately show ?thesis by blast
qed

lemma grab_collects:
  assumes "grabbed alloc rs ws g" and "mset received = mset (map (\<lambda>(obj, control). Message 2094 control) (inits g))"
  shows "\<exists>c. collect g (received @ [Timed_out]) \<lparr>read_locks = [], write_locks = [], complaints = []\<rparr> = Some c \<and>
    complaints c = [] \<and> mset (read_locks c) = rs \<and> mset (write_locks c) = ws"
proof -
  obtain R W where g: "grab_ok alloc R W g" "mset (map snd R) = rs" "mset (map snd W) = ws"
    using assms(1) by (auto simp: grabbed_def)
  obtain ps where ps: "received = map (Message 2094) ps" "mset ps = mset (map snd (inits g))"
    using messages_perm [OF assms(2)] by blast
  have m: "mset ps = mset (map fst (R @ W))" and d: "distinct (map fst (R @ W))" using ps(2) g(1) by (simp_all add: grab_ok_def)
  have "set ps = set (map fst (R @ W))" using m by (rule mset_eq_setD)
  moreover have "distinct ps" using m d by (metis mset_eq_imp_distinct_iff)
  ultimately show ?thesis
    using collect_all [OF g(1), of ps] files_of_ports [of R ps] files_of_ports [of W ps] d g(2,3) ps(1) by simp
qed

text \<open>C19: Against the pagers of this library the plan of \<^verbatim>\<open>grab-memory-objects\<close> fails. The program gets every
  memory object it asks for, in whatever order the answers come: it reports exactly the files that have a read or a
  write object and complains about no message. But it is only one more client. The pagers are otherwise as they
  were, so whoever asks for a page that nobody has still gets it from the file.\<close>

theorem grabbing_denies_nothing:
  assumes "inj_on alloc {..<2 + 2 * length filenames}" and "filenames \<noteq> []"
    and "\<And>obj. \<not> terminating (ps obj) \<and> page_size (ps obj) = 4096"
  shows "\<exists>ps' answers.
    for_each (open_object (alloc 1)) (inits (grab_files lookup io_map alloc filenames)) (ps, []) = Inr (ps', answers) \<and>
    (\<forall>received. mset received = mset answers \<longrightarrow>
      (\<exists>c. grab_main lookup io_map alloc (received @ [Timed_out]) filenames = Inr (Some c) \<and> complaints c = [] \<and>
        mset (read_locks c) = mset (filter (readable lookup io_map) filenames) \<and>
        mset (write_locks c) = mset (filter (writable lookup io_map) filenames))) \<and>
    (\<forall>U obj client off prot buf write_lock.
      off mod 4096 = 0 \<and> no_next_error client off (ps obj) \<and> idle_page (page_read (ps obj) (page_of (ps obj) off)) \<and>
      pager_read_page U (events (ps' obj)) off = (KERN_SUCCESS, buf, write_lock) \<longrightarrow>
      (\<exists>s'. data_request U client off 4096 prot (ps' obj) = Inr s' \<and>
        events s' = events (ps' obj) @ [Read_page off, page_supply (ps obj) client off buf (wants_write prot \<and> \<not> write_lock)]))"
proof -
  let ?g = "grab_files lookup io_map alloc filenames"
  obtain ps' where ps': "for_each (open_object (alloc 1)) (inits ?g) (ps, []) =
      Inr (ps', map (\<lambda>(obj, control). Message 2094 control) (inits ?g))"
    "\<And>obj. only_more_clients (ps obj) (ps' obj)"
    using open_objects [where ps = ps and objname = "alloc 1" and os = "inits ?g" and answers = "[]"] assms(3) by auto
  have page: "\<exists>s'. data_request U client off 4096 prot (ps' obj) = Inr s' \<and>
        events s' = events (ps' obj) @ [Read_page off, page_supply (ps obj) client off buf (wants_write prot \<and> \<not> write_lock)]"
    if "off mod 4096 = 0" "no_next_error client off (ps obj)" "idle_page (page_read (ps obj) (page_of (ps obj) off))"
      "pager_read_page U (events (ps' obj)) off = (KERN_SUCCESS, buf, write_lock)" for U obj client off prot buf write_lock
  proof -
    obtain cs es where s: "ps' obj = (ps obj)\<lparr>clients := cs, events := es\<rparr>" using ps'(2) [of obj] by (auto simp: only_more_clients_def)
    have "aligned off 4096 (ps' obj)" "\<not> terminating (ps' obj)" "no_next_error client off (ps' obj)"
      "page_of (ps' obj) off = page_of (ps obj) off" "page_read (ps' obj) = page_read (ps obj)"
      using that assms(3) [of obj] by (simp_all add: s aligned_def no_next_error_def page_of_def page_read_def fun_eq_iff)
    then show ?thesis
      using data_request_idle [of off 4096 "ps' obj" client U KERN_SUCCESS buf write_lock prot] that(3,4)
      by (simp add: page_supply_def s PRECIOUS_def)
  qed
  have files: "\<exists>c. grab_main lookup io_map alloc (received @ [Timed_out]) filenames = Inr (Some c) \<and> complaints c = [] \<and>
        mset (read_locks c) = mset (filter (readable lookup io_map) filenames) \<and>
        mset (write_locks c) = mset (filter (writable lookup io_map) filenames)"
    if "mset received = mset (map (\<lambda>(obj, control). Message 2094 control) (inits ?g))" for received
    using grab_collects [OF grab_files_ok [OF assms(1)] that] assms(2) by (simp add: grab_main_def)
  show ?thesis
    using ps'(1) files page
    by (intro exI [of _ ps'] exI [of _ "map (\<lambda>(obj, control). Message 2094 control) (inits ?g)"] conjI allI impI) auto
qed

text \<open>A file that can only be read.\<close>

lemma grabbing_denies_nothing_witness:
  "\<exists>ps' answers c. for_each (open_object 1001)
       (inits (grab_files (\<lambda>rw f. if rw then 0 else 40) (\<lambda>node. (node + 1, 0)) (\<lambda>n. of_nat n + 1000) [''f'']))
       (\<lambda>_. example_pager, []) = Inr (ps', answers) \<and>
     grab_main (\<lambda>rw f. if rw then 0 else 40) (\<lambda>node. (node + 1, 0)) (\<lambda>n. of_nat n + 1000) (answers @ [Timed_out]) [''f''] = Inr (Some c) \<and>
     mset (read_locks c) = {#''f''#} \<and> mset (write_locks c) = {#}"
proof -
  have four: "{..<2 + 2 * length [''f'']} = {0, 1, 2, 3}" by auto
  have "inj_on (\<lambda>n. of_nat n + 1000 :: mach_port_t) {..<2 + 2 * length [''f'']}" unfolding four by simp
  moreover have "filter (readable (\<lambda>rw f. if rw then 0 else 40) (\<lambda>node. (node + 1, 0))) [''f''] = [''f'']"
    "filter (writable (\<lambda>rw f. if rw then 0 else 40) (\<lambda>node. (node + 1, 0))) [''f''] = []"
    by (simp_all add: readable_def writable_def objects_of_def open_node_def)
  moreover have "\<not> terminating example_pager \<and> page_size example_pager = 4096" by (simp add: example_pager_def new_pager_def)
  ultimately show ?thesis
    using grabbing_denies_nothing [of "\<lambda>n. of_nat n + 1000" "[''f'']" "\<lambda>_. example_pager"
      "\<lambda>rw f. if rw then 0 else 40" "\<lambda>node. (node + 1, 0)"] by fastforce
qed

end
