(* ===== verification/Mach_Message.thy ===== *)
theory Mach_Message
  imports Mach_Types
begin

text \<open>
  The typed Mach message of \<open>src/machMessage.h\<close>. A message is a buffer of longs: a header of
  six longs and then data items, each a type descriptor of one long (short form) or three longs
  (long form) followed by the data (inline) or a pointer to them (out of line). Every item
  starts on a long, since \<^verbatim>\<open>data_size\<close> rounds up to longs.

  \<^item> The bit fields of \<^verbatim>\<open>mach_msg_type_t\<close> and \<^verbatim>\<open>mach_msg_type_long_t\<close> are declared in
    \<^verbatim>\<open>mach/message.h\<close>, outside the repository: they are the parameter \<open>mach_abi\<close>. What the proofs
    need of it is nothing but that the fields of a descriptor are functions of its longs.
  \<^item> \<open>item_at\<close> is what \<^verbatim>\<open>mach_msg_iterator\<close> reads at its position, \<open>parse_items\<close> the loop
    \<^verbatim>\<open>for (auto ptr = msg.data(); ptr; ++ ptr)\<close> collecting the items it visits. An item that
    reaches beyond the buffer is a failure: the C++ code would read memory that is not part of
    the message.
\<close>

section \<open>Type descriptors\<close>

record mach_abi =
  msgt_name :: "32 word \<Rightarrow> 32 word"
  msgt_size :: "32 word \<Rightarrow> 32 word"
  msgt_number :: "32 word \<Rightarrow> 32 word"
  msgt_inline :: "32 word \<Rightarrow> bool"
  msgt_longform :: "32 word \<Rightarrow> bool"
  msgtl_name :: "32 word \<Rightarrow> 32 word"
  msgtl_size :: "32 word \<Rightarrow> 32 word"
  msgtl_number :: "32 word \<Rightarrow> 32 word"

text \<open>The longs of a descriptor, as \<^verbatim>\<open>msgptr()\<close> and \<^verbatim>\<open>longptr()\<close> see them.\<close>

datatype descriptor = Short "32 word" | Long "32 word" "32 word" "32 word"

fun first_long :: "descriptor \<Rightarrow> 32 word" where
  "first_long (Short w) = w"
| "first_long (Long w w1 w2) = w"

fun descriptor_longs :: "descriptor \<Rightarrow> 32 word list" where
  "descriptor_longs (Short w) = [w]"
| "descriptor_longs (Long w w1 w2) = [w, w1, w2]"

definition is_inline :: "'m mach_abi_scheme \<Rightarrow> descriptor \<Rightarrow> bool" where
  "is_inline A d = msgt_inline A (first_long d)"

fun header_size :: "descriptor \<Rightarrow> nat" where
  "header_size (Short w) = 4"
| "header_size (Long w w1 w2) = 12"

fun name :: "'m mach_abi_scheme \<Rightarrow> descriptor \<Rightarrow> 32 word" where
  "name A (Short w) = msgt_name A w"
| "name A (Long w w1 w2) = msgtl_name A w1"

fun nelems :: "'m mach_abi_scheme \<Rightarrow> descriptor \<Rightarrow> 32 word" where
  "nelems A (Short w) = msgt_number A w"
| "nelems A (Long w w1 w2) = msgtl_number A w2"

fun elemsize_bits :: "'m mach_abi_scheme \<Rightarrow> descriptor \<Rightarrow> 32 word" where
  "elemsize_bits A (Short w) = msgt_size A w"
| "elemsize_bits A (Long w w1 w2) = msgtl_size A w1"

text \<open>Bits to bytes, rounded up to longs, in 32-bit arithmetic.\<close>

definition bits_to_bytes :: "32 word \<Rightarrow> 32 word" where
  "bits_to_bytes bits = (let data_length = (bits + 7) div 8 in ((data_length + 4 - 1) div 4) * 4)"

definition data_size :: "'m mach_abi_scheme \<Rightarrow> descriptor \<Rightarrow> 32 word" where
  "data_size A d = bits_to_bytes (nelems A d * elemsize_bits A d)"

text \<open>The number of longs of data.\<close>

definition data_longs :: "'m mach_abi_scheme \<Rightarrow> descriptor \<Rightarrow> nat" where
  "data_longs A d = unat (data_size A d) div 4"

text \<open>The descriptor at a position of the buffer; \<open>None\<close> beyond its end.\<close>

fun descriptor_at :: "'m mach_abi_scheme \<Rightarrow> 32 word list \<Rightarrow> descriptor option" where
  "descriptor_at A [] = None"
| "descriptor_at A (w # ws) =
     (if msgt_longform A w
      then (case ws of w1 # w2 # _ \<Rightarrow> Some (Long w w1 w2) | _ \<Rightarrow> None)
      else Some (Short w))"

definition descriptor_ok :: "'m mach_abi_scheme \<Rightarrow> descriptor \<Rightarrow> bool" where
  "descriptor_ok A d \<longleftrightarrow> (msgt_longform A (first_long d) \<longleftrightarrow> header_size d = 12)"

section \<open>Data items\<close>

text \<open>
  An item: its descriptor, its data (inline, or the memory an out-of-line item points to) and
  the pointer \<^verbatim>\<open>* OOLptr()\<close>, which is 0 for inline items.
\<close>

record msg_item =
  descr :: descriptor
  payload :: "32 word list"
  OOLptr :: vm_address_t

definition item_ok :: "'m mach_abi_scheme \<Rightarrow> msg_item \<Rightarrow> bool" where
  "item_ok A it \<longleftrightarrow> descriptor_ok A (descr it) \<and> length (payload it) = data_longs A (descr it) \<and>
     (is_inline A (descr it) \<longrightarrow> OOLptr it = 0)"

text \<open>The longs an item occupies in the message, and their number.\<close>

definition item_longs :: "'m mach_abi_scheme \<Rightarrow> msg_item \<Rightarrow> 32 word list" where
  "item_longs A it = descriptor_longs (descr it) @
     (if is_inline A (descr it) then payload it else [OOLptr it])"

text \<open>\<^verbatim>\<open>operator++\<close>: the bytes from one item to the next.\<close>

definition item_bytes :: "'m mach_abi_scheme \<Rightarrow> descriptor \<Rightarrow> int" where
  "item_bytes A d = int (header_size d) + (if is_inline A d then uint (data_size A d) else 4)"

text \<open>
  The item at a position and what follows it. The memory of an out-of-line item is not part of
  the buffer; its payload is left empty here.
\<close>

definition item_at :: "'m mach_abi_scheme \<Rightarrow> 32 word list \<Rightarrow> (msg_item \<times> 32 word list) option" where
  "item_at A ws = (case descriptor_at A ws of None \<Rightarrow> None | Some d \<Rightarrow>
     let rest = drop (header_size d div 4) ws in
     if is_inline A d
     then (if data_longs A d \<le> length rest
           then Some (\<lparr>descr = d, payload = take (data_longs A d) rest, OOLptr = 0\<rparr>, drop (data_longs A d) rest)
           else None)
     else (case rest of [] \<Rightarrow> None | p # rest' \<Rightarrow> Some (\<lparr>descr = d, payload = [], OOLptr = p\<rparr>, rest')))"

lemma header_size_pos: "0 < header_size d"
  by (cases d) auto

lemma item_bytes_pos: "0 < item_bytes A d"
  using header_size_pos [of d] by (simp add: item_bytes_def add_pos_nonneg)

text \<open>
  The loop over the items. \<open>left\<close> is \<^verbatim>\<open>msgh_size - (ptr - hdr)\<close>: the iterator tests true while it is
  positive.
\<close>

function parse_items :: "'m mach_abi_scheme \<Rightarrow> int \<Rightarrow> 32 word list \<Rightarrow> msg_item list result" where
  "parse_items A left ws =
     (if left \<le> 0 then Inr []
      else case item_at A ws of None \<Rightarrow> Inl (Out_of_range ''message'')
      | Some (it, ws') \<Rightarrow>
          andThen (parse_items A (left - item_bytes A (descr it)) ws') (\<lambda>its. Inr (it # its)))"
  by pat_completeness auto
termination
  by (relation "measure (\<lambda>(A, left, ws). nat left)") (auto, smt (verit) item_bytes_pos)

declare parse_items.simps [simp del]

text \<open>\<^verbatim>\<open>machMessage::operator[]\<close>: the item that \<open>i\<close> increments of the iterator lead to.\<close>

fun nth_item :: "'m mach_abi_scheme \<Rightarrow> nat \<Rightarrow> 32 word list \<Rightarrow> msg_item option" where
  "nth_item A 0 ws = map_option fst (item_at A ws)"
| "nth_item A (Suc i) ws = (case item_at A ws of None \<Rightarrow> None | Some (it, ws') \<Rightarrow> nth_item A i ws')"

section \<open>Headers\<close>

record mach_msg_header =
  msgh_bits :: "32 word"
  msgh_size :: "32 word"
  msgh_remote_port :: mach_port_t
  msgh_local_port :: mach_port_t
  msgh_seqno :: "32 word"
  msgh_id :: "32 word"

fun header_longs :: "mach_msg_header \<Rightarrow> 32 word list" where
  "header_longs h = [msgh_bits h, msgh_size h, msgh_remote_port h, msgh_local_port h, msgh_seqno h, msgh_id h]"

fun read_header :: "32 word list \<Rightarrow> mach_msg_header option" where
  "read_header [b, z, r, l, q, i] =
     Some \<lparr>msgh_bits = b, msgh_size = z, msgh_remote_port = r, msgh_local_port = l, msgh_seqno = q, msgh_id = i\<rparr>"
| "read_header _ = None"

text \<open>\<^verbatim>\<open>max_size\<close>\<close>

definition max_size :: "32 word" where "max_size = 4096"

text \<open>A message: its header and the items the iterator visits.\<close>

record machMessage =
  hdr :: mach_msg_header
  items :: "msg_item list"

definition buffer :: "'m mach_abi_scheme \<Rightarrow> machMessage \<Rightarrow> 32 word list" where
  "buffer A m = header_longs (hdr m) @ concat (map (item_longs A) (items m))"

text \<open>A message whose size field is right and whose items are well formed.\<close>

definition message_ok :: "'m mach_abi_scheme \<Rightarrow> machMessage \<Rightarrow> bool" where
  "message_ok A m \<longleftrightarrow> list_all (item_ok A) (items m) \<and>
     uint (msgh_size (hdr m)) = 4 * int (length (buffer A m)) \<and> msgh_size (hdr m) \<le> max_size"

section \<open>Elements of an item\<close>

text \<open>Bytes of the data, little endian.\<close>

definition byte_at :: "32 word list \<Rightarrow> nat \<Rightarrow> 8 word result" where
  "byte_at ws k = (if k div 4 < length ws then Inr (ucast (drop_bit (8 * (k mod 4)) (ws ! (k div 4))))
     else Inl (Out_of_range ''data''))"

definition int16_at :: "32 word list \<Rightarrow> nat \<Rightarrow> 16 word result" where
  "int16_at ws k = andThen (byte_at ws k) (\<lambda>b0. andThen (byte_at ws (k + 1)) (\<lambda>b1.
     Inr (ucast b0 + push_bit 8 (ucast b1))))"

definition int32_at :: "32 word list \<Rightarrow> nat \<Rightarrow> 32 word result" where
  "int32_at ws k = andThen (int16_at ws k) (\<lambda>h0. andThen (int16_at ws (k + 2)) (\<lambda>h1.
     Inr (ucast h0 + push_bit 16 (ucast h1))))"

text \<open>
  \<^verbatim>\<open>mach_msg_data_ptr::operator*\<close>: the value at a byte offset. Narrow integers are sign-extended,
  a 64-bit integer is cut to its low half (its high half is read, too), a real fails the
  assertion. \<open>addr\<close> is the address of the data, which is what a string gives.
\<close>

definition element_value :: "32 word \<Rightarrow> vm_address_t \<Rightarrow> 32 word list \<Rightarrow> nat \<Rightarrow> 32 word result" where
  "element_value nm addr ws k =
     (if nm = MACH_MSG_TYPE_BIT then andThen (byte_at ws k) (\<lambda>b. Inr (ucast b AND 1))
      else if nm = MACH_MSG_TYPE_CHAR \<or> nm = MACH_MSG_TYPE_INTEGER_8 then
        andThen (byte_at ws k) (\<lambda>b. Inr (scast b))
      else if nm = MACH_MSG_TYPE_INTEGER_16 then andThen (int16_at ws k) (\<lambda>h. Inr (scast h))
      else if nm \<in> {MACH_MSG_TYPE_INTEGER_32, MACH_MSG_TYPE_PORT_NAME, MACH_MSG_TYPE_MOVE_RECEIVE,
          MACH_MSG_TYPE_MOVE_SEND, MACH_MSG_TYPE_MOVE_SEND_ONCE, MACH_MSG_TYPE_COPY_SEND,
          MACH_MSG_TYPE_MAKE_SEND, MACH_MSG_TYPE_MAKE_SEND_ONCE} then int32_at ws k
      else if nm = MACH_MSG_TYPE_INTEGER_64 then
        andThen (int32_at ws k) (\<lambda>lo. andThen (int32_at ws (k + 4)) (\<lambda>hi. Inr lo))
      else if nm = MACH_MSG_TYPE_STRING then Inr (addr + of_nat k)
      else Inl (Assert_failed ''0''))"

text \<open>
  \<^verbatim>\<open>mach_msg_iterator::operator[]\<close>: the \<open>i\<close>-th element, at byte \<open>i * elemsize_bits / 8\<close> in 32-bit
  arithmetic.
\<close>

definition element :: "'m mach_abi_scheme \<Rightarrow> vm_address_t \<Rightarrow> msg_item \<Rightarrow> 32 word \<Rightarrow> 32 word result" where
  "element A addr it i =
     (let z = elemsize_bits A (descr it) in
      if z mod 8 \<noteq> 0 then Inl (Assert_failed ''elemsize_bits() % 8 == 0'')
      else element_value (name A (descr it)) addr (payload it) (unat ((i * z) div 8)))"

section \<open>Lemmas\<close>

text \<open>What the buffer holds of an item: the data of an out-of-line item are elsewhere.\<close>

definition in_buffer :: "'m mach_abi_scheme \<Rightarrow> msg_item \<Rightarrow> msg_item" where
  "in_buffer A it = (if is_inline A (descr it) then it else it\<lparr>payload := []\<rparr>)"

lemma length_descriptor_longs [simp]: "length (descriptor_longs d) = header_size d div 4"
  by (cases d) auto

lemma four_header_size [simp]: "4 * (header_size d div 4) = header_size d"
  by (cases d) auto

lemma unat_round_longs: "unat (x div 4 * 4 :: 32 word) = 4 * (unat x div 4)"
proof -
  have "unat x < 2 ^ 32" using unsigned_less [of x] by simp
  then have "unat x div 4 * 4 < 2 ^ 32" by simp
  then show ?thesis by (simp add: unat_word_ariths unat_div mult.commute)
qed

lemma data_size_aligned: "unat (data_size A d) = 4 * data_longs A d"
  by (simp add: data_longs_def data_size_def bits_to_bytes_def Let_def unat_round_longs)

text \<open>The bits rounded up to longs, as long as they fit in 32 bits.\<close>

lemma data_longs_bits:
  assumes "unat (nelems A d) * unat (elemsize_bits A d) + 7 < 2 ^ 32"
  shows "data_longs A d = (unat (nelems A d) * unat (elemsize_bits A d) + 31) div 32"
proof -
  let ?n = "unat (nelems A d) * unat (elemsize_bits A d)"
  have "unat (nelems A d * elemsize_bits A d) = ?n" using assms by (simp add: unat_word_ariths)
  then have 7: "unat (nelems A d * elemsize_bits A d + 7) = ?n + 7" using assms by (simp add: unat_word_ariths)
  let ?l = "(nelems A d * elemsize_bits A d + 7) div 8"
  have l: "unat ?l = (?n + 7) div 8" by (simp add: unat_div 7)
  then have "unat (?l + 4 - 1) = (?n + 7) div 8 + 3" using assms by (simp add: unat_word_ariths)
  moreover have "unat (data_size A d) = 4 * (unat (?l + 4 - 1) div 4)"
    unfolding data_size_def bits_to_bytes_def Let_def by (rule unat_round_longs)
  ultimately have "4 * data_longs A d = 4 * (((?n + 7) div 8 + 3) div 4)"
    using data_size_aligned [of A d] by metis
  then have "data_longs A d = ((?n + 7) div 8 + 3) div 4" by linarith
  moreover have "((x + 7) div 8 + 3) div 4 = (x + 31) div 32" for x :: nat
  proof -
    have "(x + 7) div 8 + 3 = (x + 31) div 8" by presburger
    then show ?thesis by (simp add: div_mult2_eq [of _ 8 4, simplified])
  qed
  ultimately show ?thesis by simp
qed

lemma four_item_longs: "item_ok A it \<Longrightarrow> 4 * int (length (item_longs A it)) = item_bytes A (descr it)"
  using data_size_aligned [of A "descr it"] four_header_size [of "descr it"]
  by (auto simp: item_ok_def item_longs_def item_bytes_def uint_nat simp del: four_header_size)

lemma descriptor_at_longs [simp]: "descriptor_ok A d \<Longrightarrow> descriptor_at A (descriptor_longs d @ ws) = Some d"
  by (cases d) (auto simp: descriptor_ok_def)

lemma item_at_longs: "item_ok A it \<Longrightarrow> item_at A (item_longs A it @ ws) = Some (in_buffer A it, ws)"
  by (cases it) (auto simp: item_ok_def item_at_def item_longs_def in_buffer_def)

lemma descr_in_buffer [simp]: "descr (in_buffer A it) = descr it"
  by (simp add: in_buffer_def)

lemma parse_items_longs:
  "list_all (item_ok A) its \<Longrightarrow>
   parse_items A (4 * int (length (concat (map (item_longs A) its)))) (concat (map (item_longs A) its) @ ws)
     = Inr (map (in_buffer A) its)"
proof (induction its)
  case Nil
  then show ?case by (simp add: parse_items.simps)
next
  case (Cons it its)
  have b: "4 * int (length (item_longs A it)) = item_bytes A (descr it)"
    using Cons.prems by (simp add: four_item_longs)
  have "\<not> item_bytes A (descr it) + 4 * int (length (concat (map (item_longs A) its))) \<le> 0"
    using item_bytes_pos [of A "descr it"] by linarith
  then show ?case
    using Cons b
    by (subst parse_items.simps) (simp add: item_at_longs algebra_simps)
qed

lemma nth_item_longs:
  "list_all (item_ok A) its \<Longrightarrow> i < length its \<Longrightarrow>
   nth_item A i (concat (map (item_longs A) its) @ ws) = Some (in_buffer A (its ! i))"
  by (induction its arbitrary: i) (auto simp: item_at_longs less_Suc_eq_0_disj)

lemma header_round_trip [simp]: "read_header (header_longs h) = Some h"
  by simp

lemma length_header_longs [simp]: "length (header_longs h) = 6"
  by simp

declare header_longs.simps [simp del]

end
