(* ===== verification/Message_Properties.thy ===== *)
theory Message_Properties
  imports Mach_Message
begin

text \<open>Properties of the iterator over the data of a Mach message.\<close>

section \<open>Elements\<close>

text \<open>Four bytes put together, little endian, are the long they were cut from.\<close>

lemma int32_at_long: "k < length ws \<Longrightarrow> int32_at ws (4 * k) = Inr (ws ! k)"
proof -
  assume k: "k < length ws"
  let ?w = "ws ! k"
  have b: "byte_at ws (4 * k + j) = Inr (ucast (drop_bit (8 * j) ?w))" if "j < 4" for j
    using k that by (simp add: byte_at_def)
  have plus: "x + push_bit n y = x OR push_bit n y" if "x AND push_bit n y = 0" for x y :: "'a :: len word" and n
    using that by (rule disjunctive_add_eq_or)
  have h: "int16_at ws (4 * k + j) = Inr (ucast (drop_bit (8 * j) ?w))" if "j < 3" for j
  proof -
    let ?b0 = "ucast (ucast (drop_bit (8 * j) ?w) :: 8 word) :: 16 word"
    let ?b1 = "ucast (ucast (drop_bit (8 * (j + 1)) ?w) :: 8 word) :: 16 word"
    have "?b0 AND push_bit 8 ?b1 = 0" by (rule bit_eqI) (auto simp: bit_simps)
    then have "?b0 + push_bit 8 ?b1 = ?b0 OR push_bit 8 ?b1" by (rule plus)
    also have "\<dots> = ucast (drop_bit (8 * j) ?w)"
    proof (rule bit_eqI)
      fix n :: nat
      show "bit (?b0 OR push_bit 8 ?b1) n = bit (ucast (drop_bit (8 * j) ?w) :: 16 word) n"
        by (cases "n < 8") (auto simp: bit_simps add.commute)
    qed
    finally show ?thesis using b [of j] b [of "j + 1"] that by (simp add: int16_at_def add.assoc)
  qed
  let ?h0 = "ucast (ucast ?w :: 16 word) :: 32 word" let ?h1 = "ucast (ucast (drop_bit 16 ?w) :: 16 word) :: 32 word"
  have "?h0 AND push_bit 16 ?h1 = 0" by (rule bit_eqI) (auto simp: bit_simps)
  then have "?h0 + push_bit 16 ?h1 = ?h0 OR push_bit 16 ?h1" by (rule plus)
  also have "\<dots> = ?w"
  proof (rule bit_eqI)
    fix n :: nat
    show "bit (?h0 OR push_bit 16 ?h1) n = bit ?w n"
      by (cases "n < 16") (auto simp: bit_simps dest: bit_imp_le_length)
  qed
  finally show ?thesis using h [of 0] h [of 2] by (simp add: int32_at_def)
qed

text \<open>An element of an array of ports or 32-bit integers is the long at its index.\<close>

lemma element_long:
  assumes "elemsize_bits A (descr it) = 32"
    and "name A (descr it) \<in> {MACH_MSG_TYPE_INTEGER_32, MACH_MSG_TYPE_PORT_NAME, MACH_MSG_TYPE_MOVE_RECEIVE,
      MACH_MSG_TYPE_MOVE_SEND, MACH_MSG_TYPE_MOVE_SEND_ONCE, MACH_MSG_TYPE_COPY_SEND, MACH_MSG_TYPE_MAKE_SEND,
      MACH_MSG_TYPE_MAKE_SEND_ONCE}"
    and "unat i < length (payload it)" and "unat i < 2 ^ 27"
  shows "element A addr it i = Inr (payload it ! unat i)"
proof -
  have "unat (i * 32) = unat i * 32" using assms(4) by (simp add: unat_word_ariths)
  then have "unat ((i * 32) div 8) = 4 * unat i" by (simp add: unat_div)
  moreover have "element_value (name A (descr it)) addr ws k = int32_at ws k" for ws k
    using assms(2) by (auto simp: element_value_def)
  ultimately show ?thesis using assms(1) int32_at_long [OF assms(3)] by (simp add: element_def Let_def)
qed

section \<open>Properties\<close>

text \<open>C29: The iterator visits exactly the items a message was composed of, in order, and ends after the
  last one; indexing a message gives the item with that number. For out-of-line items it sees
  the pointer.\<close>

theorem message_items_round_trip:
  assumes "list_all (item_ok A) its"
  shows "parse_items A (4 * int (length (concat (map (item_longs A) its)))) (concat (map (item_longs A) its) @ ws)
      = Inr (map (in_buffer A) its) \<and>
    (\<forall>i < length its. nth_item A i (concat (map (item_longs A) its) @ ws) = Some (in_buffer A (its ! i)))"
  using assms by (simp add: parse_items_longs nth_item_longs)

text \<open>Descriptors with the bit fields of GNU Mach.\<close>

definition i386_abi :: mach_abi where
  "i386_abi = \<lparr>
     msgt_name = (\<lambda>w. w AND 0xFF), msgt_size = (\<lambda>w. drop_bit 8 w AND 0xFF), msgt_number = (\<lambda>w. drop_bit 16 w AND 0xFFF),
     msgt_inline = (\<lambda>w. bit w 28), msgt_longform = (\<lambda>w. bit w 29),
     msgtl_name = (\<lambda>w. w AND 0xFFFF), msgtl_size = (\<lambda>w. drop_bit 16 w), msgtl_number = (\<lambda>w. w)\<rparr>"

definition two_items :: "msg_item list" where
  "two_items = [\<lparr>descr = Short 0x10022002, payload = [5, 6], OOLptr = 0\<rparr>,
                \<lparr>descr = Long 0x20000000 0x00080008 9, payload = [7, 8, 9], OOLptr = 0x4000\<rparr>]"

lemma message_items_round_trip_witness:
  "parse_items i386_abi 28 [0x10022002, 5, 6, 0x20000000, 0x00080008, 9, 0x4000] = Inr (map (in_buffer i386_abi) two_items)"
proof -
  have "list_all (item_ok i386_abi) two_items" by code_simp
  moreover have "concat (map (item_longs i386_abi) two_items) = [0x10022002, 5, 6, 0x20000000, 0x00080008, 9, 0x4000]" by code_simp
  ultimately show ?thesis using message_items_round_trip [of i386_abi two_items "[]"] by simp
qed

text \<open>C39: The size of an item is its number of bits rounded up to longs, as long as the number of bits fits
  in 32 bits; the longs hold all the bits.\<close>

theorem data_size_bounds:
  assumes "unat (nelems A d) * unat (elemsize_bits A d) + 7 < 2 ^ 32"
  shows "unat (data_size A d) = 4 * ((unat (nelems A d) * unat (elemsize_bits A d) + 31) div 32) \<and>
    8 * unat (data_size A d) \<ge> unat (nelems A d) * unat (elemsize_bits A d)"
proof -
  let ?n = "unat (nelems A d) * unat (elemsize_bits A d)"
  have u: "unat (data_size A d) = 4 * ((?n + 31) div 32)" using data_size_aligned [of A d] data_longs_bits [OF assms] by simp
  have "x \<le> 8 * (4 * ((x + 31) div 32))" for x :: nat by linarith
  with u show ?thesis by metis
qed

lemma data_size_bounds_witness: "unat (data_size i386_abi (Long 0x20000000 0x00080008 9)) = 12"
proof -
  have e: "nelems i386_abi (Long 0x20000000 0x00080008 9) = 9" "elemsize_bits i386_abi (Long 0x20000000 0x00080008 9) = 8"
    by code_simp+
  show ?thesis using data_size_bounds [of i386_abi "Long 0x20000000 0x00080008 9"] unfolding e by simp
qed

text \<open>Beyond that bound the product wraps: an array of \<open>2 ^ 27\<close> longs has size 0.\<close>

lemma data_size_wraps: "data_size i386_abi (Long 0x30000000 0x00200002 0x08000000) = 0"
  by code_simp

end
