(* ===== verification/Netmsg_State.thy ===== *)
theory Netmsg_State
  imports Mach_Message
begin

text \<open>
  The state of a session of \<open>src/netmsg/netmsg.cc\<close> and its calls to the kernel.

  \<^item> \<open>netmsg\<close> is \<^verbatim>\<open>class netmsg\<close> with the process-wide \<^verbatim>\<open>control\<close> port, the calls made to the kernel so
    far (\<open>calls\<close>) and the longs written to the network (\<open>os\<close>).
  \<^item> \<open>kernel\<close> holds the answers of the kernel, which are not in the repository: every answer is a
    function of the state in which the call is made. Return codes are only printed by
    \<^verbatim>\<open>mach_call\<close>; a call that fails leaves its result as arbitrary as the parameter is. Only for
    \<^verbatim>\<open>mach_port_allocate\<close> is failure explicit (\<open>None\<close>): the code goes on with an uninitialised
    name, the model stops.
  \<^item> \<open>names_fresh\<close> is what netmsg relies on: \<^verbatim>\<open>mach_port_allocate\<close> gives a name that denotes no right
    of the task (so none its tables list), and the highest bit of a port name is clear, which
    netmsg says it relies on.

  The handlers run one at a time here. The code runs one thread for each destination port and
  takes no lock around its tables (``these translation functions now need some kind of
  locking'').
\<close>

section \<open>Calls of the kernel\<close>

datatype port_right = RIGHT_RECEIVE | RIGHT_SEND | RIGHT_SEND_ONCE | RIGHT_DEAD_NAME

datatype notification = NOTIFY_NO_SENDERS | NOTIFY_DEAD_NAME

datatype kernel_call =
    Port_allocate mach_port_t
  | Insert_right mach_port_t "32 word"
  | Extract_right mach_port_t mach_port_t
  | Mod_refs mach_port_t port_right int
  | Move_member mach_port_t mach_port_t
  | Request_notification mach_port_t notification mach_port_t
  | Vm_allocate vm_address_t "32 word"
  | Vm_deallocate vm_address_t "32 word"
  | Msg_send machMessage

section \<open>Sessions\<close>

record netmsg =
  first_port :: mach_port_t
  portset :: mach_port_t
  notification_port :: mach_port_t
  control :: mach_port_t
  local_ports_by_remote :: "mach_port_t \<rightharpoonup> mach_port_t"
  remote_ports_by_local :: "mach_port_t \<rightharpoonup> mach_port_t"
  local_port_type :: "mach_port_t \<rightharpoonup> 32 word"
  send_once_ports_by_remote :: "mach_port_t \<rightharpoonup> mach_port_t"
  send_once_ports_by_local :: "mach_port_t \<rightharpoonup> mach_port_t"
  calls :: "kernel_call list"
  os :: "32 word list"

record kernel = mach_abi +
  allocates :: "netmsg \<Rightarrow> mach_port_t option"
  previous :: "netmsg \<Rightarrow> mach_port_t \<Rightarrow> notification \<Rightarrow> mach_port_t"
  extracts :: "netmsg \<Rightarrow> mach_port_t \<Rightarrow> mach_port_t \<times> 32 word"
  vm_allocates :: "netmsg \<Rightarrow> vm_address_t"
  copyin :: "netmsg \<Rightarrow> msg_item \<Rightarrow> 32 word list"

definition kcall :: "kernel_call \<Rightarrow> netmsg \<Rightarrow> netmsg" where
  "kcall c s = s\<lparr>calls := calls s @ [c]\<rparr>"

definition mach_port_allocate :: "kernel \<Rightarrow> netmsg \<Rightarrow> (mach_port_t \<times> netmsg) result" where
  "mach_port_allocate K s = (case allocates K s of None \<Rightarrow> Inl (Out_of_range ''mach_port_allocate'')
     | Some p \<Rightarrow> Inr (p, kcall (Port_allocate p) s))"

definition request_notification ::
  "kernel \<Rightarrow> mach_port_t \<Rightarrow> notification \<Rightarrow> mach_port_t \<Rightarrow> netmsg \<Rightarrow> mach_port_t \<times> netmsg" where
  "request_notification K p n target s = (previous K s p n, kcall (Request_notification p n target) s)"

text \<open>\<^verbatim>\<open>assert(local_port_type.at(port) == type)\<close>\<close>

definition check_type :: "mach_port_t \<Rightarrow> 32 word \<Rightarrow> netmsg \<Rightarrow> netmsg result" where
  "check_type p t s = andThen (map_at ''local_port_type'' (local_port_type s) p)
     (\<lambda>t'. assert_that (t' = t) ''local_port_type.at(port) == type'' s)"

definition set_type :: "mach_port_t \<Rightarrow> 32 word \<Rightarrow> netmsg \<Rightarrow> netmsg" where
  "set_type p t s = s\<lparr>local_port_type := (local_port_type s)(p \<mapsto> t)\<rparr>"

definition erase_type :: "mach_port_t \<Rightarrow> netmsg \<Rightarrow> netmsg" where
  "erase_type p s = s\<lparr>local_port_type := (local_port_type s)(p := None)\<rparr>"

text \<open>Record that the local port \<open>l\<close> stands for the remote port \<open>r\<close>.\<close>

definition map_port :: "mach_port_t \<Rightarrow> mach_port_t \<Rightarrow> netmsg \<Rightarrow> netmsg" where
  "map_port r l s = s\<lparr>local_ports_by_remote := (local_ports_by_remote s)(r \<mapsto> l),
                      remote_ports_by_local := (remote_ports_by_local s)(l \<mapsto> r)\<rparr>"

text \<open>
  \<^verbatim>\<open>local_ports_by_remote.erase(remote_ports_by_local[l]); remote_ports_by_local.erase(l)\<close>. The
  default that \<^verbatim>\<open>operator[]\<close> inserts for a missing \<open>l\<close> is erased by the second call.
\<close>

definition unmap_port :: "mach_port_t \<Rightarrow> netmsg \<Rightarrow> netmsg" where
  "unmap_port l s =
     (let (r, m) = map_touch MACH_PORT_NULL (remote_ports_by_local s) l in
      s\<lparr>local_ports_by_remote := (local_ports_by_remote s)(r := None),
        remote_ports_by_local := m(l := None)\<rparr>)"

definition map_send_once :: "mach_port_t \<Rightarrow> mach_port_t \<Rightarrow> netmsg \<Rightarrow> netmsg" where
  "map_send_once r l s = s\<lparr>send_once_ports_by_remote := (send_once_ports_by_remote s)(r \<mapsto> l),
                           send_once_ports_by_local := (send_once_ports_by_local s)(l \<mapsto> r)\<rparr>"

definition unmap_send_once :: "mach_port_t \<Rightarrow> mach_port_t \<Rightarrow> netmsg \<Rightarrow> netmsg" where
  "unmap_send_once r l s = s\<lparr>send_once_ports_by_local := (send_once_ports_by_local s)(l := None),
                             send_once_ports_by_remote := (send_once_ports_by_remote s)(r := None)\<rparr>"

section \<open>The start of a session\<close>

text \<open>The members' initialisers, for a process whose \<^verbatim>\<open>control\<close> port is \<open>c\<close>.\<close>

definition empty_session :: "mach_port_t \<Rightarrow> netmsg" where
  "empty_session c =
     \<lparr>first_port = MACH_PORT_NULL, portset = MACH_PORT_NULL, notification_port = MACH_PORT_NULL, control = c,
      local_ports_by_remote = Map.empty, remote_ports_by_local = Map.empty, local_port_type = Map.empty,
      send_once_ports_by_remote = Map.empty, send_once_ports_by_local = Map.empty, calls = [], os = []\<rparr>"

text \<open>The constructor: a server makes \<^verbatim>\<open>first_port\<close> and records it as a send port.\<close>

definition new_netmsg :: "kernel \<Rightarrow> bool \<Rightarrow> mach_port_t \<Rightarrow> netmsg result" where
  "new_netmsg K serverMode c =
     (let s = empty_session c in
      if serverMode
      then andThen (mach_port_allocate K s) (\<lambda>(p, s1).
        Inr (set_type p MACH_MSG_TYPE_PORT_SEND (kcall (Insert_right p MACH_MSG_TYPE_MAKE_SEND) (s1\<lparr>first_port := p\<rparr>))))
      else Inr s)"

text \<open>\<^verbatim>\<open>ipcHandler\<close> before its loop: the port set and the port for notifications.\<close>

definition ipcHandler_start :: "kernel \<Rightarrow> netmsg \<Rightarrow> netmsg result" where
  "ipcHandler_start K s =
     andThen (mach_port_allocate K s) (\<lambda>(ps, s1).
     andThen (mach_port_allocate K (s1\<lparr>portset := ps\<rparr>)) (\<lambda>(np, s2).
       let s3 = kcall (Move_member np ps) (s2\<lparr>notification_port := np\<rparr>)
       in Inr (if control s \<noteq> MACH_PORT_NULL then kcall (Move_member (control s) ps) s3 else s3)))"

section \<open>Names\<close>

text \<open>The names of the task that a session knows of.\<close>

definition is_known :: "netmsg \<Rightarrow> mach_port_t \<Rightarrow> bool" where
  "is_known s p \<longleftrightarrow> remote_ports_by_local s p \<noteq> None \<or> local_port_type s p \<noteq> None \<or>
     send_once_ports_by_local s p \<noteq> None \<or> p \<in> {first_port s, portset s, notification_port s, control s}"

definition proper_name :: "mach_port_t \<Rightarrow> bool" where
  "proper_name p \<longleftrightarrow> p \<noteq> MACH_PORT_NULL \<and> p AND 0x80000000 = 0"

definition names_fresh :: "kernel \<Rightarrow> bool" where
  "names_fresh K \<longleftrightarrow> (\<forall>s p. allocates K s = Some p \<longrightarrow> \<not> is_known s p \<and> proper_name p)"

section \<open>Lemmas\<close>

lemma kcall_frame [simp]:
  "first_port (kcall c s) = first_port s" "portset (kcall c s) = portset s"
  "notification_port (kcall c s) = notification_port s" "control (kcall c s) = control s"
  "local_ports_by_remote (kcall c s) = local_ports_by_remote s"
  "remote_ports_by_local (kcall c s) = remote_ports_by_local s"
  "local_port_type (kcall c s) = local_port_type s"
  "send_once_ports_by_remote (kcall c s) = send_once_ports_by_remote s"
  "send_once_ports_by_local (kcall c s) = send_once_ports_by_local s" "os (kcall c s) = os s"
  "calls (kcall c s) = calls s @ [c]"
  by (simp_all add: kcall_def)

lemma request_notification_eq [simp]:
  "request_notification K p n target s = (previous K s p n, kcall (Request_notification p n target) s)"
  by (simp add: request_notification_def)

lemma mach_port_allocate_Inr_iff [simp]:
  "mach_port_allocate K s = Inr (p, s') \<longleftrightarrow> allocates K s = Some p \<and> s' = kcall (Port_allocate p) s"
  by (auto simp: mach_port_allocate_def split: option.splits)

lemma is_known_kcall [simp]: "is_known (kcall c s) p = is_known s p"
  by (simp add: is_known_def)

lemma check_type_Inr_iff [simp]: "check_type p t s = Inr s' \<longleftrightarrow> local_port_type s p = Some t \<and> s' = s"
  by (auto simp: check_type_def)

lemma set_type_frame [simp]:
  "first_port (set_type p t s) = first_port s" "portset (set_type p t s) = portset s"
  "notification_port (set_type p t s) = notification_port s" "control (set_type p t s) = control s"
  "local_ports_by_remote (set_type p t s) = local_ports_by_remote s"
  "remote_ports_by_local (set_type p t s) = remote_ports_by_local s"
  "local_port_type (set_type p t s) = (local_port_type s)(p \<mapsto> t)"
  "send_once_ports_by_remote (set_type p t s) = send_once_ports_by_remote s"
  "send_once_ports_by_local (set_type p t s) = send_once_ports_by_local s" "os (set_type p t s) = os s"
  "calls (set_type p t s) = calls s"
  by (simp_all add: set_type_def)

lemma erase_type_frame [simp]:
  "first_port (erase_type p s) = first_port s" "portset (erase_type p s) = portset s"
  "notification_port (erase_type p s) = notification_port s" "control (erase_type p s) = control s"
  "local_ports_by_remote (erase_type p s) = local_ports_by_remote s"
  "remote_ports_by_local (erase_type p s) = remote_ports_by_local s"
  "local_port_type (erase_type p s) = (local_port_type s)(p := None)"
  "send_once_ports_by_remote (erase_type p s) = send_once_ports_by_remote s"
  "send_once_ports_by_local (erase_type p s) = send_once_ports_by_local s" "os (erase_type p s) = os s"
  "calls (erase_type p s) = calls s"
  by (simp_all add: erase_type_def)

lemma map_port_frame [simp]:
  "first_port (map_port r l s) = first_port s" "portset (map_port r l s) = portset s"
  "notification_port (map_port r l s) = notification_port s" "control (map_port r l s) = control s"
  "local_ports_by_remote (map_port r l s) = (local_ports_by_remote s)(r \<mapsto> l)"
  "remote_ports_by_local (map_port r l s) = (remote_ports_by_local s)(l \<mapsto> r)"
  "local_port_type (map_port r l s) = local_port_type s"
  "send_once_ports_by_remote (map_port r l s) = send_once_ports_by_remote s"
  "send_once_ports_by_local (map_port r l s) = send_once_ports_by_local s" "os (map_port r l s) = os s"
  "calls (map_port r l s) = calls s"
  by (simp_all add: map_port_def)

lemma unmap_port_frame [simp]:
  "first_port (unmap_port l s) = first_port s" "portset (unmap_port l s) = portset s"
  "notification_port (unmap_port l s) = notification_port s" "control (unmap_port l s) = control s"
  "remote_ports_by_local (unmap_port l s) = (remote_ports_by_local s)(l := None)"
  "local_port_type (unmap_port l s) = local_port_type s"
  "send_once_ports_by_remote (unmap_port l s) = send_once_ports_by_remote s"
  "send_once_ports_by_local (unmap_port l s) = send_once_ports_by_local s" "os (unmap_port l s) = os s"
  "calls (unmap_port l s) = calls s"
  by (simp_all add: unmap_port_def map_touch_def split: option.split)

lemma unmap_port_by_remote [simp]:
  "local_ports_by_remote (unmap_port l s) =
     (local_ports_by_remote s)(case remote_ports_by_local s l of None \<Rightarrow> MACH_PORT_NULL | Some r \<Rightarrow> r := None)"
  by (simp add: unmap_port_def map_touch_def split: option.split)

lemma send_once_frame [simp]:
  "first_port (map_send_once r l s) = first_port s" "portset (map_send_once r l s) = portset s"
  "notification_port (map_send_once r l s) = notification_port s" "control (map_send_once r l s) = control s"
  "local_ports_by_remote (map_send_once r l s) = local_ports_by_remote s"
  "remote_ports_by_local (map_send_once r l s) = remote_ports_by_local s"
  "local_port_type (map_send_once r l s) = local_port_type s"
  "send_once_ports_by_remote (map_send_once r l s) = (send_once_ports_by_remote s)(r \<mapsto> l)"
  "send_once_ports_by_local (map_send_once r l s) = (send_once_ports_by_local s)(l \<mapsto> r)"
  "os (map_send_once r l s) = os s" "calls (map_send_once r l s) = calls s"
  "first_port (unmap_send_once r l s) = first_port s" "portset (unmap_send_once r l s) = portset s"
  "notification_port (unmap_send_once r l s) = notification_port s" "control (unmap_send_once r l s) = control s"
  "local_ports_by_remote (unmap_send_once r l s) = local_ports_by_remote s"
  "remote_ports_by_local (unmap_send_once r l s) = remote_ports_by_local s"
  "local_port_type (unmap_send_once r l s) = local_port_type s"
  "send_once_ports_by_remote (unmap_send_once r l s) = (send_once_ports_by_remote s)(r := None)"
  "send_once_ports_by_local (unmap_send_once r l s) = (send_once_ports_by_local s)(l := None)"
  "os (unmap_send_once r l s) = os s" "calls (unmap_send_once r l s) = calls s"
  by (simp_all add: map_send_once_def unmap_send_once_def)

text \<open>A flipped port number is in the receiver's name space exactly if the number was proper.\<close>

lemma flip_flag: "(NOT p) AND 0x80000000 = 0 \<longleftrightarrow> p AND 0x80000000 \<noteq> (0 :: 32 word)"
proof -
  have "(x AND 0x80000000 = 0) = (\<not> bit x 31)" for x :: "32 word"
    by (auto simp: and_exp_eq_0_iff_not_bit [of x 31, simplified])
  then show ?thesis by (simp add: bit_not_iff)
qed

end
