(* ===== verification/Netmsg_Transmit.thy ===== *)
theory Netmsg_Transmit
  imports Netmsg_State
begin

text \<open>
  From the kernel to the network: a message received by IPC is translated and written to the
  network stream (\<^verbatim>\<open>copyOOLdata\<close>, \<^verbatim>\<open>translateForTransmission\<close>, \<^verbatim>\<open>ipcBufferHandler\<close>,
  \<^verbatim>\<open>transmitOOLdata\<close> of \<open>src/netmsg/netmsg.cc\<close>).

  The loops over the ports of an item rewrite the item's data in place; a count of elements that
  reaches beyond the data is a failure. The printing of debugging messages is left out.
\<close>

definition MACH_MSGH_BITS_REMOTE_TRANSLATE :: "32 word" where
  "MACH_MSGH_BITS_REMOTE_TRANSLATE = 0x04000000"

definition MACH_PORT_CONTROL :: mach_port_t where
  "MACH_PORT_CONTROL = NOT 1"

abbreviation MSGID_PORT_DELETED :: "32 word" where "MSGID_PORT_DELETED \<equiv> 65"
abbreviation MSGID_NO_SENDERS :: "32 word" where "MSGID_NO_SENDERS \<equiv> 70"
abbreviation MSGID_SEND_ONCE :: "32 word" where "MSGID_SEND_ONCE \<equiv> 71"
abbreviation MSGID_DEAD_NAME :: "32 word" where "MSGID_DEAD_NAME \<equiv> 72"

definition set_local_port :: "mach_port_t \<Rightarrow> machMessage \<Rightarrow> machMessage" where
  "set_local_port p m = m\<lparr>hdr := (hdr m)\<lparr>msgh_local_port := p\<rparr>\<rparr>"

section \<open>Out-of-line data\<close>

definition is_ool :: "'m mach_abi_scheme \<Rightarrow> msg_item \<Rightarrow> bool" where
  "is_ool A it \<longleftrightarrow> \<not> is_inline A (descr it) \<and> data_size A (descr it) > 0"

text \<open>
  \<^verbatim>\<open>copyOOLdata\<close>: each region is copied to memory of netmsg's own. \<open>copyin\<close> is what the new memory
  holds after \<^verbatim>\<open>hurd_safe_copyin\<close>: the data, or zeros where they cannot be read.
\<close>

definition copyOOLitem :: "kernel \<Rightarrow> msg_item \<Rightarrow> netmsg \<Rightarrow> (msg_item \<times> netmsg) result" where
  "copyOOLitem K it s =
     (if is_ool K it
      then (let z = data_size K (descr it); a = vm_allocates K s; s1 = kcall (Vm_allocate a z) s;
                s2 = kcall (Vm_deallocate (OOLptr it) z) s1
            in Inr (it\<lparr>payload := copyin K s1 it, OOLptr := a\<rparr>, s2))
      else Inr (it, s))"

definition copyOOLdata :: "kernel \<Rightarrow> machMessage \<Rightarrow> netmsg \<Rightarrow> (machMessage \<times> netmsg) result" where
  "copyOOLdata K m s = andThen (map_state (copyOOLitem K) (items m) s) (\<lambda>(its, s'). Inr (m\<lparr>items := its\<rparr>, s'))"

definition transmitOOLitem :: "kernel \<Rightarrow> msg_item \<Rightarrow> netmsg \<Rightarrow> netmsg" where
  "transmitOOLitem K it s =
     (if is_ool K it
      then kcall (Vm_deallocate (OOLptr it) (data_size K (descr it))) (s\<lparr>os := os s @ payload it\<rparr>)
      else s)"

definition transmitOOLdata :: "kernel \<Rightarrow> machMessage \<Rightarrow> netmsg \<Rightarrow> netmsg" where
  "transmitOOLdata K m s = fold (transmitOOLitem K) (items m) s"

section \<open>Translation of the ports of a message\<close>

text \<open>The body of the loop for \<^verbatim>\<open>MACH_MSG_TYPE_MOVE_SEND\<close>.\<close>

definition transmit_send :: "kernel \<Rightarrow> mach_port_t \<Rightarrow> netmsg \<Rightarrow> (mach_port_t \<times> netmsg) result" where
  "transmit_send K p s =
     (if p = MACH_PORT_NULL \<or> p = MACH_PORT_DEAD then Inr (p, s)
      else case remote_ports_by_local s p of
        Some r \<Rightarrow> andThen (check_type p MACH_MSG_TYPE_PORT_RECEIVE s)
          (\<lambda>s. Inr (NOT r, kcall (Mod_refs p RIGHT_SEND (- 1)) s))
      | None \<Rightarrow>
          let s1 = set_type p MACH_MSG_TYPE_PORT_SEND s;
              (old, s2) = request_notification K p NOTIFY_DEAD_NAME (notification_port s1) s1
          in Inr (p, s2))"

text \<open>The body of the loop for \<^verbatim>\<open>MACH_MSG_TYPE_MOVE_RECEIVE\<close>.\<close>

definition transmit_receive :: "kernel \<Rightarrow> mach_port_t \<Rightarrow> netmsg \<Rightarrow> (mach_port_t \<times> netmsg) result" where
  "transmit_receive K p s =
     (if p = MACH_PORT_NULL \<or> p = MACH_PORT_DEAD then Inr (p, s)
      else
        let s1 = kcall (Move_member p (portset s)) s;
            (old, s2) = request_notification K p NOTIFY_NO_SENDERS p s1;
            s3 = (if old \<noteq> MACH_PORT_NULL then kcall (Mod_refs old RIGHT_SEND_ONCE (- 1)) s2 else s2)
        in case remote_ports_by_local s3 p of
          Some r \<Rightarrow> andThen (check_type p MACH_MSG_TYPE_PORT_SEND s3) (\<lambda>s3.
            let (old, s4) = request_notification K p NOTIFY_DEAD_NAME MACH_PORT_NULL s3;
                s5 = kcall (Mod_refs old RIGHT_SEND_ONCE (- 1)) s4;
                s6 = kcall (Mod_refs p RIGHT_SEND (- 1)) s5
            in Inr (NOT r, set_type p MACH_MSG_TYPE_PORT_RECEIVE s6))
        | None \<Rightarrow> Inr (p, set_type p MACH_MSG_TYPE_PORT_RECEIVE s3))"

text \<open>The body of the loop for \<^verbatim>\<open>MACH_MSG_TYPE_PORT_NAME\<close>.\<close>

definition transmit_name :: "mach_port_t \<Rightarrow> netmsg \<Rightarrow> (mach_port_t \<times> netmsg) result" where
  "transmit_name p s = Inr (case remote_ports_by_local s p of Some r \<Rightarrow> NOT r | None \<Rightarrow> p, s)"

text \<open>\<^verbatim>\<open>for (unsigned int i = 0; i < ptr.nelems(); i ++) ports[i] = ...\<close>\<close>

definition on_ports ::
  "'m mach_abi_scheme \<Rightarrow> (mach_port_t \<Rightarrow> netmsg \<Rightarrow> (mach_port_t \<times> netmsg) result) \<Rightarrow> msg_item \<Rightarrow> netmsg
    \<Rightarrow> (msg_item \<times> netmsg) result" where
  "on_ports A f it s =
     (let n = unat (nelems A (descr it)) in
      if length (payload it) < n then Inl (Out_of_range ''ports'')
      else andThen (map_state f (take n (payload it)) s)
        (\<lambda>(ps, s'). Inr (it\<lparr>payload := ps @ drop n (payload it)\<rparr>, s')))"

text \<open>
  One item. The case of receive rights has no \<^verbatim>\<open>break\<close>: it goes on with that of port names.
\<close>

definition transmit_item :: "kernel \<Rightarrow> bool \<Rightarrow> msg_item \<Rightarrow> netmsg \<Rightarrow> (msg_item \<times> netmsg) result" where
  "transmit_item K translatePortNames it s =
     (let nm = name K (descr it) in
      if nm = MACH_MSG_TYPE_MOVE_SEND then on_ports K (transmit_send K) it s
      else if nm = MACH_MSG_TYPE_MOVE_RECEIVE then
        andThen (on_ports K (transmit_receive K) it s) (\<lambda>(it', s').
          if translatePortNames then on_ports K transmit_name it' s' else Inr (it', s'))
      else if nm = MACH_MSG_TYPE_PORT_NAME \<and> translatePortNames then on_ports K transmit_name it s
      else Inr (it, s))"

definition translateForTransmission ::
  "kernel \<Rightarrow> bool \<Rightarrow> machMessage \<Rightarrow> netmsg \<Rightarrow> (machMessage \<times> netmsg) result" where
  "translateForTransmission K names m s =
     andThen (map_state (transmit_item K names) (items m) s) (\<lambda>(its, s'). Inr (m\<lparr>items := its\<rparr>, s'))"

section \<open>The handler of IPC messages\<close>

text \<open>The port that a DEAD NAME notification names.\<close>

definition notified_name :: "'m mach_abi_scheme \<Rightarrow> machMessage \<Rightarrow> mach_port_t result" where
  "notified_name A m =
     (case items m of [] \<Rightarrow> Inl (Out_of_range ''message'')
      | it # _ \<Rightarrow>
          if name A (descr it) \<noteq> MACH_MSG_TYPE_PORT_NAME then Inl (Assert_failed ''data.name() == MACH_MSG_TYPE_PORT_NAME'')
          else if nelems A (descr it) \<noteq> 1 then Inl (Assert_failed ''data.nelems() == 1'')
          else element A (OOLptr it) it 0)"

definition dead_name_local :: "mach_port_t \<Rightarrow> netmsg \<Rightarrow> netmsg result" where
  "dead_name_local p s =
     (let s1 = kcall (Mod_refs p RIGHT_DEAD_NAME (- 2)) s in
      case local_port_type s1 p of None \<Rightarrow> Inr s1
      | Some t \<Rightarrow> assert_that (t = MACH_MSG_TYPE_PORT_SEND) ''local_port_type[dead_name] == SEND'' (erase_type p s1))"

text \<open>
  The destination of the message, up to line 1242: the message with its new destination and the
  name that died, if any; \<open>None\<close> for a message that is discarded.
\<close>

definition ipc_destination ::
  "kernel \<Rightarrow> machMessage \<Rightarrow> netmsg \<Rightarrow> ((machMessage \<times> mach_port_t) option \<times> netmsg) result" where
  "ipc_destination K m s =
     (let p = msgh_local_port (hdr m) in
      if p = control s then Inr (Some (set_local_port MACH_PORT_CONTROL m, MACH_PORT_NULL), s)
      else if p = notification_port s then
        (if msgh_id (hdr m) = MSGID_DEAD_NAME then
           andThen (notified_name K m) (\<lambda>dead. andThen (dead_name_local dead s) (\<lambda>s'.
             Inr (Some (set_local_port MACH_PORT_CONTROL m, dead), s')))
         else if msgh_id (hdr m) = MSGID_PORT_DELETED \<or> msgh_id (hdr m) = MSGID_SEND_ONCE then
           Inr (Some (set_local_port MACH_PORT_CONTROL m, MACH_PORT_NULL), s)
         else Inl (Process_exit ''unknown notification msgid''))
      else case remote_ports_by_local s p of
        Some r \<Rightarrow> andThen (check_type p MACH_MSG_TYPE_PORT_RECEIVE s)
          (\<lambda>s. Inr (Some (set_local_port r m, MACH_PORT_NULL), s))
      | None \<Rightarrow> (case send_once_ports_by_local s p of
          Some r \<Rightarrow> Inr (Some (set_local_port r m, MACH_PORT_NULL),
            kcall (Mod_refs p RIGHT_RECEIVE (- 1)) (unmap_send_once r p s))
        | None \<Rightarrow> (case local_port_type s p of
            None \<Rightarrow> Inr (None, s)
          | Some t \<Rightarrow>
              Inr (Some (if t = MACH_MSG_TYPE_PORT_RECEIVE
                         then m\<lparr>hdr := (hdr m)\<lparr>msgh_bits := msgh_bits (hdr m) OR MACH_MSGH_BITS_REMOTE_TRANSLATE\<rparr>\<rparr>
                         else m, MACH_PORT_NULL), s))))"

definition no_senders_local :: "mach_port_t \<Rightarrow> netmsg \<Rightarrow> netmsg result" where
  "no_senders_local p s = andThen (check_type p MACH_MSG_TYPE_PORT_RECEIVE s)
     (\<lambda>s. Inr (unmap_port p (erase_type p (kcall (Mod_refs p RIGHT_RECEIVE (- 1)) s))))"

text \<open>\<^verbatim>\<open>os.write(msg.buffer, msg->msgh_size)\<close> and the out-of-line data.\<close>

definition transmit :: "kernel \<Rightarrow> machMessage \<Rightarrow> netmsg \<Rightarrow> netmsg" where
  "transmit K m s =
     transmitOOLdata K m (s\<lparr>os := os s @ take (unat (msgh_size (hdr m)) div 4) (buffer K m)\<rparr>)"

text \<open>The handler from line 1256 on, for a message that is not discarded.\<close>

definition relay_ipc :: "kernel \<Rightarrow> mach_port_t \<Rightarrow> machMessage \<times> mach_port_t \<Rightarrow> netmsg \<Rightarrow> netmsg result" where
  "relay_ipc K original_local_port = (\<lambda>(m, dead_name) s.
     andThen (if msgh_id (hdr m) = MSGID_NO_SENDERS then no_senders_local original_local_port s else Inr s) (\<lambda>s1.
     andThen (translateForTransmission K (dead_name \<noteq> MACH_PORT_NULL) m s1) (\<lambda>(m1, s2).
     let s3 = (if dead_name \<noteq> MACH_PORT_NULL \<and> remote_ports_by_local s2 dead_name \<noteq> None
               then unmap_port dead_name s2 else s2)
     in Inr (transmit K m1 s3))))"

definition ipcBufferHandler :: "kernel \<Rightarrow> machMessage \<Rightarrow> netmsg \<Rightarrow> netmsg result" where
  "ipcBufferHandler K msg s =
     (let original_local_port = msgh_local_port (hdr msg) in
      andThen (copyOOLdata K msg s) (\<lambda>(m, s1).
      andThen (ipc_destination K m s1) (\<lambda>(d, s2).
        case d of None \<Rightarrow> Inr s2 | Some md \<Rightarrow> relay_ipc K original_local_port md s2)))"

end
