(* ===== verification/Netmsg_Receive.thy ===== *)
theory Netmsg_Receive
  imports Netmsg_Transmit
begin

text \<open>
  From the network to the kernel: a message is read from the network stream, its ports are
  translated into the local name space and it is sent by IPC (\<^verbatim>\<open>translatePort2\<close>, \<^verbatim>\<open>swapHeader\<close>,
  \<^verbatim>\<open>translateHeader\<close>, \<^verbatim>\<open>translateMessage\<close>, \<^verbatim>\<open>tcpBufferHandler\<close>, \<^verbatim>\<open>receiveOOLdata\<close>, \<^verbatim>\<open>tcpHandler\<close> of
  \<open>src/netmsg/netmsg.cc\<close>).
\<close>

section \<open>Translation of a port\<close>

text \<open>
  Keep a send right to a receive right that is relayed: cancel the no-senders request, make a
  send right, ask for a dead-name notification. The code has these calls twice (lines 1625-1653
  and 1683-1709).
\<close>

definition keep_send_right :: "kernel \<Rightarrow> mach_port_t \<Rightarrow> netmsg \<Rightarrow> netmsg result" where
  "keep_send_right K p s =
     (let (old, s1) = request_notification K p NOTIFY_NO_SENDERS MACH_PORT_NULL s;
          s2 = kcall (Mod_refs old RIGHT_SEND_ONCE (- 1)) s1;
          s3 = kcall (Insert_right p MACH_MSG_TYPE_MAKE_SEND) s2;
          s4 = set_type p MACH_MSG_TYPE_PORT_SEND s3;
          (old, s5) = request_notification K p NOTIFY_DEAD_NAME (notification_port s4) s4
      in assert_that (old = MACH_PORT_NULL) ''old == MACH_PORT_NULL'' s5)"

text \<open>The port number has its high bit set: it is a flipped number of this side.\<close>

definition translate_own :: "kernel \<Rightarrow> mach_port_t \<Rightarrow> 32 word \<Rightarrow> netmsg \<Rightarrow> (mach_port_t \<times> netmsg) result" where
  "translate_own K port type s =
     (let newport = NOT port in
      if type = MACH_MSG_TYPE_MOVE_SEND then
        (let (t, m) = map_touch 0 (local_port_type s) newport;
             s1 = s\<lparr>local_port_type := m\<rparr>
         in Inr (newport, kcall (Insert_right newport
              (if t = MACH_MSG_TYPE_PORT_RECEIVE then MACH_MSG_TYPE_MAKE_SEND else MACH_MSG_TYPE_COPY_SEND)) s1))
      else if type = MACH_MSG_TYPE_MOVE_RECEIVE then
        andThen (check_type newport MACH_MSG_TYPE_PORT_RECEIVE s) (\<lambda>s.
        andThen (keep_send_right K newport s) (\<lambda>s'. Inr (newport, s')))
      else if type = MACH_MSG_TYPE_PORT_NAME then Inr (newport, s)
      else Inl (Process_exit ''unknown type translating port''))"

definition translate_receive :: "kernel \<Rightarrow> mach_port_t \<Rightarrow> netmsg \<Rightarrow> (mach_port_t \<times> netmsg) result" where
  "translate_receive K port s =
     (case local_ports_by_remote s port of
        Some localport \<Rightarrow>
          let (t, m) = map_touch 0 (local_port_type s) localport; s1 = s\<lparr>local_port_type := m\<rparr> in
          if t = MACH_MSG_TYPE_PORT_SEND then Inl (Process_exit ''Received RECEIVE port twice!?'')
          else andThen (keep_send_right K localport s1) (\<lambda>s'. Inr (localport, s'))
      | None \<Rightarrow>
          andThen (mach_port_allocate K s) (\<lambda>(newport, s1).
            let s2 = kcall (Insert_right newport MACH_MSG_TYPE_MAKE_SEND) s1;
                s3 = set_type newport MACH_MSG_TYPE_PORT_SEND (map_port port newport s2);
                (old, s4) = request_notification K newport NOTIFY_DEAD_NAME (notification_port s3) s3
            in assert_that (old = MACH_PORT_NULL) ''old == MACH_PORT_NULL'' (newport, s4)))"

definition translate_send :: "kernel \<Rightarrow> mach_port_t \<Rightarrow> netmsg \<Rightarrow> (mach_port_t \<times> netmsg) result" where
  "translate_send K port s =
     (case local_ports_by_remote s port of
        Some newport \<Rightarrow> andThen (check_type newport MACH_MSG_TYPE_PORT_RECEIVE s) (\<lambda>s.
          Inr (newport, kcall (Insert_right newport MACH_MSG_TYPE_MAKE_SEND) s))
      | None \<Rightarrow>
          andThen (mach_port_allocate K s) (\<lambda>(newport, s1).
            let s2 = kcall (Insert_right newport MACH_MSG_TYPE_MAKE_SEND) s1;
                (old, s3) = request_notification K newport NOTIFY_NO_SENDERS newport s2
            in andThen (assert_that (old = MACH_PORT_NULL) ''old == MACH_PORT_NULL'' s3) (\<lambda>s3.
               Inr (newport, set_type newport MACH_MSG_TYPE_PORT_RECEIVE
                      (map_port port newport (kcall (Move_member newport (portset s3)) s3))))))"

definition translate_send_once :: "kernel \<Rightarrow> mach_port_t \<Rightarrow> netmsg \<Rightarrow> (mach_port_t \<times> netmsg) result" where
  "translate_send_once K port s =
     (if send_once_ports_by_remote s port \<noteq> None then Inl (Assert_failed ''send_once_ports_by_remote.count(port) == 0'')
      else
        andThen (mach_port_allocate K s) (\<lambda>(newport, s1).
        let (sendonce_port, acquired_type) = extracts K s1 newport;
            s2 = kcall (Extract_right newport sendonce_port) s1
        in andThen (assert_that (acquired_type = MACH_MSG_TYPE_PORT_SEND_ONCE) ''acquired_type == SEND_ONCE'' s2) (\<lambda>s2.
           Inr (sendonce_port, map_send_once port newport (kcall (Move_member newport (portset s2)) s2)))))"

definition translatePort2 :: "kernel \<Rightarrow> mach_port_t \<Rightarrow> 32 word \<Rightarrow> netmsg \<Rightarrow> (mach_port_t \<times> netmsg) result" where
  "translatePort2 K port type s =
     (if port = MACH_PORT_NULL \<or> port = MACH_PORT_DEAD then Inr (port, s)
      else if port AND 0x80000000 \<noteq> 0 then translate_own K port type s
      else if type = MACH_MSG_TYPE_MOVE_RECEIVE then translate_receive K port s
      else if type = MACH_MSG_TYPE_COPY_SEND \<or> type = MACH_MSG_TYPE_MAKE_SEND \<or> type = MACH_MSG_TYPE_MOVE_SEND then
        translate_send K port s
      else if type = MACH_MSG_TYPE_MAKE_SEND_ONCE \<or> type = MACH_MSG_TYPE_MOVE_SEND_ONCE then
        translate_send_once K port s
      else if type = MACH_MSG_TYPE_PORT_NAME then
        Inr (case local_ports_by_remote s port of Some l \<Rightarrow> l | None \<Rightarrow> MACH_PORT_NULL, s)
      else Inl (Process_exit ''Unknown port type in translatePort''))"

section \<open>Translation of a message\<close>

text \<open>The types of the items whose ports are translated.\<close>

definition port_types :: "32 word list" where
  "port_types = [MACH_MSG_TYPE_MOVE_RECEIVE, MACH_MSG_TYPE_MOVE_SEND, MACH_MSG_TYPE_MOVE_SEND_ONCE,
     MACH_MSG_TYPE_COPY_SEND, MACH_MSG_TYPE_MAKE_SEND, MACH_MSG_TYPE_MAKE_SEND_ONCE]"

definition receive_item :: "kernel \<Rightarrow> bool \<Rightarrow> msg_item \<Rightarrow> netmsg \<Rightarrow> (msg_item \<times> netmsg) result" where
  "receive_item K translatePortNames it s =
     (let nm = name K (descr it) in
      if (nm = MACH_MSG_TYPE_PORT_NAME \<and> translatePortNames) \<or> nm \<in> set port_types
      then on_ports K (\<lambda>p. translatePort2 K p nm) it s
      else Inr (it, s))"

definition translateMessage :: "kernel \<Rightarrow> bool \<Rightarrow> machMessage \<Rightarrow> netmsg \<Rightarrow> (machMessage \<times> netmsg) result" where
  "translateMessage K names m s =
     andThen (map_state (receive_item K names) (items m) s) (\<lambda>(its, s'). Inr (m\<lparr>items := its\<rparr>, s'))"

section \<open>The header\<close>

definition swapHeader :: "machMessage \<Rightarrow> netmsg \<Rightarrow> machMessage" where
  "swapHeader m s =
     (let h = hdr m;
          this_type = MACH_MSGH_BITS_LOCAL (msgh_bits h);
          reply_type = MACH_MSGH_BITS_REMOTE (msgh_bits h);
          complex = msgh_bits h AND MACH_MSGH_BITS_COMPLEX;
          this_port = msgh_local_port h;
          reply_port = msgh_remote_port h;
          this_type = (if local_port_type s this_port \<noteq> None then MACH_MSG_TYPE_COPY_SEND else this_type)
      in m\<lparr>hdr := h\<lparr>msgh_local_port := reply_port, msgh_remote_port := this_port,
                     msgh_bits := complex OR MACH_MSGH_BITS this_type reply_type\<rparr>\<rparr>)"

text \<open>The destination, lines 1912-1946; \<open>None\<close> for a message that is discarded.\<close>

definition tcp_destination :: "machMessage \<Rightarrow> netmsg \<Rightarrow> machMessage option result" where
  "tcp_destination m s =
     (let p = msgh_local_port (hdr m) in
      if p = MACH_PORT_CONTROL then Inr (Some (set_local_port (first_port s) m))
      else if msgh_bits (hdr m) AND MACH_MSGH_BITS_REMOTE_TRANSLATE \<noteq> 0 then
        (case local_ports_by_remote s p of
           None \<Rightarrow> Inr None
         | Some l \<Rightarrow> andThen (check_type l MACH_MSG_TYPE_PORT_SEND s) (\<lambda>_.
             Inr (Some (m\<lparr>hdr := (hdr m)\<lparr>msgh_local_port := l,
               msgh_bits := msgh_bits (hdr m) AND NOT MACH_MSGH_BITS_REMOTE_TRANSLATE\<rparr>\<rparr>))))
      else Inr (Some m))"

text \<open>A NO SENDERS notification of the peer, for the send right \<open>p\<close>.\<close>

definition no_senders_remote :: "kernel \<Rightarrow> mach_port_t \<Rightarrow> netmsg \<Rightarrow> netmsg result" where
  "no_senders_remote K p s =
     (if local_port_type s p = None then Inr s
      else andThen (check_type p MACH_MSG_TYPE_PORT_SEND s) (\<lambda>s.
        let (old, s1) = request_notification K p NOTIFY_DEAD_NAME MACH_PORT_NULL s;
            s2 = (if old \<noteq> MACH_PORT_NULL then kcall (Mod_refs old RIGHT_SEND_ONCE (- 1)) s1 else s1);
            s3 = erase_type p (kcall (Mod_refs p RIGHT_SEND (- 1)) s2)
        in Inr (if remote_ports_by_local s3 p \<noteq> None then unmap_port p s3 else s3)))"

text \<open>A DEAD NAME notification of the peer, for the receive right \<open>p\<close>.\<close>

definition dead_name_remote :: "mach_port_t \<Rightarrow> netmsg \<Rightarrow> netmsg result" where
  "dead_name_remote p s =
     (if local_port_type s p = None then Inr s
      else andThen (check_type p MACH_MSG_TYPE_PORT_RECEIVE s) (\<lambda>s.
        let s1 = erase_type p (kcall (Mod_refs p RIGHT_RECEIVE (- 1)) s)
        in Inr (if remote_ports_by_local s1 p \<noteq> None then unmap_port p s1 else s1)))"

text \<open>The result is the translated message, or \<open>None\<close> where the code returns false.\<close>

definition translateHeader :: "kernel \<Rightarrow> machMessage \<Rightarrow> netmsg \<Rightarrow> (machMessage option \<times> netmsg) result" where
  "translateHeader K m s =
     (let local_type = MACH_MSGH_BITS_LOCAL (msgh_bits (hdr m));
          remote_type = MACH_MSGH_BITS_REMOTE (msgh_bits (hdr m)) in
      if local_type \<noteq> MACH_MSG_TYPE_PORT_SEND \<and> local_type \<noteq> MACH_MSG_TYPE_PORT_SEND_ONCE then
        Inl (Process_exit ''local_type != MACH_MSG_TYPE_PORT_SEND{_ONCE}'')
      else andThen (tcp_destination m s) (\<lambda>d. case d of None \<Rightarrow> Inr (None, s) | Some m1 \<Rightarrow>
        if msgh_id (hdr m1) = MSGID_NO_SENDERS then
          andThen (no_senders_remote K (msgh_local_port (hdr m1)) s) (\<lambda>s'. Inr (None, s'))
        else if msgh_id (hdr m1) = MSGID_DEAD_NAME \<and> msgh_local_port (hdr m1) = first_port s then
          andThen (notified_name K m1) (\<lambda>dead_name.
          andThen (dead_name_remote dead_name s) (\<lambda>s'. Inr (None, s')))
        else if remote_type = MACH_MSG_TYPE_PORT_SEND \<or> remote_type = MACH_MSG_TYPE_PORT_SEND_ONCE then
          andThen (translatePort2 K (msgh_remote_port (hdr m1)) remote_type s) (\<lambda>(p, s').
          Inr (Some (m1\<lparr>hdr := (hdr m1)\<lparr>msgh_remote_port := p\<rparr>\<rparr>), s'))
        else if remote_type = 0 then
          assert_that (msgh_remote_port (hdr m1) = MACH_PORT_NULL) ''remote_port == MACH_PORT_NULL'' (Some m1, s)
        else Inl (Process_exit ''Invalid port type in message header'')))"

definition tcpBufferHandler :: "kernel \<Rightarrow> machMessage \<Rightarrow> netmsg \<Rightarrow> netmsg result" where
  "tcpBufferHandler K msg s =
     andThen (translateMessage K (msgh_local_port (hdr msg) = MACH_PORT_CONTROL \<and> msgh_id (hdr msg) = MSGID_DEAD_NAME) msg s)
       (\<lambda>(m, s1). andThen (translateHeader K m s1) (\<lambda>(d, s2).
          case d of None \<Rightarrow> Inr s2 | Some m1 \<Rightarrow> Inr (kcall (Msg_send (swapHeader m1 s2)) s2)))"

section \<open>Reading from the network\<close>

text \<open>
  \<^verbatim>\<open>receiveOOLdata\<close>: fresh zeroed memory for each region, filled from the stream. Nothing tests
  whether the stream had enough.
\<close>

primrec receiveOOLdata :: "kernel \<Rightarrow> msg_item list \<Rightarrow> 32 word list \<Rightarrow> netmsg \<Rightarrow> msg_item list \<times> 32 word list \<times> netmsg" where
  "receiveOOLdata K [] is s = ([], is, s)"
| "receiveOOLdata K (it # its) is s =
     (if is_ool K it
      then (let n = data_longs K (descr it); a = vm_allocates K s;
                d = take n is @ replicate (n - length is) 0;
                (its', is', s') = receiveOOLdata K its (drop n is) (kcall (Vm_allocate a (data_size K (descr it))) s)
            in (it\<lparr>payload := d, OOLptr := a\<rparr> # its', is', s'))
      else (let (its', is', s') = receiveOOLdata K its is s in (it # its', is', s')))"

text \<open>
  One turn of the loop of \<^verbatim>\<open>tcpHandler\<close>: \<open>None\<close> when the stream has ended. A size below that of the
  header makes the length of the second read negative.
\<close>

definition tcp_receive ::
  "kernel \<Rightarrow> 32 word list \<Rightarrow> netmsg \<Rightarrow> ((machMessage \<times> 32 word list) option \<times> netmsg) result" where
  "tcp_receive K is s =
     (case read_header (take 6 is) of
        None \<Rightarrow> Inr (None, s)
      | Some h \<Rightarrow>
          if msgh_size h > max_size then Inl (Assert_failed ''msg->msgh_size <= msg.max_size'')
          else if msgh_size h < 24 then Inl (Out_of_range ''msgh_size - sizeof(mach_msg_header_t)'')
          else
            let n = unat (msgh_size h) div 4 - 6; body = take n (drop 6 is) in
            if length body < n then Inr (None, s)
            else andThen (parse_items K (uint (msgh_size h) - 24) body) (\<lambda>its.
              let (its', is', s') = receiveOOLdata K its (drop (6 + n) is) s
              in Inr (Some (\<lparr>hdr = h, items = its'\<rparr>, is'), s')))"

lemma receiveOOLdata_stream: "length (fst (snd (receiveOOLdata K its w s))) \<le> length w"
proof (induction its arbitrary: w s)
  case (Cons it its)
  have "length (fst (snd (receiveOOLdata K its (drop n w) t))) \<le> length w" for n t
    using Cons.IH [of "drop n w" t] by simp
  then show ?case using Cons.IH by (simp add: Let_def case_prod_beta)
qed simp

lemma read_header_Some: "read_header ws = Some h \<Longrightarrow> ws = header_longs h"
  by (erule read_header.elims) (auto simp: header_longs.simps)

lemma tcp_receive_shorter: "tcp_receive K w s = Inr (Some (m, w'), s') \<Longrightarrow> length w' < length w"
proof -
  assume r: "tcp_receive K w s = Inr (Some (m, w'), s')"
  then obtain h where h: "read_header (take 6 w) = Some h" by (auto simp: tcp_receive_def split: option.splits)
  then have "length (take 6 w) = 6" by (metis length_header_longs read_header_Some)
  then have "6 \<le> length w" by simp
  moreover from r h obtain its n where "w' = fst (snd (receiveOOLdata K its (drop (6 + n) w) s))"
    by (auto simp: tcp_receive_def Let_def case_prod_beta split: if_splits)
  then have "length w' \<le> length w - 6" using receiveOOLdata_stream [of K its "drop (6 + n) w" s] by simp
  ultimately show ?thesis by linarith
qed

text \<open>The messages of a stream, in the order in which \<^verbatim>\<open>tcpHandler\<close> puts them on the run queues.\<close>

function tcp_read_all :: "kernel \<Rightarrow> 32 word list \<Rightarrow> netmsg \<Rightarrow> (machMessage list \<times> netmsg) result" where
  "tcp_read_all K is s =
     (case tcp_receive K is s of
        Inl e \<Rightarrow> Inl e
      | Inr (None, s') \<Rightarrow> Inr ([], s')
      | Inr (Some (m, is'), s') \<Rightarrow> andThen (tcp_read_all K is' s') (\<lambda>(ms, s''). Inr (m # ms, s'')))"
  by pat_completeness auto
termination
  by (relation "measure (\<lambda>(K, is, s). length is)") (auto dest: tcp_receive_shorter)

declare tcp_read_all.simps [simp del]

end
