(* ===== verification/Netmsg_Tables.thy ===== *)
theory Netmsg_Tables
  imports Netmsg_Receive
begin

text \<open>
  The invariant of netmsg's tables of ports. \<open>tables_ok D s\<close>: the two tables that pair local and
  remote ports are inverse to each other, so are the two tables of send-once rights, no port is
  in both pairs, every paired local port has a recorded type (except those in \<open>D\<close>, which are
  about to be removed), and the names on both sides have their highest bit clear, so that a
  flipped number can be told from a plain one.

  The locale \<open>port_translation\<close> collects what is needed to lift a property of the state from the
  translation of one port to that of a message; it is interpreted on the invariant.
  \<open>netmsg_reachable\<close> are the states of a session.
\<close>

section \<open>Lifting to messages\<close>

locale port_translation =
  fixes K :: kernel and I :: "netmsg \<Rightarrow> bool"
  assumes I_transmit_send: "I s \<Longrightarrow> transmit_send K p s = Inr (q, s') \<Longrightarrow> I s'"
    and I_transmit_receive: "I s \<Longrightarrow> transmit_receive K p s = Inr (q, s') \<Longrightarrow> I s'"
    and I_translatePort2: "I s \<Longrightarrow> translatePort2 K p t s = Inr (q, s') \<Longrightarrow> I s'"
    and I_kcall: "I s \<Longrightarrow> I (kcall c s)"
begin

lemma I_on_ports:
  assumes "\<And>p s q s'. I s \<Longrightarrow> f p s = Inr (q, s') \<Longrightarrow> I s'" and "I s" and "on_ports A f it s = Inr (it', s')"
  shows "I s'"
proof -
  from assms(3) obtain ps where "map_state f (take (unat (nelems A (descr it))) (payload it)) s = Inr (ps, s')"
    by (auto simp: on_ports_def Let_def split: if_splits prod.splits)
  from map_state_invariant [where I = I, OF _ assms(2) this] assms(1) show ?thesis by blast
qed

lemma I_transmit_name: "I s \<Longrightarrow> transmit_name p s = Inr (q, s') \<Longrightarrow> I s'"
  by (simp add: transmit_name_def)

lemma I_transmit_item: "I s \<Longrightarrow> transmit_item K names it s = Inr (it', s') \<Longrightarrow> I s'"
  by (auto simp: transmit_item_def Let_def split: if_splits prod.splits
    intro: I_on_ports [OF I_transmit_send] I_on_ports [OF I_transmit_receive] I_on_ports [OF I_transmit_name])

lemma I_translateForTransmission:
  assumes "I s" and "translateForTransmission K names m s = Inr (m', s')"
  shows "I s'"
proof -
  from assms(2) obtain its where "map_state (transmit_item K names) (items m) s = Inr (its, s')"
    by (auto simp: translateForTransmission_def split: prod.splits)
  from map_state_invariant [where I = I, OF _ assms(1) this] I_transmit_item show ?thesis by blast
qed

lemma I_receive_item: "I s \<Longrightarrow> receive_item K names it s = Inr (it', s') \<Longrightarrow> I s'"
  by (auto simp: receive_item_def Let_def split: if_splits intro: I_on_ports [OF I_translatePort2])

lemma I_translateMessage:
  assumes "I s" and "translateMessage K names m s = Inr (m', s')"
  shows "I s'"
proof -
  from assms(2) obtain its where "map_state (receive_item K names) (items m) s = Inr (its, s')"
    by (auto simp: translateMessage_def split: prod.splits)
  from map_state_invariant [where I = I, OF _ assms(1) this] I_receive_item show ?thesis by blast
qed

lemma I_copyOOLdata:
  assumes "I s" and "copyOOLdata K m s = Inr (m', s')"
  shows "I s'"
proof -
  from assms(2) obtain its where its: "map_state (copyOOLitem K) (items m) s = Inr (its, s')"
    by (auto simp: copyOOLdata_def split: prod.splits)
  have step: "I s'" if "I s" "copyOOLitem K it s = Inr (it', s')" for it s it' s'
    using that by (auto simp: copyOOLitem_def Let_def I_kcall split: if_splits)
  from map_state_invariant [where I = I, OF _ assms(1) its] step show ?thesis by blast
qed

end

section \<open>The invariant\<close>

definition inverse :: "('a \<rightharpoonup> 'b) \<Rightarrow> ('b \<rightharpoonup> 'a) \<Rightarrow> bool" where
  "inverse f g \<longleftrightarrow> (\<forall>x y. f x = Some y \<longleftrightarrow> g y = Some x)"

lemma inverse_empty [simp]: "inverse Map.empty Map.empty"
  by (simp add: inverse_def)

lemma inverse_insert: "inverse f g \<Longrightarrow> f x = None \<Longrightarrow> g y = None \<Longrightarrow> inverse (f(x \<mapsto> y)) (g(y \<mapsto> x))"
  by (auto simp: inverse_def) (metis option.discI)+

lemma inverse_remove: "inverse f g \<Longrightarrow> f x = Some y \<Longrightarrow> inverse (f(x := None)) (g(y := None))"
  by (auto simp: inverse_def) (metis option.inject)

lemma inverseD: "inverse f g \<Longrightarrow> f x = Some y \<Longrightarrow> g y = Some x"
  by (simp add: inverse_def)

definition tables_ok :: "mach_port_t set \<Rightarrow> netmsg \<Rightarrow> bool" where
  "tables_ok D s \<longleftrightarrow>
     inverse (remote_ports_by_local s) (local_ports_by_remote s) \<and>
     inverse (send_once_ports_by_local s) (send_once_ports_by_remote s) \<and>
     dom (remote_ports_by_local s) \<inter> dom (send_once_ports_by_local s) = {} \<and>
     dom (remote_ports_by_local s) - D \<subseteq> dom (local_port_type s) \<and>
     (\<forall>r \<in> dom (local_ports_by_remote s). proper_name r) \<and>
     (\<forall>l \<in> dom (remote_ports_by_local s). proper_name l)"

lemma proper_name_nonzero: "proper_name p \<Longrightarrow> p \<noteq> MACH_PORT_NULL \<and> p \<noteq> MACH_PORT_DEAD"
  by (auto simp: proper_name_def)

lemma tables_ok_cong:
  "tables_ok D s \<Longrightarrow> remote_ports_by_local s' = remote_ports_by_local s \<Longrightarrow>
   local_ports_by_remote s' = local_ports_by_remote s \<Longrightarrow> local_port_type s' = local_port_type s \<Longrightarrow>
   send_once_ports_by_remote s' = send_once_ports_by_remote s \<Longrightarrow>
   send_once_ports_by_local s' = send_once_ports_by_local s \<Longrightarrow> tables_ok D s'"
  by (simp add: tables_ok_def is_known_def)

lemma tables_ok_kcall [simp]: "tables_ok D (kcall c s) = tables_ok D s"
  by (simp add: tables_ok_def is_known_def)

lemma tables_ok_set_type: "tables_ok D s \<Longrightarrow> tables_ok D (set_type p t s)"
  by (auto simp: tables_ok_def is_known_def)

lemma tables_ok_touch: "tables_ok D s \<Longrightarrow> map_touch 0 (local_port_type s) p = (t, m) \<Longrightarrow> tables_ok D (s\<lparr>local_port_type := m\<rparr>)"
  by (auto simp: tables_ok_def is_known_def map_touch_def split: option.splits)

lemma tables_ok_map_port:
  assumes "tables_ok D s" and "\<not> is_known s l" and "local_ports_by_remote s r = None"
    and "proper_name l" and "proper_name r"
  shows "tables_ok D (set_type l t (map_port r l s))"
  using assms inverse_insert [of "remote_ports_by_local s" "local_ports_by_remote s" l r]
  by (auto simp: tables_ok_def is_known_def domIff)

lemma tables_ok_map_send_once:
  assumes "tables_ok D s" and "\<not> is_known s l" and "send_once_ports_by_remote s r = None"
  shows "tables_ok D (map_send_once r l s)"
  using assms inverse_insert [of "send_once_ports_by_local s" "send_once_ports_by_remote s" l r]
  by (auto simp: tables_ok_def is_known_def domIff)

lemma tables_ok_unmap_send_once:
  "tables_ok D s \<Longrightarrow> send_once_ports_by_local s l = Some r \<Longrightarrow> tables_ok D (unmap_send_once r l s)"
  using inverse_remove [of "send_once_ports_by_local s" "send_once_ports_by_remote s" l r]
  by (auto simp: tables_ok_def is_known_def)

lemma tables_ok_unmap_port:
  assumes "tables_ok D s"
  shows "tables_ok (D - {l}) (unmap_port l s)"
proof (cases "remote_ports_by_local s l")
  case None
  have "local_ports_by_remote s MACH_PORT_NULL = None"
    using assms by (auto simp: tables_ok_def proper_name_def dom_def)
  then have "(local_ports_by_remote s)(MACH_PORT_NULL := None) = local_ports_by_remote s"
    "(remote_ports_by_local s)(l := None) = remote_ports_by_local s"
    using None by (auto simp: fun_upd_idem)
  with assms None show ?thesis by (auto simp: tables_ok_def is_known_def)
next
  case (Some r)
  with assms inverse_remove [of "remote_ports_by_local s" "local_ports_by_remote s" l r] show ?thesis
    by (auto simp: tables_ok_def is_known_def)
qed

lemma tables_ok_erase_type: "tables_ok D s \<Longrightarrow> tables_ok (insert p D) (erase_type p s)"
  by (auto simp: tables_ok_def is_known_def)

lemma tables_ok_unmapped: "tables_ok (insert p D) s \<Longrightarrow> remote_ports_by_local s p = None \<Longrightarrow> tables_ok D s"
  by (auto simp: tables_ok_def)

lemma tables_ok_mono: "tables_ok D s \<Longrightarrow> D \<subseteq> E \<Longrightarrow> tables_ok E s"
  by (auto simp: tables_ok_def)

lemma fresh_name: "names_fresh K \<Longrightarrow> allocates K s = Some p \<Longrightarrow> \<not> is_known s p \<and> proper_name p"
  by (simp add: names_fresh_def)

section \<open>One port\<close>

lemma tables_ok_transmit_send: "tables_ok D s \<Longrightarrow> transmit_send K p s = Inr (q, s') \<Longrightarrow> tables_ok D s'"
  by (auto simp: transmit_send_def Let_def tables_ok_set_type split: if_splits option.splits)

lemma tables_ok_transmit_receive: "tables_ok D s \<Longrightarrow> transmit_receive K p s = Inr (q, s') \<Longrightarrow> tables_ok D s'"
  by (auto simp: transmit_receive_def Let_def tables_ok_set_type split: if_splits option.splits)

lemma tables_ok_keep_send_right: "tables_ok D s \<Longrightarrow> keep_send_right K p s = Inr s' \<Longrightarrow> tables_ok D s'"
  by (auto simp: keep_send_right_def Let_def tables_ok_set_type)

lemma tables_ok_translate_own: "tables_ok D s \<Longrightarrow> translate_own K p t s = Inr (q, s') \<Longrightarrow> tables_ok D s'"
  by (auto simp: translate_own_def Let_def tables_ok_keep_send_right tables_ok_touch split: if_splits prod.splits)

lemma tables_ok_translate_receive:
  assumes "names_fresh K" and "tables_ok D s" and "proper_name p" and "translate_receive K p s = Inr (q, s')"
  shows "tables_ok D s'"
  using assms fresh_name [OF assms(1), of s]
  by (auto simp: translate_receive_def Let_def tables_ok_map_port
    split: if_splits option.splits prod.splits intro: tables_ok_keep_send_right tables_ok_touch)

lemma tables_ok_translate_send:
  assumes "names_fresh K" and "tables_ok D s" and "proper_name p" and "translate_send K p s = Inr (q, s')"
  shows "tables_ok D s'"
  using assms fresh_name [OF assms(1), of s]
  by (auto simp: translate_send_def Let_def tables_ok_map_port split: if_splits option.splits prod.splits)

lemma tables_ok_translate_send_once:
  assumes "names_fresh K" and "tables_ok D s" and "translate_send_once K p s = Inr (q, s')"
  shows "tables_ok D s'"
  using assms fresh_name [OF assms(1), of s]
  by (auto simp: translate_send_once_def Let_def case_prod_beta tables_ok_map_send_once split: if_splits)

lemma tables_ok_translatePort2:
  assumes "names_fresh K" and "tables_ok D s" and "translatePort2 K p t s = Inr (q, s')"
  shows "tables_ok D s'"
  using assms tables_ok_translate_own [OF assms(2)] tables_ok_translate_receive [OF assms(1,2)]
    tables_ok_translate_send [OF assms(1,2)] tables_ok_translate_send_once [OF assms(1,2)]
  by (auto simp: translatePort2_def proper_name_def split: if_splits)

section \<open>Handlers\<close>

interpretation tables: port_translation K "\<lambda>s. names_fresh K \<longrightarrow> tables_ok D s" for K D
  by unfold_locales (auto intro: tables_ok_transmit_send tables_ok_transmit_receive tables_ok_translatePort2)

lemmas tables_ok_translateForTransmission = tables.I_translateForTransmission [rule_format, rotated -1]
lemmas tables_ok_translateMessage = tables.I_translateMessage [rule_format, rotated -1]
lemmas tables_ok_copyOOLdata = tables.I_copyOOLdata [rule_format, rotated -1]

lemma tables_ok_forget:
  assumes "tables_ok D s"
  shows "tables_ok D (unmap_port p (erase_type p s))"
  using tables_ok_unmap_port [OF tables_ok_erase_type [OF assms, of p], of p] by (auto intro: tables_ok_mono)

lemma tables_ok_erase_unmapped:
  "tables_ok D s \<Longrightarrow> remote_ports_by_local s p = None \<Longrightarrow> tables_ok D (erase_type p s)"
  using tables_ok_unmapped [OF tables_ok_erase_type, of D s p] by simp

lemma tables_ok_no_senders_remote: "tables_ok {} s \<Longrightarrow> no_senders_remote K p s = Inr s' \<Longrightarrow> tables_ok {} s'"
  by (auto simp: no_senders_remote_def Let_def tables_ok_forget tables_ok_erase_unmapped split: if_splits)

lemma tables_ok_dead_name_remote: "tables_ok {} s \<Longrightarrow> dead_name_remote p s = Inr s' \<Longrightarrow> tables_ok {} s'"
  by (auto simp: dead_name_remote_def Let_def tables_ok_forget tables_ok_erase_unmapped split: if_splits)

lemma tables_ok_translateHeader:
  assumes "names_fresh K" and "tables_ok {} s" and "translateHeader K m s = Inr (d, s')"
  shows "tables_ok {} s'"
  using assms tables_ok_no_senders_remote [OF assms(2)] tables_ok_dead_name_remote [OF assms(2)]
    tables_ok_translatePort2 [OF assms(1,2)]
  by (auto simp: translateHeader_def Let_def split: if_splits option.splits prod.splits)

lemma tables_ok_tcpBufferHandler:
  assumes "names_fresh K" and "tables_ok {} s" and "tcpBufferHandler K m s = Inr s'"
  shows "tables_ok {} s'"
proof -
  from assms(3) obtain names m1 s1 d s2
    where t: "translateMessage K names m s = Inr (m1, s1)" "translateHeader K m1 s1 = Inr (d, s2)"
      and s': "s' = s2 \<or> (\<exists>c. s' = kcall c s2)"
    by (auto simp: tcpBufferHandler_def split: option.splits prod.splits) blast+
  have "tables_ok {} s2"
    by (rule tables_ok_translateHeader [OF assms(1) tables_ok_translateMessage [OF assms(1,2) t(1)] t(2)])
  with s' show ?thesis by auto
qed

lemma tables_ok_transmit: "tables_ok D s \<Longrightarrow> tables_ok D (transmit K m s)"
proof -
  have "tables_ok D s \<Longrightarrow> tables_ok D (fold (transmitOOLitem K) its s)" for its s
  proof (induction its arbitrary: s)
    case (Cons it its)
    have "tables_ok D (transmitOOLitem K it s)"
      using Cons.prems by (auto simp: transmitOOLitem_def intro: tables_ok_cong)
    with Cons.IH show ?case by simp
  qed simp
  moreover assume "tables_ok D s"
  moreover from this have "tables_ok D (s\<lparr>os := w\<rparr>)" for w by (rule tables_ok_cong) simp_all
  ultimately show ?thesis by (simp add: transmit_def transmitOOLdata_def)
qed

lemma tables_ok_dead_name_local: "tables_ok {} s \<Longrightarrow> dead_name_local p s = Inr s' \<Longrightarrow> tables_ok {p} s'"
  using tables_ok_erase_type [of "{}" "kcall c s" p for c] tables_ok_mono [of "{}" s "{p}"]
  by (auto simp: dead_name_local_def Let_def split: option.splits)

lemma tables_ok_null: "tables_ok {MACH_PORT_NULL} s \<Longrightarrow> tables_ok {} s"
  by (rule tables_ok_unmapped) (auto simp: tables_ok_def proper_name_def dom_def)

lemma tables_ok_ipc_destination:
  assumes "tables_ok {} s" and "ipc_destination K m s = Inr (d, s')"
  shows "case d of None \<Rightarrow> tables_ok {} s' | Some (m', dead) \<Rightarrow> tables_ok (if dead = MACH_PORT_NULL then {} else {dead}) s'"
  using assms tables_ok_dead_name_local [OF assms(1)] tables_ok_unmap_send_once [OF assms(1)]
  by (auto simp: ipc_destination_def Let_def intro: tables_ok_null split: if_splits option.splits)

lemma tables_ok_no_senders_local: "tables_ok D s \<Longrightarrow> no_senders_local p s = Inr s' \<Longrightarrow> tables_ok D s'"
  by (auto simp: no_senders_local_def tables_ok_forget)

lemma tables_ok_ipcBufferHandler:
  assumes "names_fresh K" and "tables_ok {} s" and "ipcBufferHandler K m s = Inr s'"
  shows "tables_ok {} s'"
proof -
  from assms(3) obtain m1 s1 d s2 where c: "copyOOLdata K m s = Inr (m1, s1)" "ipc_destination K m1 s1 = Inr (d, s2)"
    and rest: "(case d of None \<Rightarrow> Inr s2 | Some md \<Rightarrow> relay_ipc K (msgh_local_port (hdr m)) md s2) = Inr s'"
    by (auto simp: ipcBufferHandler_def Let_def)
  note d = tables_ok_ipc_destination [OF tables_ok_copyOOLdata [OF assms(1,2) c(1)] c(2)]
  show ?thesis
  proof (cases d)
    case None
    with rest d show ?thesis by simp
  next
    case (Some md)
    obtain m2 dead where md: "md = (m2, dead)" by (cases md)
    let ?D = "if dead = MACH_PORT_NULL then {} else {dead}"
    from rest have "relay_ipc K (msgh_local_port (hdr m)) (m2, dead) s2 = Inr s'" by (simp add: Some md)
    then obtain s3 m3 s4
      where "(if msgh_id (hdr m2) = MSGID_NO_SENDERS then no_senders_local (msgh_local_port (hdr m)) s2 else Inr s2) = Inr s3"
      and 4: "translateForTransmission K (dead \<noteq> MACH_PORT_NULL) m2 s3 = Inr (m3, s4)"
      and s': "s' = transmit K m3 (if dead \<noteq> MACH_PORT_NULL \<and> remote_ports_by_local s4 dead \<noteq> None then unmap_port dead s4 else s4)"
      by (auto simp only: relay_ipc_def prod.case andThen_Inr_iff Let_def split_paired_Ex sum.inject)
    from this(1) have 3: "s3 = s2 \<or> no_senders_local (msgh_local_port (hdr m)) s2 = Inr s3" by (auto split: if_splits)
    from d Some md have "tables_ok ?D s2" by simp
    with 3 have "tables_ok ?D s3" by (auto dest: tables_ok_no_senders_local)
    with assms(1) have t: "tables_ok ?D s4" using 4 by (rule tables_ok_translateForTransmission)
    have "tables_ok {} (if dead \<noteq> MACH_PORT_NULL \<and> remote_ports_by_local s4 dead \<noteq> None then unmap_port dead s4 else s4)"
      using t tables_ok_unmap_port [of "{dead}" s4 dead] tables_ok_unmapped [of dead "{}" s4] by (auto split: if_splits)
    then show ?thesis unfolding s' by (rule tables_ok_transmit)
  qed
qed

section \<open>Sessions\<close>

inductive netmsg_step :: "kernel \<Rightarrow> netmsg \<Rightarrow> netmsg \<Rightarrow> bool" for K where
  ipc: "ipcBufferHandler K m s = Inr s' \<Longrightarrow> netmsg_step K s s'"
| tcp: "tcp_receive K w s = Inr (Some (m, w'), s1) \<Longrightarrow> tcpBufferHandler K m s1 = Inr s' \<Longrightarrow> netmsg_step K s s'"

inductive netmsg_reachable :: "kernel \<Rightarrow> netmsg \<Rightarrow> bool" for K where
  start: "andThen (new_netmsg K serverMode c) (ipcHandler_start K) = Inr s \<Longrightarrow> netmsg_reachable K s"
| step: "netmsg_reachable K s \<Longrightarrow> netmsg_step K s s' \<Longrightarrow> netmsg_reachable K s'"

lemma receiveOOLdata_tables: "tables_ok D s \<Longrightarrow> tables_ok D (snd (snd (receiveOOLdata K its w s)))"
  by (induction its arbitrary: w s) (auto simp: Let_def case_prod_beta)

lemma tables_ok_start: "new_netmsg K serverMode c = Inr s0 \<Longrightarrow> ipcHandler_start K s0 = Inr s \<Longrightarrow> tables_ok {} s"
  by (auto simp: ipcHandler_start_def new_netmsg_def empty_session_def tables_ok_def Let_def split: if_splits)

lemma tables_ok_step: "netmsg_step K s s' \<Longrightarrow> names_fresh K \<Longrightarrow> tables_ok {} s \<Longrightarrow> tables_ok {} s'"
proof (induction rule: netmsg_step.induct)
  case (ipc m s s')
  then show ?case by (auto intro: tables_ok_ipcBufferHandler)
next
  case (tcp w s m w' s1 s')
  from tcp have "tables_ok {} s1"
    by (auto simp: tcp_receive_def Let_def case_prod_beta intro: receiveOOLdata_tables split: option.splits if_splits)
  with tcp show ?case by (auto intro: tables_ok_tcpBufferHandler)
qed

lemma tables_ok_reachable: "netmsg_reachable K s \<Longrightarrow> names_fresh K \<Longrightarrow> tables_ok {} s"
  by (induction rule: netmsg_reachable.induct) (auto intro: tables_ok_start tables_ok_step)

end
