(* ===== verification/Netmsg_Wire.thy ===== *)
theory Netmsg_Wire
  imports Netmsg_Tables
begin

text \<open>
  The network stream. \<open>wire\<close> is what a message is on the network: its buffer, followed by its
  out-of-line data in the order of the items. What \<^verbatim>\<open>ipcBufferHandler\<close> writes, \<^verbatim>\<open>tcpHandler\<close> reads
  back: messages keep their headers, descriptors and data, only the addresses of the
  out-of-line data are those of the reader.
\<close>

definition ool_data :: "'m mach_abi_scheme \<Rightarrow> msg_item \<Rightarrow> 32 word list" where
  "ool_data A it = (if is_ool A it then payload it else [])"

definition wire :: "'m mach_abi_scheme \<Rightarrow> machMessage \<Rightarrow> 32 word list" where
  "wire A m = buffer A m @ concat (map (ool_data A) (items m))"

definition same_item :: "'m mach_abi_scheme \<Rightarrow> msg_item \<Rightarrow> msg_item \<Rightarrow> bool" where
  "same_item A it it' \<longleftrightarrow> descr it' = descr it \<and> payload it' = payload it \<and>
     (is_inline A (descr it) \<longrightarrow> OOLptr it' = OOLptr it)"

definition same_message :: "'m mach_abi_scheme \<Rightarrow> machMessage \<Rightarrow> machMessage \<Rightarrow> bool" where
  "same_message A m m' \<longleftrightarrow> hdr m' = hdr m \<and> list_all2 (same_item A) (items m) (items m')"

lemma message_ok_size: "message_ok A m \<Longrightarrow> unat (msgh_size (hdr m)) = 4 * length (buffer A m)"
proof -
  assume "message_ok A m"
  then have "int (unat (msgh_size (hdr m))) = int (4 * length (buffer A m))" by (simp add: message_ok_def)
  then show ?thesis by (simp only: of_nat_eq_iff)
qed

lemma os_transmitOOLdata: "os (fold (transmitOOLitem K) its s) = os s @ concat (map (ool_data K) its)"
  by (induction its arbitrary: s) (auto simp: transmitOOLitem_def ool_data_def)

lemma os_transmit: "message_ok K m \<Longrightarrow> os (transmit K m s) = os s @ wire K m"
  by (simp add: transmit_def transmitOOLdata_def os_transmitOOLdata wire_def message_ok_size)

lemma receiveOOLdata_wire:
  "list_all (item_ok K) its \<Longrightarrow>
   \<exists>its' t'. receiveOOLdata K (map (in_buffer K) its) (concat (map (ool_data K) its) @ rest) t = (its', rest, t') \<and>
     list_all2 (same_item K) its its'"
proof (induction its arbitrary: t)
  case Nil
  then show ?case by simp
next
  case (Cons it its)
  have size: "length (payload it) = data_longs K (descr it)" using Cons.prems by (simp add: item_ok_def)
  have ool: "is_ool K (in_buffer K it) = is_ool K it" by (simp add: is_ool_def)
  show ?case
  proof (cases "is_ool K it")
    case True
    then have "in_buffer K it = it\<lparr>payload := []\<rparr>" by (simp add: in_buffer_def is_ool_def)
    moreover obtain its' t' where
      "receiveOOLdata K (map (in_buffer K) its) (concat (map (ool_data K) its) @ rest)
         (kcall (Vm_allocate (vm_allocates K t) (data_size K (descr it))) t) = (its', rest, t')"
      "list_all2 (same_item K) its its'"
      using Cons.IH Cons.prems by fastforce
    moreover have "same_item K it (it\<lparr>OOLptr := a\<rparr>)" for a using True by (simp add: same_item_def is_ool_def)
    moreover have "ool_data K it = payload it" using True by (simp add: ool_data_def)
    ultimately show ?thesis using True size ool by (simp add: Let_def)
  next
    case False
    have "same_item K it (in_buffer K it)"
      using False size data_size_aligned [of K "descr it"]
      by (auto simp: same_item_def in_buffer_def is_ool_def word_gt_0 unat_eq_0)
    moreover obtain its' t' where
      "receiveOOLdata K (map (in_buffer K) its) (concat (map (ool_data K) its) @ rest) t = (its', rest, t')"
      "list_all2 (same_item K) its its'"
      using Cons.IH Cons.prems by fastforce
    moreover have "ool_data K it = []" using False by (simp add: ool_data_def)
    ultimately show ?thesis using False ool by (simp add: Let_def)
  qed
qed

lemma tcp_receive_wire:
  assumes ok: "message_ok K m"
  shows "\<exists>m' t'. tcp_receive K (wire K m @ rest) t = Inr (Some (m', rest), t') \<and> same_message K m m'"
proof -
  let ?body = "concat (map (item_longs K) (items m))" let ?ool = "concat (map (ool_data K) (items m))"
  have w: "wire K m @ rest = header_longs (hdr m) @ ?body @ ?ool @ rest" by (simp add: wire_def buffer_def)
  have size: "unat (msgh_size (hdr m)) = 4 * (6 + length ?body)"
    using message_ok_size [OF ok] by (simp add: buffer_def)
  then have n: "unat (msgh_size (hdr m)) div 4 - 6 = length ?body" by simp
  have u: "uint (msgh_size (hdr m)) - 24 = 4 * int (length ?body)" using size by (simp add: uint_nat)
  have "\<not> msgh_size (hdr m) < 24" using size by (simp add: word_less_nat_alt)
  moreover have "\<not> max_size < msgh_size (hdr m)" using ok by (simp add: message_ok_def not_less)
  moreover have its: "list_all (item_ok K) (items m)" using ok by (simp add: message_ok_def)
  moreover have "parse_items K (4 * int (length ?body)) ?body = Inr (map (in_buffer K) (items m))"
    using parse_items_longs [OF its, of "[]"] by simp
  moreover obtain its' t' where "receiveOOLdata K (map (in_buffer K) (items m)) (?ool @ rest) t = (its', rest, t')"
    "list_all2 (same_item K) (items m) its'" using receiveOOLdata_wire [OF its] by blast
  ultimately show ?thesis
    unfolding tcp_receive_def w by (simp add: n u same_message_def Let_def)
qed

lemma tcp_receive_end: "tcp_receive K [] t = Inr (None, t)"
  by (simp add: tcp_receive_def)

lemma tcp_read_all_wire:
  "list_all (message_ok K) ms \<Longrightarrow>
   \<exists>ms' t'. tcp_read_all K (concat (map (wire K) ms)) t = Inr (ms', t') \<and> list_all2 (same_message K) ms ms'"
proof (induction ms arbitrary: t)
  case Nil
  then show ?case by (simp add: tcp_read_all.simps tcp_receive_end)
next
  case (Cons m ms)
  from Cons.prems obtain m' t1 where m':
    "tcp_receive K (wire K m @ concat (map (wire K) ms)) t = Inr (Some (m', concat (map (wire K) ms)), t1)" "same_message K m m'"
    using tcp_receive_wire by fastforce
  from Cons.IH [of t1] Cons.prems obtain ms' t' where
    "tcp_read_all K (concat (map (wire K) ms)) t1 = Inr (ms', t')" "list_all2 (same_message K) ms ms'" by auto
  with m' show ?case by (subst tcp_read_all.simps) simp
qed

end
