(* ===== verification/Netmsg_Relay.thy ===== *)
theory Netmsg_Relay
  imports Netmsg_Wire
begin

text \<open>
  Two sessions at work: what one side transmits, read from the network and handled by the other.
  The two sides may have different kernels; they share the layout of messages (\<open>same_abi\<close>).

  \<^item> \<open>copyin_ok\<close>: \<^verbatim>\<open>hurd_safe_copyin\<close> copies memory that can be read. It is assumed where the data of
    a message are followed from one side to the other.
  \<^item> \<open>plain\<close> messages carry no ports in their data.
\<close>

definition same_abi :: "kernel \<Rightarrow> kernel \<Rightarrow> bool" where
  "same_abi A B \<longleftrightarrow> mach_abi.truncate A = mach_abi.truncate B"

definition copyin_ok :: "kernel \<Rightarrow> bool" where
  "copyin_ok K \<longleftrightarrow> (\<forall>s it. copyin K s it = payload it)"

definition plain :: "'m mach_abi_scheme \<Rightarrow> machMessage \<Rightarrow> bool" where
  "plain A m \<longleftrightarrow> list_all (\<lambda>it. name A (descr it) \<notin> set port_types) (items m)"

definition same_tables :: "netmsg \<Rightarrow> netmsg \<Rightarrow> bool" where
  "same_tables s s' \<longleftrightarrow>
     first_port s' = first_port s \<and> portset s' = portset s \<and> notification_port s' = notification_port s \<and>
     control s' = control s \<and> local_ports_by_remote s' = local_ports_by_remote s \<and>
     remote_ports_by_local s' = remote_ports_by_local s \<and> local_port_type s' = local_port_type s \<and>
     send_once_ports_by_remote s' = send_once_ports_by_remote s \<and>
     send_once_ports_by_local s' = send_once_ports_by_local s"

lemma same_tables_refl [simp]: "same_tables s s"
  by (simp add: same_tables_def)

lemma same_tables_kcall [simp]: "same_tables s (kcall c s') = same_tables s s'"
  by (simp add: same_tables_def)

lemma same_tables_trans: "same_tables s s' \<Longrightarrow> same_tables s' s'' \<Longrightarrow> same_tables s s''"
  by (simp add: same_tables_def)

section \<open>Steps that leave the tables alone\<close>

lemma copyOOLdata_same:
  assumes "copyin_ok K" and "list_all (item_ok K) (items m)"
  shows "\<exists>m' s'. copyOOLdata K m s = Inr (m', s') \<and> hdr m' = hdr m \<and> list_all2 (same_item K) (items m) (items m') \<and>
    list_all (item_ok K) (items m') \<and> same_tables s s' \<and> os s' = os s"
proof -
  have "\<exists>its' s'. map_state (copyOOLitem K) its s = Inr (its', s') \<and> list_all2 (same_item K) its its' \<and>
    list_all (item_ok K) its' \<and> same_tables s s' \<and> os s' = os s" if "list_all (item_ok K) its" for its
    using that
  proof (induction its arbitrary: s)
    case (Cons it its)
    obtain it' s1 where 1: "copyOOLitem K it s = Inr (it', s1)" "same_item K it it'" "item_ok K it'"
      "same_tables s s1" "os s1 = os s"
      using assms(1) Cons.prems
      by (cases "is_ool K it") (auto simp: copyOOLitem_def Let_def copyin_ok_def same_item_def item_ok_def is_ool_def)
    from Cons.IH [of s1] Cons.prems obtain its' s' where "map_state (copyOOLitem K) its s1 = Inr (its', s')"
      "list_all2 (same_item K) its its'" "list_all (item_ok K) its'" "same_tables s1 s'" "os s' = os s1" by auto
    with 1 show ?case by (auto intro: same_tables_trans)
  qed simp
  from this [OF assms(2)] show ?thesis by (auto simp: copyOOLdata_def)
qed

lemma same_item_names: "list_all2 (same_item A) its its' \<Longrightarrow> map descr its' = map descr its"
  by (induction rule: list_all2_induct) (auto simp: same_item_def)

lemma plain_cong: "map descr (items m') = map descr (items m) \<Longrightarrow> plain A m' = plain A m"
  unfolding plain_def list_all_length
  by (metis (mono_tags, lifting) length_map nth_map)

lemma map_state_id: "(\<And>x. x \<in> set xs \<Longrightarrow> f x s = Inr (x, s)) \<Longrightarrow> map_state f xs s = Inr (xs, s)"
  by (induction xs) auto

lemma translateForTransmission_plain: "plain K m \<Longrightarrow> translateForTransmission K False m s = Inr (m, s)"
  using map_state_id [of "items m" "transmit_item K False" s]
  by (auto simp: translateForTransmission_def plain_def transmit_item_def Let_def port_types_def list_all_iff)

lemma translateMessage_plain: "plain K m \<Longrightarrow> translateMessage K False m s = Inr (m, s)"
  using map_state_id [of "items m" "receive_item K False" s]
  by (auto simp: translateMessage_def plain_def receive_item_def Let_def list_all_iff)

lemma length_buffer: "list_all2 (same_item A) (items m) (items m') \<Longrightarrow> length (buffer A m') = length (buffer A m)"
proof -
  have "list_all2 (same_item A) its its' \<Longrightarrow>
    length (concat (map (item_longs A) its')) = length (concat (map (item_longs A) its))" for its its'
    by (induction rule: list_all2_induct) (auto simp: same_item_def item_longs_def)
  then show "list_all2 (same_item A) (items m) (items m') \<Longrightarrow> length (buffer A m') = length (buffer A m)"
    by (simp add: buffer_def)
qed

lemma transmit_same_tables: "same_tables s (transmit K m s)"
proof -
  have "same_tables s (fold (transmitOOLitem K) its s)" for its s
  proof (induction its arbitrary: s)
    case (Cons it its)
    have "same_tables s (transmitOOLitem K it s)" by (simp add: transmitOOLitem_def same_tables_def)
    with Cons.IH show ?case by (auto intro: same_tables_trans)
  qed simp
  then show ?thesis unfolding transmit_def transmitOOLdata_def
    by (rule same_tables_trans [rotated]) (simp add: same_tables_def)
qed

section \<open>A plain message through IPC and the network\<close>

lemma ipcBufferHandler_plain:
  assumes "copyin_ok K" and ok: "message_ok K m" and "plain K m"
    and dest: "\<And>m1 s1. hdr m1 = hdr m \<Longrightarrow> same_tables s s1 \<Longrightarrow>
      ipc_destination K m1 s1 = Inr (Some (m1\<lparr>hdr := h\<rparr>, MACH_PORT_NULL), g s1)"
    and h: "msgh_size h = msgh_size (hdr m)" "msgh_id h = msgh_id (hdr m)"
  shows "\<exists>m' s1. ipcBufferHandler K m s = andThen
      (if msgh_id h = MSGID_NO_SENDERS then no_senders_local (msgh_local_port (hdr m)) (g s1) else Inr (g s1))
      (\<lambda>s2. Inr (transmit K m' s2)) \<and>
    message_ok K m' \<and> plain K m' \<and> hdr m' = h \<and> list_all2 (same_item K) (items m) (items m') \<and> same_tables s s1 \<and> os s1 = os s"
proof -
  from copyOOLdata_same [OF assms(1), of m s] ok obtain m1 s1 where 1: "copyOOLdata K m s = Inr (m1, s1)"
    "hdr m1 = hdr m" "list_all2 (same_item K) (items m) (items m1)" "list_all (item_ok K) (items m1)"
    "same_tables s s1" "os s1 = os s" by (auto simp: message_ok_def)
  let ?m = "m1\<lparr>hdr := h\<rparr>"
  have p: "plain K ?m" using assms(3) plain_cong [of ?m m K] same_item_names [OF 1(3)] by simp
  have "message_ok K ?m"
    using ok 1(4) h length_buffer [of K m ?m] 1(3) by (simp add: message_ok_def)
  moreover have "ipcBufferHandler K m s = relay_ipc K (msgh_local_port (hdr m)) (?m, MACH_PORT_NULL) (g s1)"
    using 1 dest [OF 1(2,5)] by (simp add: ipcBufferHandler_def Let_def)
  ultimately show ?thesis
    using 1 p by (intro exI [of _ ?m] exI [of _ s1]) (simp add: relay_ipc_def translateForTransmission_plain)
qed

lemma tcpBufferHandler_plain:
  assumes "plain K m" and "MACH_MSGH_BITS_LOCAL (msgh_bits (hdr m)) \<in> {MACH_MSG_TYPE_PORT_SEND, MACH_MSG_TYPE_PORT_SEND_ONCE}"
    and "MACH_MSGH_BITS_REMOTE (msgh_bits (hdr m)) = 0" and "msgh_remote_port (hdr m) = MACH_PORT_NULL"
    and "msgh_id (hdr m) \<notin> {MSGID_NO_SENDERS, MSGID_DEAD_NAME}"
    and "tcp_destination m s = Inr (Some (m\<lparr>hdr := h\<rparr>))"
    and "msgh_id h = msgh_id (hdr m)" and "msgh_remote_port h = msgh_remote_port (hdr m)"
  shows "tcpBufferHandler K m s = Inr (kcall (Msg_send (swapHeader (m\<lparr>hdr := h\<rparr>) s)) s)"
  using assms by (auto simp: tcpBufferHandler_def translateMessage_plain translateHeader_def Let_def)

lemma same_abi_simps:
  assumes "same_abi A B"
  shows "is_inline A = is_inline B" "name A = name B" "data_size A = data_size B" "message_ok A = message_ok B"
    "wire A = wire B" "plain A = plain B" "same_item A = same_item B" "same_message A = same_message B"
proof -
  have f: "msgt_inline A = msgt_inline B" "msgt_name A = msgt_name B" "msgt_number A = msgt_number B"
    "msgt_size A = msgt_size B" "msgt_longform A = msgt_longform B" "msgtl_name A = msgtl_name B"
    "msgtl_number A = msgtl_number B" "msgtl_size A = msgtl_size B"
    using assms by (simp_all add: same_abi_def mach_abi.truncate_def)
  show i: "is_inline A = is_inline B" by (rule ext) (simp add: is_inline_def f)
  show n: "name A = name B" by (rule ext, rename_tac d, case_tac d) (simp_all add: f)
  have ne: "nelems A = nelems B" by (rule ext, rename_tac d, case_tac d) (simp_all add: f)
  have es: "elemsize_bits A = elemsize_bits B" by (rule ext, rename_tac d, case_tac d) (simp_all add: f)
  show d: "data_size A = data_size B" by (rule ext) (simp add: data_size_def ne es)
  have l: "item_longs A = item_longs B" by (rule ext) (simp add: item_longs_def i)
  have b: "buffer A = buffer B" by (rule ext) (simp add: buffer_def l)
  have "item_ok A = item_ok B" by (rule ext) (simp add: item_ok_def descriptor_ok_def data_longs_def f i d)
  then show "message_ok A = message_ok B" by (intro ext) (simp add: message_ok_def b)
  have "ool_data A = ool_data B" by (rule ext) (simp add: ool_data_def is_ool_def i d)
  then show "wire A = wire B" by (intro ext) (simp add: wire_def b)
  show "plain A = plain B" by (rule ext) (simp add: plain_def n)
  show si: "same_item A = same_item B" by (intro ext) (simp add: same_item_def i)
  show "same_message A = same_message B" by (intro ext) (simp add: same_message_def si)
qed

section \<open>Both sides\<close>

lemma receiveOOLdata_same_tables: "same_tables s (snd (snd (receiveOOLdata K its w s)))"
proof (induction its arbitrary: w s)
  case (Cons it its)
  have "same_tables s (snd (snd (receiveOOLdata K its w' (kcall c s))))" for w' c
    using Cons.IH [of "kcall c s" w'] by (rule same_tables_trans [rotated]) simp
  with Cons.IH show ?case by (simp add: Let_def case_prod_beta)
qed simp

lemma tcp_receive_same_tables: "tcp_receive K w s = Inr (r, s') \<Longrightarrow> same_tables s s'"
  using receiveOOLdata_same_tables
  by (auto simp: tcp_receive_def Let_def case_prod_beta split: option.splits if_splits)

text \<open>
  A plain message without a reply port, from the network to the final send: \<open>h'\<close> is the header that
  the receiver gives it.
\<close>

lemma deliver_plain:
  assumes K: "same_abi KA KB" and m: "message_ok KB m" "plain KB m"
    and h: "msgh_id (hdr m) \<notin> {MSGID_NO_SENDERS, MSGID_DEAD_NAME}"
      "MACH_MSGH_BITS_LOCAL (msgh_bits (hdr m)) \<in> {MACH_MSG_TYPE_PORT_SEND, MACH_MSG_TYPE_PORT_SEND_ONCE}"
      "MACH_MSGH_BITS_REMOTE (msgh_bits (hdr m)) = 0" "msgh_remote_port (hdr m) = MACH_PORT_NULL"
    and tcp: "\<And>m1 s1. hdr m1 = hdr m \<Longrightarrow> same_tables sA s1 \<Longrightarrow> tcp_destination m1 s1 = Inr (Some (m1\<lparr>hdr := h'\<rparr>))"
    and h': "msgh_id h' = msgh_id (hdr m)" "msgh_remote_port h' = msgh_remote_port (hdr m)"
  shows "\<exists>m' sA'. tcp_receive KA (wire KB m) sA = Inr (Some (m', []), sA') \<and> same_tables sA sA' \<and>
    tcpBufferHandler KA m' sA' = Inr (kcall (Msg_send (swapHeader (m'\<lparr>hdr := h'\<rparr>) sA')) sA') \<and>
    list_all2 (same_item KB) (items m) (items m')"
proof -
  note abi = same_abi_simps [OF K]
  from tcp_receive_wire [of KA m "[]" sA] m(1) obtain m' sA' where 2: "tcp_receive KA (wire KB m) sA = Inr (Some (m', []), sA')"
    "same_message KB m m'" by (auto simp: abi)
  have "map descr (items m') = map descr (items m)"
    using same_item_names [of KB "items m" "items m'"] 2(2) by (simp add: same_message_def)
  from plain_cong [OF this, of KB] have "plain KA m'" using m(2) by (simp add: abi)
  moreover have "hdr m' = hdr m" using 2(2) by (simp add: same_message_def)
  ultimately have "tcpBufferHandler KA m' sA' = Inr (kcall (Msg_send (swapHeader (m'\<lparr>hdr := h'\<rparr>) sA')) sA')"
    using h h' tcp [OF _ tcp_receive_same_tables [OF 2(1)]] by (intro tcpBufferHandler_plain) auto
  then show ?thesis using 2 tcp_receive_same_tables [OF 2(1)] by (auto simp: same_message_def)
qed

lemma same_item_trans: "list_all2 (same_item A) xs ys \<Longrightarrow> list_all2 (same_item A) ys zs \<Longrightarrow> list_all2 (same_item A) xs zs"
  by (rule list_all2_trans [of "same_item A" "same_item A"]) (auto simp: same_item_def)

text \<open>From IPC on one side to the final send on the other: \<open>h\<close> is the header on the network.\<close>

lemma relay_plain:
  assumes K: "same_abi KA KB" "copyin_ok KB" and m: "message_ok KB m" "plain KB m"
    and dest: "\<And>m1 s1. hdr m1 = hdr m \<Longrightarrow> same_tables sB s1 \<Longrightarrow>
      ipc_destination KB m1 s1 = Inr (Some (m1\<lparr>hdr := h\<rparr>, MACH_PORT_NULL), s1)"
    and h: "msgh_size h = msgh_size (hdr m)" "msgh_id h = msgh_id (hdr m)"
      "msgh_id h \<notin> {MSGID_NO_SENDERS, MSGID_DEAD_NAME}"
      "MACH_MSGH_BITS_LOCAL (msgh_bits h) \<in> {MACH_MSG_TYPE_PORT_SEND, MACH_MSG_TYPE_PORT_SEND_ONCE}"
      "MACH_MSGH_BITS_REMOTE (msgh_bits h) = 0" "msgh_remote_port h = MACH_PORT_NULL"
    and tcp: "\<And>m1 s1. hdr m1 = h \<Longrightarrow> same_tables sA s1 \<Longrightarrow> tcp_destination m1 s1 = Inr (Some (m1\<lparr>hdr := h'\<rparr>))"
    and h': "msgh_id h' = msgh_id h" "msgh_remote_port h' = msgh_remote_port h"
  shows "\<exists>sB' w m' sA' m2. ipcBufferHandler KB m sB = Inr sB' \<and> os sB' = os sB @ w \<and>
    tcp_receive KA w sA = Inr (Some (m', []), sA') \<and>
    tcpBufferHandler KA m' sA' = Inr (kcall (Msg_send m2) sA') \<and>
    msgh_remote_port (hdr m2) = msgh_local_port h' \<and> msgh_id (hdr m2) = msgh_id (hdr m) \<and>
    list_all2 (same_item KB) (items m) (items m2)"
proof -
  from ipcBufferHandler_plain [where s = sB, OF K(2) m dest h(1,2)] h(3) obtain m1 s1
    where 1: "ipcBufferHandler KB m sB = Inr (transmit KB m1 s1)" "message_ok KB m1" "plain KB m1" "hdr m1 = h"
      "list_all2 (same_item KB) (items m) (items m1)" "os s1 = os sB" by (auto split: if_splits)
  from deliver_plain [OF K(1) 1(2,3), of sA h'] h tcp h' 1(4) obtain m' sA'
    where 2: "tcp_receive KA (wire KB m1) sA = Inr (Some (m', []), sA')"
      "tcpBufferHandler KA m' sA' = Inr (kcall (Msg_send (swapHeader (m'\<lparr>hdr := h'\<rparr>) sA')) sA')"
      "list_all2 (same_item KB) (items m1) (items m')" by auto
  from same_item_trans [OF 1(5) 2(3)] show ?thesis
    using 1 2 h' h os_transmit [OF 1(2), of s1]
    by (intro exI [of _ "transmit KB m1 s1"] exI [of _ "wire KB m1"] exI [of _ m'] exI [of _ sA']
      exI [of _ "swapHeader (m'\<lparr>hdr := h'\<rparr>) sA'"]) (simp add: swapHeader_def Let_def)
qed

end
