(* ===== verification/Netmsg_Example.thy ===== *)
theory Netmsg_Example
  imports Netmsg_Relay
begin

text \<open>
  A kernel and two sessions on which the properties of netmsg are tried out: message
  descriptors with the bit fields of GNU Mach on i386, a name space with a few free names, no
  earlier notification requests, memory that can be read.
\<close>

definition free_name :: "netmsg \<Rightarrow> mach_port_t option" where
  "free_name s = find (\<lambda>p. \<not> is_known s p) [100, 101, 102, 103, 104, 105, 106, 107]"

definition test_kernel :: kernel where
  "test_kernel = \<lparr>
     msgt_name = (\<lambda>w. w AND 0xFF), msgt_size = (\<lambda>w. drop_bit 8 w AND 0xFF), msgt_number = (\<lambda>w. drop_bit 16 w AND 0xFFF),
     msgt_inline = (\<lambda>w. bit w 28), msgt_longform = (\<lambda>w. bit w 29),
     msgtl_name = (\<lambda>w. w AND 0xFFFF), msgtl_size = (\<lambda>w. drop_bit 16 w), msgtl_number = (\<lambda>w. w),
     allocates = free_name,
     previous = (\<lambda>s p n. MACH_PORT_NULL),
     extracts = (\<lambda>s p. (p + 1000, MACH_MSG_TYPE_PORT_SEND_ONCE)),
     vm_allocates = (\<lambda>s. 0x10000), copyin = (\<lambda>s it. payload it)\<rparr>"

lemma names_fresh_test: "names_fresh test_kernel"
  by (auto simp: names_fresh_def test_kernel_def free_name_def find_Some_iff proper_name_def
    nth_Cons' split: if_splits)

lemma copyin_ok_test: "copyin_ok test_kernel"
  by (simp add: copyin_ok_def test_kernel_def)

lemma same_abi_test: "same_abi test_kernel test_kernel"
  by (simp add: same_abi_def)

text \<open>A session after it was set up: the server has \<^verbatim>\<open>first_port\<close> 100.\<close>

definition started :: "bool \<Rightarrow> netmsg" where
  "started serverMode = (case andThen (new_netmsg test_kernel serverMode 0) (ipcHandler_start test_kernel) of
     Inr s \<Rightarrow> s | Inl e \<Rightarrow> empty_session 0)"

lemma started_reachable: "netmsg_reachable test_kernel (started serverMode)"
proof -
  have "\<not> isl (andThen (new_netmsg test_kernel True 0) (ipcHandler_start test_kernel))" by code_simp
  moreover have "\<not> isl (andThen (new_netmsg test_kernel False 0) (ipcHandler_start test_kernel))" by code_simp
  ultimately have "\<not> isl (andThen (new_netmsg test_kernel serverMode 0) (ipcHandler_start test_kernel))"
    by (cases serverMode) auto
  then obtain s where s: "andThen (new_netmsg test_kernel serverMode 0) (ipcHandler_start test_kernel) = Inr s"
    by (cases "andThen (new_netmsg test_kernel serverMode 0) (ipcHandler_start test_kernel)") auto
  have "started serverMode = s" unfolding started_def s by simp
  with netmsg_reachable.start [OF s] show ?thesis by simp
qed

text \<open>A turn of \<^verbatim>\<open>tcpHandler\<close> that handles the message at once.\<close>

definition tcp_turn :: "kernel \<Rightarrow> 32 word list \<Rightarrow> netmsg \<Rightarrow> netmsg result" where
  "tcp_turn K w s = andThen (tcp_receive K w s) (\<lambda>(r, s1).
     case r of None \<Rightarrow> Inr s | Some (m, _) \<Rightarrow> tcpBufferHandler K m s1)"

lemma tcp_turn_reachable: "netmsg_reachable K s \<Longrightarrow> tcp_turn K w s = Inr s' \<Longrightarrow> netmsg_reachable K s'"
  by (auto simp: tcp_turn_def split: option.splits intro: netmsg_reachable.step netmsg_step.tcp)

definition the_state :: "netmsg result \<Rightarrow> netmsg" where
  "the_state r = (case r of Inr s \<Rightarrow> s | Inl e \<Rightarrow> empty_session 0)"

lemma the_state_reachable:
  "netmsg_reachable K s \<Longrightarrow> r = tcp_turn K w s \<or> r = ipcBufferHandler K m s \<Longrightarrow> \<not> isl r \<Longrightarrow> netmsg_reachable K (the_state r)"
  by (cases r) (auto simp: the_state_def dest: sym intro: tcp_turn_reachable netmsg_reachable.step netmsg_step.ipc)

text \<open>An item of one port, inline: right name \<open>t\<close>, 32 bits, one element.\<close>

definition port_item :: "32 word \<Rightarrow> mach_port_t \<Rightarrow> msg_item" where
  "port_item t p = \<lparr>descr = Short (0x10012000 + t), payload = [p], OOLptr = 0\<rparr>"

definition test_message :: "32 word \<Rightarrow> mach_port_t \<Rightarrow> 32 word \<Rightarrow> msg_item list \<Rightarrow> machMessage" where
  "test_message bits p i its =
     \<lparr>hdr = \<lparr>msgh_bits = bits, msgh_size = 24 + 8 * of_nat (length its), msgh_remote_port = 0, msgh_local_port = p,
             msgh_seqno = 0, msgh_id = i\<rparr>, items = its\<rparr>"

text \<open>
  The client exports a send right 7 and a receive right 8; the server makes the proxies 103 and
  104 for them. The client has recorded the two names.
\<close>

definition export_message :: machMessage where
  "export_message = test_message 0x80001100 MACH_PORT_CONTROL 1000
     [port_item MACH_MSG_TYPE_MOVE_SEND 7, port_item MACH_MSG_TYPE_MOVE_RECEIVE 8]"

definition server :: netmsg where
  "server = the_state (tcp_turn test_kernel (wire test_kernel export_message) (started True))"

definition client :: netmsg where
  "client = the_state (andThen (translateForTransmission test_kernel False export_message (started False)) (\<lambda>(m, s). Inr s))"

lemma server_reachable: "netmsg_reachable test_kernel server"
  unfolding server_def by (rule the_state_reachable [OF started_reachable]) (rule disjI1 [OF refl], code_simp)

lemma server_facts:
  "remote_ports_by_local server 103 = Some 7" "local_port_type server 103 = Some MACH_MSG_TYPE_PORT_RECEIVE"
  "remote_ports_by_local server 104 = Some 8" "local_port_type server 104 = Some MACH_MSG_TYPE_PORT_SEND"
  "local_ports_by_remote server 8 = Some 104" "control server = 0" "notification_port server = 102"
  by code_simp+

lemma client_facts:
  "local_port_type client 7 = Some MACH_MSG_TYPE_PORT_SEND" "local_port_type client 8 = Some MACH_MSG_TYPE_PORT_RECEIVE"
  "remote_ports_by_local client 8 = None" "send_once_ports_by_local client 8 = None" "control client = 0"
  "notification_port client = 101"
  by code_simp+

end
