(* ===== verification/Netmsg_Properties.thy ===== *)
theory Netmsg_Properties
  imports Netmsg_Example
begin

text \<open>
  The properties of netmsg: the tables of ports in every state of a session, the network stream,
  and what two sessions do together for send rights, receive rights, send-once rights and
  notifications.
\<close>

section \<open>Tables and stream\<close>



text \<open>C5: The network stream keeps messages apart and whole: a sequence of messages that was written
  to it is read back as the same sequence, with the same headers, descriptors and data, inline
  and out of line.\<close>

theorem stream_round_trip:
  assumes "list_all (message_ok K) ms"
  shows "\<exists>ms' t'. os (fold (transmit K) ms s) = os s @ concat (map (wire K) ms) \<and>
    tcp_read_all K (concat (map (wire K) ms)) t = Inr (ms', t') \<and>
    list_all2 (same_message K) ms ms'"
proof -
  have "os (fold (transmit K) ms s) = os s @ concat (map (wire K) ms)"
    using assms by (induction ms arbitrary: s) (auto simp: os_transmit)
  with tcp_read_all_wire [OF assms, of t] show ?thesis by blast
qed

definition ool_message :: machMessage where
  "ool_message = test_message 0x1100 MACH_PORT_CONTROL 1001
     [\<lparr>descr = Short 0x00022002, payload = [11, 12], OOLptr = 0x5000\<rparr>]"

lemma stream_round_trip_witness:
  "\<exists>ms' t'. tcp_read_all test_kernel (wire test_kernel ool_message @ wire test_kernel export_message) (started True) = Inr (ms', t') \<and>
     list_all2 (same_message test_kernel) [ool_message, export_message] ms'"
proof -
  have "list_all (message_ok test_kernel) [ool_message, export_message]" by code_simp
  from stream_round_trip [OF this, of undefined "started True"] show ?thesis by auto
qed

lemma on_ports_layout:
  "on_ports A f it s = Inr (it', s') \<Longrightarrow> descr it' = descr it \<and> length (payload it') = length (payload it) \<and> OOLptr it' = OOLptr it"
  by (auto simp: on_ports_def Let_def split: if_splits dest!: map_state_length)

lemma transmit_item_layout:
  "transmit_item K names it s = Inr (it', s') \<Longrightarrow>
   descr it' = descr it \<and> length (payload it') = length (payload it) \<and> OOLptr it' = OOLptr it"
  by (auto simp: transmit_item_def Let_def split: if_splits dest!: on_ports_layout)

lemma map_state_items:
  assumes "\<And>it s it' s'. f it s = Inr (it', s') \<Longrightarrow> R it it'" and "map_state f its s = Inr (its', s')"
  shows "list_all2 R its its'"
  using assms(2) by (induction its arbitrary: s its') (auto intro: assms(1))



section \<open>Messages to exported rights\<close>

text \<open>The bit that asks the receiver to translate the destination is outside the types of the ports.\<close>

lemma flag_bits [simp]:
  "MACH_MSGH_BITS_LOCAL (b OR MACH_MSGH_BITS_REMOTE_TRANSLATE) = MACH_MSGH_BITS_LOCAL b"
  "MACH_MSGH_BITS_REMOTE (b OR MACH_MSGH_BITS_REMOTE_TRANSLATE) = MACH_MSGH_BITS_REMOTE b"
  "(b OR MACH_MSGH_BITS_REMOTE_TRANSLATE) AND MACH_MSGH_BITS_REMOTE_TRANSLATE \<noteq> 0"
  "MACH_MSGH_BITS_REMOTE_TRANSLATE \<noteq> 0"
  by (simp_all add: MACH_MSGH_BITS_LOCAL_def MACH_MSGH_BITS_REMOTE_def MACH_MSGH_BITS_REMOTE_TRANSLATE_def
    bit.conj_disj_distrib2)

text \<open>A message without a reply port and without ports among its data, as the kernel hands it over.\<close>

definition one_way :: "kernel \<Rightarrow> machMessage \<Rightarrow> bool" where
  "one_way K m \<longleftrightarrow> message_ok K m \<and> plain K m \<and> msgh_remote_port (hdr m) = MACH_PORT_NULL \<and>
     MACH_MSGH_BITS_LOCAL (msgh_bits (hdr m)) \<in> {MACH_MSG_TYPE_PORT_SEND, MACH_MSG_TYPE_PORT_SEND_ONCE} \<and>
     MACH_MSGH_BITS_REMOTE (msgh_bits (hdr m)) = 0 \<and> msgh_bits (hdr m) AND MACH_MSGH_BITS_REMOTE_TRANSLATE = 0 \<and>
     msgh_id (hdr m) \<notin> {MSGID_NO_SENDERS, MSGID_DEAD_NAME}"

text \<open>
  The message \<open>m\<close>, received by IPC on one side, is written to the network, read by the other side
  and sent to its port \<open>p\<close> with the same data.
\<close>

definition delivered :: "kernel \<Rightarrow> netmsg \<Rightarrow> kernel \<Rightarrow> netmsg \<Rightarrow> machMessage \<Rightarrow> mach_port_t \<Rightarrow> bool" where
  "delivered KB sB KA sA m p \<longleftrightarrow> (\<exists>sB' w m' sA' m2. ipcBufferHandler KB m sB = Inr sB' \<and> os sB' = os sB @ w \<and>
     tcp_receive KA w sA = Inr (Some (m', []), sA') \<and>
     tcpBufferHandler KA m' sA' = Inr (kcall (Msg_send m2) sA') \<and>
     msgh_remote_port (hdr m2) = p \<and> msgh_id (hdr m2) = msgh_id (hdr m) \<and>
     list_all2 (same_item KB) (items m) (items m2))"

lemma proper_not_control: "proper_name p \<Longrightarrow> p \<noteq> MACH_PORT_CONTROL"
  by (auto simp: proper_name_def MACH_PORT_CONTROL_def)

text \<open>C8: A message sent to the proxy of an exported send right reaches the exported port on the other
  side, with its data: from IPC through the tables, the network stream and the peer's handler
  to the final send.\<close>

theorem send_right_message_delivered:
  assumes "netmsg_reachable KB sB" and "names_fresh KB" and "same_abi KA KB" and "copyin_ok KB"
    and "remote_ports_by_local sB q = Some p" and "local_port_type sB q = Some MACH_MSG_TYPE_PORT_RECEIVE"
    and "q \<noteq> control sB" and "q \<noteq> notification_port sB"
    and "one_way KB m" and "msgh_local_port (hdr m) = q"
  shows "delivered KB sB KA sA m p"
proof -
  have "tables_ok {} sB" using assms(1,2) by (rule tables_ok_reachable)
  then have p: "proper_name p" using assms(5) by (auto simp: tables_ok_def inverse_def)
  let ?h = "(hdr m)\<lparr>msgh_local_port := p\<rparr>"
  have i: "ipc_destination KB m1 s1 = Inr (Some (m1\<lparr>hdr := ?h\<rparr>, MACH_PORT_NULL), s1)"
    if "hdr m1 = hdr m" "same_tables sB s1" for m1 s1
    using that assms(5-8,10) by (simp add: ipc_destination_def same_tables_def set_local_port_def check_type_def map_at_def)
  have t: "tcp_destination m1 s1 = Inr (Some (m1\<lparr>hdr := ?h\<rparr>))" if "hdr m1 = ?h" for m1 s1
    using that assms(9) proper_not_control [OF p] by (cases m1) (simp add: tcp_destination_def one_way_def)
  have m: "message_ok KB m" "plain KB m" using assms(9) by (simp_all add: one_way_def)
  show ?thesis
    using relay_plain [OF assms(3,4) m i _ _ _ _ _ _ t] assms(9) by (simp add: delivered_def one_way_def)
qed

definition ping :: "mach_port_t \<Rightarrow> machMessage" where
  "ping p = test_message 0x1100 p 1002 [port_item MACH_MSG_TYPE_INTEGER_32 42]"

lemma one_way_ping: "one_way test_kernel (ping 103)" "one_way test_kernel (ping 8)"
  by code_simp+

lemma send_right_message_delivered_witness: "delivered test_kernel server test_kernel client (ping 103) 7"
proof -
  have "msgh_local_port (hdr (ping 103)) = 103" by (simp add: ping_def test_message_def)
  from send_right_message_delivered [OF server_reachable names_fresh_test same_abi_test copyin_ok_test
    server_facts(1,2) _ _ one_way_ping(1) this] show ?thesis by (simp add: server_facts)
qed

text \<open>C17: A message received on a receive right that was sent over the network follows the right: it is
  marked for translation, and the other side sends it to the port it made for the right.\<close>

theorem receive_right_message_delivered:
  assumes "same_abi KA KB" and "copyin_ok KB"
    and "remote_ports_by_local sB r = None" and "send_once_ports_by_local sB r = None"
    and "local_port_type sB r = Some MACH_MSG_TYPE_PORT_RECEIVE" and "r \<noteq> control sB" and "r \<noteq> notification_port sB"
    and "proper_name r" and "local_ports_by_remote sA r = Some q" and "local_port_type sA q = Some MACH_MSG_TYPE_PORT_SEND"
    and "one_way KB m" and "msgh_local_port (hdr m) = r"
  shows "delivered KB sB KA sA m q"
proof -
  let ?h = "(hdr m)\<lparr>msgh_bits := msgh_bits (hdr m) OR MACH_MSGH_BITS_REMOTE_TRANSLATE\<rparr>"
  let ?h' = "(hdr m)\<lparr>msgh_local_port := q,
    msgh_bits := msgh_bits ?h AND NOT MACH_MSGH_BITS_REMOTE_TRANSLATE\<rparr>"
  have i: "ipc_destination KB m1 s1 = Inr (Some (m1\<lparr>hdr := ?h\<rparr>, MACH_PORT_NULL), s1)"
    if "hdr m1 = hdr m" "same_tables sB s1" for m1 s1
    using that assms(3-7,12) by (simp add: ipc_destination_def same_tables_def)
  have t: "tcp_destination m1 s1 = Inr (Some (m1\<lparr>hdr := ?h'\<rparr>))" if "hdr m1 = ?h" "same_tables sA s1" for m1 s1
    using that assms(8-10,12) proper_not_control [of r]
    by (simp add: tcp_destination_def same_tables_def check_type_def map_at_def)
  have m: "message_ok KB m" "plain KB m" using assms(11) by (simp_all add: one_way_def)
  show ?thesis
    using relay_plain [OF assms(1,2) m i _ _ _ _ _ _ t] assms(11) by (simp add: delivered_def one_way_def)
qed

lemma receive_right_message_delivered_witness: "delivered test_kernel client test_kernel server (ping 8) 104"
proof -
  have "msgh_local_port (hdr (ping 8)) = 8" by (simp add: ping_def test_message_def)
  from receive_right_message_delivered [OF same_abi_test copyin_ok_test client_facts(3,4,2) _ _ _ server_facts(5,4) one_way_ping(2) this]
  show ?thesis by (simp add: client_facts proper_name_def)
qed

section \<open>Rights that come back\<close>

lemma flip_proper:
  assumes "proper_name p"
  shows "NOT p \<noteq> MACH_PORT_NULL" "NOT p \<noteq> MACH_PORT_DEAD" "(NOT p) AND 0x80000000 \<noteq> 0"
proof -
  have "p = q" if "NOT p = NOT q" for q using that by (metis bit.double_compl)
  from this [of "0xFFFFFFFF"] this [of 0] show "NOT p \<noteq> MACH_PORT_NULL" "NOT p \<noteq> MACH_PORT_DEAD"
    using assms by (auto simp: proper_name_def)
  show "(NOT p) AND 0x80000000 \<noteq> 0" using assms flip_flag [of p] by (simp add: proper_name_def)
qed

lemma reachable_names:
  assumes "netmsg_reachable K s" and "names_fresh K" and "remote_ports_by_local s q = Some p"
  shows "proper_name p" and "proper_name q"
proof -
  have ok: "tables_ok {} s" using assms(1,2) by (rule tables_ok_reachable)
  then have "local_ports_by_remote s p = Some q" using assms(3) by (auto simp: tables_ok_def inverse_def)
  with ok show "proper_name p" by (auto simp: tables_ok_def)
  from ok assms(3) show "proper_name q" unfolding tables_ok_def by blast
qed

text \<open>C25: A send right does not loop over the network: when the side that got it sends its proxy back, the
  owner recognises its own port and hands out a right to the port itself. Neither side adds an
  entry to its tables.\<close>

theorem send_right_returns_home:
  assumes "netmsg_reachable KB sB" and "names_fresh KB"
    and "remote_ports_by_local sB q = Some p" and "local_port_type sB q = Some MACH_MSG_TYPE_PORT_RECEIVE"
    and "local_port_type sA p = Some t"
  shows "\<exists>sB' sA'. transmit_send KB q sB = Inr (NOT p, sB') \<and>
    translatePort2 KA (NOT p) MACH_MSG_TYPE_MOVE_SEND sA = Inr (p, sA') \<and> same_tables sB sB' \<and> same_tables sA sA'"
proof -
  note n = reachable_names [OF assms(1-3)]
  have "transmit_send KB q sB = Inr (NOT p, kcall (Mod_refs q RIGHT_SEND (- 1)) sB)"
    using assms(3,4) proper_name_nonzero [OF n(2)] by (simp add: transmit_send_def check_type_def map_at_def)
  moreover have "\<exists>c. translatePort2 KA (NOT p) MACH_MSG_TYPE_MOVE_SEND sA = Inr (p, kcall c sA)"
    using assms(5) flip_proper [OF n(1)] by (auto simp: translatePort2_def translate_own_def Let_def map_touch_def)
  ultimately show ?thesis by auto
qed

lemma send_right_returns_home_witness:
  "\<exists>sA'. translatePort2 test_kernel (NOT 7) MACH_MSG_TYPE_MOVE_SEND client = Inr (7, sA') \<and> same_tables client sA'"
  using send_right_returns_home [OF server_reachable names_fresh_test server_facts(1,2) client_facts(1)] by blast



section \<open>Send-once rights and notifications\<close>

lemma calls_transmit: "set (calls s) \<subseteq> set (calls (transmit K m s))"
proof -
  have "set (calls s) \<subseteq> set (calls (fold (transmitOOLitem K) its s))" for its s
  proof (induction its arbitrary: s)
    case (Cons it its)
    have "set (calls s) \<subseteq> set (calls (transmitOOLitem K it s))" by (auto simp: transmitOOLitem_def)
    with Cons.IH show ?case by fastforce
  qed simp
  from this [of "s\<lparr>os := w\<rparr>" for w] show ?thesis by (simp add: transmit_def transmitOOLdata_def)
qed

lemma bits_of_types:
  "MACH_MSGH_BITS_LOCAL b = drop_bit 8 b AND mask 8" "MACH_MSGH_BITS_REMOTE b = b AND mask 8"
proof -
  have "(0xFF00 :: 32 word) = push_bit 8 (mask 8)" "(0xFF :: 32 word) = mask 8" by (simp_all add: mask_eq_exp_minus_1 push_bit_eq_mult)
  then show "MACH_MSGH_BITS_LOCAL b = drop_bit 8 b AND mask 8" "MACH_MSGH_BITS_REMOTE b = b AND mask 8"
    by (simp_all add: MACH_MSGH_BITS_LOCAL_def MACH_MSGH_BITS_REMOTE_def)
qed

lemma flag_positions:
  "bit MACH_MSGH_BITS_COMPLEX n \<longleftrightarrow> n = 31" "bit MACH_MSGH_BITS_REMOTE_TRANSLATE n \<longleftrightarrow> n = 26"
proof -
  have e: "(2 :: 32 word) ^ 31 = MACH_MSGH_BITS_COMPLEX" "(2 :: 32 word) ^ 26 = MACH_MSGH_BITS_REMOTE_TRANSLATE"
    by (simp_all add: MACH_MSGH_BITS_REMOTE_TRANSLATE_def)
  have "bit ((2 :: 32 word) ^ 31) n \<longleftrightarrow> n = 31" "bit ((2 :: 32 word) ^ 26) n \<longleftrightarrow> n = 26"
    unfolding bit_exp_iff by auto
  then show "bit MACH_MSGH_BITS_COMPLEX n \<longleftrightarrow> n = 31" "bit MACH_MSGH_BITS_REMOTE_TRANSLATE n \<longleftrightarrow> n = 26"
    by (simp_all only: e)
qed

lemma header_bits_at:
  fixes b c f r l :: "32 word"
  assumes "r AND mask 8 = r" and "l AND mask 8 = l" and c: "\<And>n. bit c n \<longleftrightarrow> n = 31" and f: "\<And>n. bit f n \<longleftrightarrow> n = 26"
  shows "MACH_MSGH_BITS_REMOTE ((b AND c) OR MACH_MSGH_BITS r l) = r"
    and "MACH_MSGH_BITS_LOCAL ((b AND c) OR MACH_MSGH_BITS r l) = l"
    and "((b AND c) OR MACH_MSGH_BITS r l) AND c = b AND c"
    and "((b AND c) OR MACH_MSGH_BITS r l) AND f = 0"
proof -
  have r: "bit r n \<Longrightarrow> n < 8" and l: "bit l n \<Longrightarrow> n < 8" for n
    using assms(1,2) by (metis bit_and_iff bit_mask_iff)+
  show "MACH_MSGH_BITS_REMOTE ((b AND c) OR MACH_MSGH_BITS r l) = r"
    unfolding bits_of_types MACH_MSGH_BITS_def by (rule bit_eqI) (auto simp: bit_simps c dest: r l)
  show "MACH_MSGH_BITS_LOCAL ((b AND c) OR MACH_MSGH_BITS r l) = l"
    unfolding bits_of_types MACH_MSGH_BITS_def by (rule bit_eqI) (auto simp: bit_simps c dest: r l)
  show "((b AND c) OR MACH_MSGH_BITS r l) AND c = b AND c"
    unfolding MACH_MSGH_BITS_def by (rule bit_eqI) (auto simp: bit_simps c dest: r l)
  show "((b AND c) OR MACH_MSGH_BITS r l) AND f = 0"
    unfolding MACH_MSGH_BITS_def by (rule bit_eqI) (auto simp: bit_simps c f dest: r l)
qed

lemmas header_bits = header_bits_at [OF _ _ flag_positions]

lemma type_masks:
  "(MACH_MSG_TYPE_COPY_SEND :: 32 word) AND mask 8 = MACH_MSG_TYPE_COPY_SEND"
  "MACH_MSGH_BITS_LOCAL b AND mask 8 = MACH_MSGH_BITS_LOCAL b" "MACH_MSGH_BITS_REMOTE b AND mask 8 = MACH_MSGH_BITS_REMOTE b"
proof -
  show "(MACH_MSG_TYPE_COPY_SEND :: 32 word) AND mask 8 = MACH_MSG_TYPE_COPY_SEND" by (simp add: mask_eq_exp_minus_1)
qed (simp_all add: bits_of_types ac_simps)

lemma discarded:
  assumes "remote_ports_by_local s l = None" and "send_once_ports_by_local s l = None" and "local_port_type s l = None"
    and "l \<noteq> control s" and "l \<noteq> notification_port s" and "msgh_local_port (hdr m) = l"
    and "copyin_ok K" and "message_ok K m"
  shows "\<exists>s'. ipcBufferHandler K m s = Inr s' \<and> same_tables s s' \<and> os s' = os s"
proof -
  from assms(8) have "list_all (item_ok K) (items m)" by (simp add: message_ok_def)
  from copyOOLdata_same [OF assms(7) this, of s] obtain m1 s1 where "copyOOLdata K m s = Inr (m1, s1)" "hdr m1 = hdr m"
    "same_tables s s1" "os s1 = os s" by blast
  with assms show ?thesis by (auto simp: ipcBufferHandler_def ipc_destination_def same_tables_def)
qed

text \<open>A send-once right is used once. The reply that is sent to its proxy is written to the network and
  the other side sends it, with its data, to the right the proxy stands for, which that send
  consumes. The proxy is destroyed and forgotten, and any later message on it is discarded.\<close>

lemma send_once_used_once:
  assumes "netmsg_reachable KB sB" and "names_fresh KB" and "same_abi KA KB" and "copyin_ok KB"
    and "send_once_ports_by_local sB l = Some r" and "proper_name r" and "local_port_type sB l = None"
    and "l \<noteq> control sB" and "l \<noteq> notification_port sB"
    and "one_way KB m" and "msgh_local_port (hdr m) = l"
    and "MACH_MSGH_BITS_LOCAL (msgh_bits (hdr m)) = MACH_MSG_TYPE_PORT_SEND_ONCE" and "local_port_type sA r = None"
  shows "\<exists>sB' w m' sA' m2. ipcBufferHandler KB m sB = Inr sB' \<and> os sB' = os sB @ w \<and>
    tcp_receive KA w sA = Inr (Some (m', []), sA') \<and> tcpBufferHandler KA m' sA' = Inr (kcall (Msg_send m2) sA') \<and>
    msgh_remote_port (hdr m2) = r \<and> MACH_MSGH_BITS_REMOTE (msgh_bits (hdr m2)) = MACH_MSG_TYPE_MOVE_SEND_ONCE \<and>
    list_all2 (same_item KB) (items m) (items m2) \<and>
    send_once_ports_by_local sB' l = None \<and> send_once_ports_by_remote sB' r = None \<and>
    Mod_refs l RIGHT_RECEIVE (- 1) \<in> set (calls sB') \<and>
    (\<forall>m3. message_ok KB m3 \<and> msgh_local_port (hdr m3) = l \<longrightarrow>
      (\<exists>s3. ipcBufferHandler KB m3 sB' = Inr s3 \<and> same_tables sB' s3 \<and> os s3 = os sB'))"
proof -
  have "tables_ok {} sB" using assms(1,2) by (rule tables_ok_reachable)
  then have l: "remote_ports_by_local sB l = None" using assms(5) by (auto simp: tables_ok_def dom_def)
  let ?h = "(hdr m)\<lparr>msgh_local_port := r\<rparr>" and ?g = "\<lambda>s. kcall (Mod_refs l RIGHT_RECEIVE (- 1)) (unmap_send_once r l s)"
  note one = assms(10) [unfolded one_way_def]
  then have m: "message_ok KB m" "plain KB m" by simp_all
  have "ipc_destination KB m1 s1 = Inr (Some (m1\<lparr>hdr := ?h\<rparr>, MACH_PORT_NULL), ?g s1)"
    if "hdr m1 = hdr m" "same_tables sB s1" for m1 s1
    using that l assms(5,8,9,11) by (simp add: ipc_destination_def same_tables_def set_local_port_def)
  from ipcBufferHandler_plain [where s = sB, OF assms(4) m this] one
  obtain m1 s1 where 1: "ipcBufferHandler KB m sB = Inr (transmit KB m1 (?g s1))" "message_ok KB m1" "plain KB m1"
    "hdr m1 = ?h" "list_all2 (same_item KB) (items m) (items m1)" "same_tables sB s1" "os s1 = os sB" by auto
  let ?sB = "transmit KB m1 (?g s1)"
  have "tcp_destination m2 s2 = Inr (Some (m2\<lparr>hdr := ?h\<rparr>))" if "hdr m2 = hdr m1" for m2 s2
    using that 1(4) one proper_not_control [OF assms(6)] by (cases m2) (simp add: tcp_destination_def)
  note deliver_plain [OF assms(3) 1(2,3) _ _ _ _ this, where sA = sA]
  moreover have "msgh_id (hdr m1) \<notin> {MSGID_NO_SENDERS, MSGID_DEAD_NAME}" "msgh_remote_port (hdr m1) = MACH_PORT_NULL"
    "MACH_MSGH_BITS_LOCAL (msgh_bits (hdr m1)) \<in> {MACH_MSG_TYPE_PORT_SEND, MACH_MSG_TYPE_PORT_SEND_ONCE}"
    "MACH_MSGH_BITS_REMOTE (msgh_bits (hdr m1)) = 0" "msgh_id ?h = msgh_id (hdr m1)"
    "msgh_remote_port ?h = msgh_remote_port (hdr m1)" using one 1(4) by simp_all
  ultimately obtain m' sA' where 2: "same_tables sA sA'"
    "tcp_receive KA (wire KB m1) sA = Inr (Some (m', []), sA')" "list_all2 (same_item KB) (items m1) (items m')"
    "tcpBufferHandler KA m' sA' = Inr (kcall (Msg_send (swapHeader (m'\<lparr>hdr := ?h\<rparr>) sA')) sA')" by blast
  have t: "same_tables (?g s1) ?sB" by (rule transmit_same_tables)
  have "\<exists>s3. ipcBufferHandler KB m3 ?sB = Inr s3 \<and> same_tables ?sB s3 \<and> os s3 = os ?sB"
    if "message_ok KB m3" "msgh_local_port (hdr m3) = l" for m3
    using discarded [of ?sB l m3 KB] that t l assms(4,7-9) 1(6) by (simp add: same_tables_def)
  moreover have "Mod_refs l RIGHT_RECEIVE (- 1) \<in> set (calls ?sB)" using calls_transmit [of "?g s1" KB m1] by auto
  moreover have "send_once_ports_by_local ?sB l = None" "send_once_ports_by_remote ?sB r = None"
    using t by (simp_all add: same_tables_def)
  moreover have "os ?sB = os sB @ wire KB m1" using os_transmit [OF 1(2)] 1(7) by simp
  moreover have "msgh_remote_port (hdr (swapHeader (m'\<lparr>hdr := ?h\<rparr>) sA')) = r"
    "items (swapHeader (m'\<lparr>hdr := ?h\<rparr>) sA') = items m'" by (simp_all add: swapHeader_def Let_def)
  moreover have "MACH_MSGH_BITS_REMOTE (msgh_bits (hdr (swapHeader (m'\<lparr>hdr := ?h\<rparr>) sA'))) = MACH_MSG_TYPE_MOVE_SEND_ONCE"
    using 2(1) assms(12,13) header_bits(1) [OF type_masks(2,3), of "msgh_bits (hdr m)" "msgh_bits (hdr m)" "msgh_bits (hdr m)"]
    by (simp add: swapHeader_def Let_def same_tables_def)
  moreover note 1(1) 2(2,4) same_item_trans [OF 1(5) 2(3)]
  ultimately show ?thesis by metis
qed

text \<open>The server after a call with a send-once reply port 9: proxy 103, send-once right 1103.\<close>

definition call_message :: machMessage where
  "call_message = \<lparr>hdr = \<lparr>msgh_bits = 0x1112, msgh_size = 24, msgh_remote_port = 9, msgh_local_port = MACH_PORT_CONTROL,
     msgh_seqno = 0, msgh_id = 20000\<rparr>, items = []\<rparr>"

definition called_server :: netmsg where
  "called_server = the_state (tcp_turn test_kernel (wire test_kernel call_message) (started True))"

definition reply :: "mach_port_t \<Rightarrow> machMessage" where
  "reply p = test_message 0x1200 p 20100 [port_item MACH_MSG_TYPE_INTEGER_32 42]"

lemma send_once_used_once_witness:
  "\<exists>sB' w m' sA' m2. ipcBufferHandler test_kernel (reply 103) called_server = Inr sB' \<and> os sB' = os called_server @ w \<and>
     tcp_receive test_kernel w (started False) = Inr (Some (m', []), sA') \<and>
     tcpBufferHandler test_kernel m' sA' = Inr (kcall (Msg_send m2) sA') \<and> msgh_remote_port (hdr m2) = 9"
proof -
  have "netmsg_reachable test_kernel called_server" unfolding called_server_def
    by (rule the_state_reachable [OF started_reachable]) (rule disjI1 [OF refl], code_simp)
  note this names_fresh_test same_abi_test copyin_ok_test
  moreover have "send_once_ports_by_local called_server 103 = Some 9" "proper_name 9" "local_port_type called_server 103 = None"
    "103 \<noteq> control called_server" "103 \<noteq> notification_port called_server" "one_way test_kernel (reply 103)"
    "msgh_local_port (hdr (reply 103)) = 103"
    "MACH_MSGH_BITS_LOCAL (msgh_bits (hdr (reply 103))) = MACH_MSG_TYPE_PORT_SEND_ONCE"
    "local_port_type (started False) 9 = None" by code_simp+
  ultimately show ?thesis using send_once_used_once [of test_kernel called_server test_kernel 103 9 "reply 103" "started False"]
    by blast
qed

definition no_senders_notice :: "kernel \<Rightarrow> machMessage \<Rightarrow> bool" where
  "no_senders_notice K m \<longleftrightarrow> message_ok K m \<and> plain K m \<and> msgh_id (hdr m) = MSGID_NO_SENDERS \<and>
     MACH_MSGH_BITS_LOCAL (msgh_bits (hdr m)) \<in> {MACH_MSG_TYPE_PORT_SEND, MACH_MSG_TYPE_PORT_SEND_ONCE} \<and>
     msgh_bits (hdr m) AND MACH_MSGH_BITS_REMOTE_TRANSLATE = 0"

lemma no_senders_remote_forgets:
  assumes "local_port_type s p = Some MACH_MSG_TYPE_PORT_SEND"
  shows "\<exists>s'. no_senders_remote K p s = Inr s' \<and> local_port_type s' p = None \<and> remote_ports_by_local s' p = None \<and>
    Mod_refs p RIGHT_SEND (- 1) \<in> set (calls s')"
  using assms by (auto simp: no_senders_remote_def check_type_def map_at_def Let_def)

text \<open>C23: When the last sender of a proxy goes away, both sides forget the port: the side of the proxy
  destroys its receive right and relays the notification, the owner destroys the send right it
  kept.\<close>

theorem no_senders_forgotten_by_both:
  assumes "netmsg_reachable KB sB" and "names_fresh KB" and "same_abi KA KB" and "copyin_ok KB"
    and "remote_ports_by_local sB q = Some p" and "local_port_type sB q = Some MACH_MSG_TYPE_PORT_RECEIVE"
    and "q \<noteq> control sB" and "q \<noteq> notification_port sB" and "local_port_type sA p = Some MACH_MSG_TYPE_PORT_SEND"
    and "no_senders_notice KB m" and "msgh_local_port (hdr m) = q"
  shows "\<exists>sB' w m' sA1 sA'. ipcBufferHandler KB m sB = Inr sB' \<and> os sB' = os sB @ w \<and>
    tcp_receive KA w sA = Inr (Some (m', []), sA1) \<and> tcpBufferHandler KA m' sA1 = Inr sA' \<and>
    remote_ports_by_local sB' q = None \<and> local_ports_by_remote sB' p = None \<and> local_port_type sB' q = None \<and>
    Mod_refs q RIGHT_RECEIVE (- 1) \<in> set (calls sB') \<and>
    local_port_type sA' p = None \<and> Mod_refs p RIGHT_SEND (- 1) \<in> set (calls sA')"
proof -
  note abi = same_abi_simps [OF assms(3)] and p = reachable_names(1) [OF assms(1,2,5)]
  let ?h = "(hdr m)\<lparr>msgh_local_port := p\<rparr>"
  have m: "message_ok KB m" "plain KB m" "msgh_id ?h = MSGID_NO_SENDERS" "msgh_size ?h = msgh_size (hdr m)"
    using assms(10) by (simp_all add: no_senders_notice_def)
  have "ipc_destination KB m1 s1 = Inr (Some (m1\<lparr>hdr := ?h\<rparr>, MACH_PORT_NULL), s1)"
    if "hdr m1 = hdr m" "same_tables sB s1" for m1 s1
    using that assms(5-8,11) by (simp add: ipc_destination_def same_tables_def set_local_port_def check_type_def map_at_def)
  from ipcBufferHandler_plain [where s = sB, OF assms(4) m(1,2) this m(4)] m(3)
  obtain m1 s1 where 1: "ipcBufferHandler KB m sB = andThen (no_senders_local (msgh_local_port (hdr m)) s1) (\<lambda>s2. Inr (transmit KB m1 s2))"
    "message_ok KB m1" "hdr m1 = ?h" "list_all2 (same_item KB) (items m) (items m1)" "same_tables sB s1" "os s1 = os sB"
    by auto
  define s2 where "s2 = unmap_port q (erase_type q (kcall (Mod_refs q RIGHT_RECEIVE (- 1)) s1))"
  have s2: "no_senders_local (msgh_local_port (hdr m)) s1 = Inr s2"
    using 1(5) assms(6,11) by (simp add: no_senders_local_def s2_def same_tables_def check_type_def map_at_def)
  have "remote_ports_by_local s2 q = None \<and> local_ports_by_remote s2 p = None \<and> local_port_type s2 q = None \<and>
      Mod_refs q RIGHT_RECEIVE (- 1) \<in> set (calls s2) \<and> os s2 = os sB"
    using 1(5,6) assms(5) by (simp add: s2_def same_tables_def)
  then have B: "remote_ports_by_local (transmit KB m1 s2) q = None" "local_ports_by_remote (transmit KB m1 s2) p = None"
    "local_port_type (transmit KB m1 s2) q = None" "Mod_refs q RIGHT_RECEIVE (- 1) \<in> set (calls (transmit KB m1 s2))"
    "os (transmit KB m1 s2) = os sB @ wire KB m1"
    using transmit_same_tables [of s2 KB m1] calls_transmit [of s2 KB m1] os_transmit [OF 1(2), of s2]
    by (auto simp: same_tables_def)
  from tcp_receive_wire [of KA m1 "[]" sA] 1(2) obtain m' sA1 where 2: "tcp_receive KA (wire KB m1) sA = Inr (Some (m', []), sA1)"
    "same_message KB m1 m'" by (auto simp: abi)
  have "map descr (items m') = map descr (items m)"
    using same_item_names [OF 1(4)] same_item_names [of KB "items m1" "items m'"] 2(2) by (simp add: same_message_def)
  from plain_cong [OF this, of KB] m(2) have pl: "plain KA m'" by (simp add: abi)
  have h: "hdr m' = ?h" using 1(3) 2(2) by (simp add: same_message_def)
  have "local_port_type sA1 p = Some MACH_MSG_TYPE_PORT_SEND"
    using tcp_receive_same_tables [OF 2(1)] assms(9) by (simp add: same_tables_def)
  from no_senders_remote_forgets [OF this] obtain sA' where A: "no_senders_remote KA p sA1 = Inr sA'"
    "local_port_type sA' p = None" "Mod_refs p RIGHT_SEND (- 1) \<in> set (calls sA')" by blast
  have "tcpBufferHandler KA m' sA1 = Inr sA'"
    using h pl A(1) assms(10) proper_not_control [OF p]
    by (auto simp: tcpBufferHandler_def translateMessage_plain translateHeader_def tcp_destination_def no_senders_notice_def Let_def)
  then show ?thesis using 1(1) s2 B 2(1) A by auto
qed

definition no_senders_message :: machMessage where
  "no_senders_message = test_message 0x1200 103 MSGID_NO_SENDERS [port_item MACH_MSG_TYPE_INTEGER_32 0]"

lemma no_senders_forgotten_by_both_witness:
  "\<exists>sB' w m' sA1 sA'. ipcBufferHandler test_kernel no_senders_message server = Inr sB' \<and> os sB' = os server @ w \<and>
     tcp_receive test_kernel w client = Inr (Some (m', []), sA1) \<and> tcpBufferHandler test_kernel m' sA1 = Inr sA' \<and>
     remote_ports_by_local sB' 103 = None \<and> local_port_type sA' 7 = None"
proof -
  have m: "no_senders_notice test_kernel no_senders_message" "msgh_local_port (hdr no_senders_message) = 103" by code_simp+
  have "103 \<noteq> control server" "103 \<noteq> notification_port server" by (simp_all add: server_facts)
  from no_senders_forgotten_by_both [OF server_reachable names_fresh_test same_abi_test copyin_ok_test
    server_facts(1,2) this client_facts(1) m] show ?thesis by blast
qed

section \<open>The header sent on\<close>

text \<open>The header of the message that is sent on: destination and reply port change places with their
  types, a destination netmsg holds a right for is reached with a copied send right, the
  complex bit stays and the bit borrowed for the network is cleared.\<close>

lemma swapped_header:
  "let h = hdr m; h' = hdr (swapHeader m s) in
   msgh_remote_port h' = msgh_local_port h \<and> msgh_local_port h' = msgh_remote_port h \<and>
   MACH_MSGH_BITS_REMOTE (msgh_bits h') =
     (if local_port_type s (msgh_local_port h) \<noteq> None then MACH_MSG_TYPE_COPY_SEND else MACH_MSGH_BITS_LOCAL (msgh_bits h)) \<and>
   MACH_MSGH_BITS_LOCAL (msgh_bits h') = MACH_MSGH_BITS_REMOTE (msgh_bits h) \<and>
   msgh_bits h' AND MACH_MSGH_BITS_COMPLEX = msgh_bits h AND MACH_MSGH_BITS_COMPLEX \<and>
   msgh_bits h' AND MACH_MSGH_BITS_REMOTE_TRANSLATE = 0 \<and>
   msgh_id h' = msgh_id h \<and> msgh_size h' = msgh_size h \<and> items (swapHeader m s) = items m"
  by (simp add: swapHeader_def Let_def header_bits type_masks)

section \<open>Behaviour that breaks the intended invariants\<close>

text \<open>A receive right that was sent over the network is recorded as such, and messages on it are marked
  for translation by the peer. When a send right to the same port is sent later, its record is
  overwritten, and from then on messages on the port go out unmarked, so the peer takes the
  number for one of its own.\<close>

theorem send_right_hides_receive_right:
  assumes "local_port_type s p = Some MACH_MSG_TYPE_PORT_RECEIVE" and "remote_ports_by_local s p = None"
    and "send_once_ports_by_local s p = None" and "proper_name p" and "p \<noteq> control s" and "p \<noteq> notification_port s"
    and "msgh_local_port (hdr m) = p"
  shows "\<exists>s'. transmit_send K p s = Inr (p, s') \<and>
    ipc_destination K m s =
      Inr (Some (m\<lparr>hdr := (hdr m)\<lparr>msgh_bits := msgh_bits (hdr m) OR MACH_MSGH_BITS_REMOTE_TRANSLATE\<rparr>\<rparr>, MACH_PORT_NULL), s) \<and>
    ipc_destination K m s' = Inr (Some (m, MACH_PORT_NULL), s')"
  using assms proper_name_nonzero [OF assms(4)] by (simp add: transmit_send_def ipc_destination_def Let_def)

lemma send_right_hides_receive_right_witness:
  "\<exists>s'. transmit_send test_kernel 8 client = Inr (8, s') \<and>
     ipc_destination test_kernel (ping 8) s' = Inr (Some (ping 8, MACH_PORT_NULL), s')"
proof -
  have "8 \<noteq> control client" "8 \<noteq> notification_port client" "proper_name 8" "msgh_local_port (hdr (ping 8)) = 8"
    by (simp_all add: client_facts proper_name_def ping_def test_message_def)
  from send_right_hides_receive_right [OF client_facts(2,3,4) this(3,1,2,4), of test_kernel] show ?thesis by blast
qed

text \<open>A port that was forgotten (its notification was handled) while the peer sends it back is entered
  into the table of types again, with a type that is none: a later NO SENDERS notification for
  it, which would have been ignored, fails the assertion and ends the process.\<close>

theorem returned_port_breaks_types:
  assumes "proper_name p" and "local_port_type s p = None"
  shows "\<exists>s'. translatePort2 K (NOT p) MACH_MSG_TYPE_MOVE_SEND s = Inr (p, s') \<and> local_port_type s' p = Some 0 \<and>
    no_senders_remote K p s = Inr s \<and> (\<exists>what. no_senders_remote K p s' = Inl (Assert_failed what))"
  using assms flip_proper [OF assms(1)]
  by (simp add: translatePort2_def translate_own_def map_touch_def no_senders_remote_def check_type_def map_at_def
    assert_that_def)

lemma returned_port_breaks_types_witness:
  "\<exists>s'. translatePort2 test_kernel (NOT 6) MACH_MSG_TYPE_MOVE_SEND client = Inr (6, s') \<and> local_port_type s' 6 = Some 0"
proof -
  have "local_port_type client 6 = None" "proper_name 6" by code_simp+
  from returned_port_breaks_types [OF this(2,1), of test_kernel] show ?thesis by blast
qed

end
