(* ===== verification/Netmsg_Rpc.thy ===== *)
theory Netmsg_Rpc
  imports Netmsg_Properties
begin

text \<open>
  A remote procedure call through netmsg: the translator receives a request on its control port, the
  server hands it to its first port, and the reply comes back to the caller's reply port. This is
  how every session begins, with a call of \<^verbatim>\<open>fsys_getroot\<close>.
\<close>

section \<open>The request\<close>

text \<open>A request with a send-once right for the reply, and no ports in its data.\<close>

definition request_message :: "kernel \<Rightarrow> machMessage \<Rightarrow> mach_port_t \<Rightarrow> bool" where
  "request_message K m r \<longleftrightarrow> message_ok K m \<and> plain K m \<and> msgh_remote_port (hdr m) = r \<and> proper_name r \<and>
     MACH_MSGH_BITS_LOCAL (msgh_bits (hdr m)) = MACH_MSG_TYPE_PORT_SEND \<and>
     MACH_MSGH_BITS_REMOTE (msgh_bits (hdr m)) = MACH_MSG_TYPE_PORT_SEND_ONCE \<and>
     msgh_id (hdr m) \<notin> {MSGID_NO_SENDERS, MSGID_DEAD_NAME}"

text \<open>The kernel has a free name and gives out send-once rights of the right type.\<close>

definition reply_ports_ok :: "kernel \<Rightarrow> netmsg \<Rightarrow> bool" where
  "reply_ports_ok K s \<longleftrightarrow> (\<forall>s'. same_tables s s' \<longrightarrow> allocates K s' \<noteq> None) \<and>
     (\<forall>s' p. snd (extracts K s' p) = MACH_MSG_TYPE_PORT_SEND_ONCE)"

text \<open>A send-once right that comes in gets a proxy.\<close>

lemma translate_send_once_proxy:
  assumes "reply_ports_ok K s" and "send_once_ports_by_remote s r = None" and "proper_name r" and "names_fresh K"
  shows "\<exists>so q s'. translatePort2 K r MACH_MSG_TYPE_PORT_SEND_ONCE s = Inr (so, s') \<and>
    send_once_ports_by_local s' q = Some r \<and> \<not> is_known s q \<and> proper_name q \<and> local_port_type s' = local_port_type s \<and>
    first_port s' = first_port s \<and> control s' = control s \<and> notification_port s' = notification_port s"
proof -
  from assms(1) obtain q where q: "allocates K s = Some q" unfolding reply_ports_ok_def using same_tables_refl by blast
  then have fresh: "\<not> is_known s q" "proper_name q" using assms(4) by (auto simp: names_fresh_def)
  let ?s1 = "kcall (Port_allocate q) s"
  obtain so where so: "extracts K ?s1 q = (so, MACH_MSG_TYPE_PORT_SEND_ONCE)"
    using assms(1) by (metis prod.collapse reply_ports_ok_def)
  have "translatePort2 K r MACH_MSG_TYPE_PORT_SEND_ONCE s = translate_send_once K r s"
    using proper_name_nonzero [OF assms(3)] assms(3) by (simp add: translatePort2_def proper_name_def)
  also have "\<dots> = Inr (so, map_send_once r q (kcall (Move_member q (portset s)) (kcall (Extract_right q so) ?s1)))"
    using assms(2) q so by (simp add: translate_send_once_def mach_port_allocate_def assert_that_def)
  finally show ?thesis using fresh by auto
qed

lemma request_arrives:
  assumes "same_abi KS KC" and "request_message KC m r" and "msgh_local_port (hdr m) = MACH_PORT_CONTROL"
    and "reply_ports_ok KS sS" and "send_once_ports_by_remote sS r = None" and "names_fresh KS"
  shows "\<exists>m' s1 m2 s2 q. tcp_receive KS (wire KC m) sS = Inr (Some (m', []), s1) \<and>
    tcpBufferHandler KS m' s1 = Inr (kcall (Msg_send m2) s2) \<and>
    msgh_remote_port (hdr m2) = first_port sS \<and> msgh_id (hdr m2) = msgh_id (hdr m) \<and>
    list_all2 (same_item KC) (items m) (items m2) \<and>
    send_once_ports_by_local s2 q = Some r \<and> \<not> is_known sS q \<and> local_port_type s2 = local_port_type sS \<and>
    control s2 = control sS \<and> notification_port s2 = notification_port sS"
proof -
  note req = assms(2) [unfolded request_message_def]
  note abi = same_abi_simps [OF assms(1)]
  from tcp_receive_wire [of KS m "[]" sS] req obtain m' s1 where
    1: "tcp_receive KS (wire KC m) sS = Inr (Some (m', []), s1)" "same_message KC m m'" by (auto simp: abi)
  note t = tcp_receive_same_tables [OF 1(1)]
  have h: "hdr m' = hdr m" and its: "list_all2 (same_item KC) (items m) (items m')" using 1(2) by (simp_all add: same_message_def)
  have "plain KS m'" using req plain_cong [of m' m KC] same_item_names [OF its] by (simp add: abi)
  have ok: "reply_ports_ok KS s1" using assms(4) same_tables_trans [OF t] unfolding reply_ports_ok_def by blast
  from translate_send_once_proxy [OF this, of r] assms(5,6) req t obtain so q s2 where
    2: "translatePort2 KS r MACH_MSG_TYPE_PORT_SEND_ONCE s1 = Inr (so, s2)" "send_once_ports_by_local s2 q = Some r"
      "\<not> is_known s1 q" "local_port_type s2 = local_port_type s1" "control s2 = control s1"
      "notification_port s2 = notification_port s1" by (auto simp: same_tables_def)
  let ?m1 = "m'\<lparr>hdr := (hdr m')\<lparr>msgh_local_port := first_port s1, msgh_remote_port := so\<rparr>\<rparr>"
  have "tcpBufferHandler KS m' s1 = Inr (kcall (Msg_send (swapHeader ?m1 s2)) s2)"
    using req h assms(3) 2(1) \<open>plain KS m'\<close>
    by (simp add: tcpBufferHandler_def translateMessage_plain translateHeader_def tcp_destination_def set_local_port_def Let_def)
  moreover have "\<not> is_known sS q" using 2(3) t by (simp add: is_known_def same_tables_def)
  ultimately show ?thesis
    using 1(1) 2 h its t
    by (intro exI [of _ m'] exI [of _ s1] exI [of _ "swapHeader ?m1 s2"] exI [of _ s2] exI [of _ q])
      (simp add: swapHeader_def Let_def same_tables_def)
qed

text \<open>The translator's side of the request.\<close>

lemma request_leaves:
  assumes "copyin_ok KC" and "request_message KC m r" and "msgh_local_port (hdr m) = control sC"
  shows "\<exists>m1 sC'. ipcBufferHandler KC m sC = Inr sC' \<and> os sC' = os sC @ wire KC m1 \<and> same_tables sC sC' \<and>
    request_message KC m1 r \<and> msgh_local_port (hdr m1) = MACH_PORT_CONTROL \<and> msgh_id (hdr m1) = msgh_id (hdr m) \<and>
    list_all2 (same_item KC) (items m) (items m1)"
proof -
  note req = assms(2) [unfolded request_message_def]
  let ?h = "(hdr m)\<lparr>msgh_local_port := MACH_PORT_CONTROL\<rparr>"
  have "ipc_destination KC m1 s1 = Inr (Some (m1\<lparr>hdr := ?h\<rparr>, MACH_PORT_NULL), s1)"
    if "hdr m1 = hdr m" "same_tables sC s1" for m1 s1
    using that assms(3) by (simp add: ipc_destination_def same_tables_def set_local_port_def)
  moreover have "message_ok KC m" "plain KC m" using req by simp_all
  ultimately have "\<exists>m' s1. ipcBufferHandler KC m sC = andThen
      (if msgh_id ?h = MSGID_NO_SENDERS then no_senders_local (msgh_local_port (hdr m)) s1 else Inr s1)
      (\<lambda>s2. Inr (transmit KC m' s2)) \<and>
    message_ok KC m' \<and> plain KC m' \<and> hdr m' = ?h \<and> list_all2 (same_item KC) (items m) (items m') \<and> same_tables sC s1 \<and> os s1 = os sC"
    by (intro ipcBufferHandler_plain [OF assms(1)]) simp_all
  with req obtain m1 s1 where
    1: "ipcBufferHandler KC m sC = Inr (transmit KC m1 s1)" "message_ok KC m1" "plain KC m1" "hdr m1 = ?h"
      "list_all2 (same_item KC) (items m) (items m1)" "same_tables sC s1" "os s1 = os sC" by auto
  have "request_message KC m1 r" using req 1(2-4) by (simp add: request_message_def)
  with 1 os_transmit [OF 1(2), of s1] same_tables_trans [OF 1(6) transmit_same_tables] show ?thesis
    by (intro exI [of _ m1] exI [of _ "transmit KC m1 s1"]) simp
qed

section \<open>The call\<close>

text \<open>A reply on a proxy for the send-once right \<open>r\<close> goes to \<open>r\<close>, once.\<close>

definition reply_reaches :: "kernel \<Rightarrow> netmsg \<Rightarrow> kernel \<Rightarrow> netmsg \<Rightarrow> machMessage \<Rightarrow> mach_port_t \<Rightarrow> bool" where
  "reply_reaches KS sS KC sC m r \<longleftrightarrow> (\<exists>sS' w m' sC' m2. ipcBufferHandler KS m sS = Inr sS' \<and> os sS' = os sS @ w \<and>
     tcp_receive KC w sC = Inr (Some (m', []), sC') \<and> tcpBufferHandler KC m' sC' = Inr (kcall (Msg_send m2) sC') \<and>
     msgh_remote_port (hdr m2) = r \<and> MACH_MSGH_BITS_REMOTE (msgh_bits (hdr m2)) = MACH_MSG_TYPE_MOVE_SEND_ONCE \<and>
     list_all2 (same_item KS) (items m) (items m2) \<and> send_once_ports_by_remote sS' r = None)"

text \<open>C7: A remote procedure call works. A request that the translator receives on its control port, with a
  send-once right for the reply, is delivered with its data to the first port of the server; the server makes a
  proxy for the reply port; and every reply sent to that proxy is delivered with its data to the caller's reply
  port, which the translator uses up, while the server forgets the proxy.\<close>

theorem remote_procedure_call:
  assumes "netmsg_reachable KS sS" and "names_fresh KS" and "same_abi KS KC" and "same_abi KC KS"
    and "copyin_ok KC" and "copyin_ok KS" and "reply_ports_ok KS sS"
    and "request_message KC m r" and "msgh_local_port (hdr m) = control sC"
    and "send_once_ports_by_remote sS r = None" and "local_port_type sC r = None"
  shows "\<exists>sC' w m' s1 m2 sS' q. ipcBufferHandler KC m sC = Inr sC' \<and> os sC' = os sC @ w \<and>
    tcp_receive KS w sS = Inr (Some (m', []), s1) \<and> tcpBufferHandler KS m' s1 = Inr (kcall (Msg_send m2) sS') \<and>
    msgh_remote_port (hdr m2) = first_port sS \<and> msgh_id (hdr m2) = msgh_id (hdr m) \<and>
    list_all2 (same_item KC) (items m) (items m2) \<and> send_once_ports_by_local sS' q = Some r \<and>
    (\<forall>reply. one_way KS reply \<and> msgh_local_port (hdr reply) = q \<and>
        MACH_MSGH_BITS_LOCAL (msgh_bits (hdr reply)) = MACH_MSG_TYPE_PORT_SEND_ONCE \<longrightarrow>
      reply_reaches KS (kcall (Msg_send m2) sS') KC sC' reply r)"
proof -
  from request_leaves [OF assms(5,8,9)] obtain m1 sC' where
    1: "ipcBufferHandler KC m sC = Inr sC'" "os sC' = os sC @ wire KC m1" "same_tables sC sC'" "request_message KC m1 r"
      "msgh_local_port (hdr m1) = MACH_PORT_CONTROL" "msgh_id (hdr m1) = msgh_id (hdr m)"
      "list_all2 (same_item KC) (items m) (items m1)" by blast
  from request_arrives [OF assms(3) 1(4,5) assms(7,10,2)] obtain m' s1 m2 s2 q where
    2: "tcp_receive KS (wire KC m1) sS = Inr (Some (m', []), s1)" "tcpBufferHandler KS m' s1 = Inr (kcall (Msg_send m2) s2)"
      "msgh_remote_port (hdr m2) = first_port sS" "msgh_id (hdr m2) = msgh_id (hdr m1)"
      "list_all2 (same_item KC) (items m1) (items m2)" "send_once_ports_by_local s2 q = Some r" "\<not> is_known sS q"
      "local_port_type s2 = local_port_type sS" "control s2 = control sS" "notification_port s2 = notification_port sS"
    by blast
  let ?sS = "kcall (Msg_send m2) s2"
  have reach: "netmsg_reachable KS ?sS" using assms(1) 2(1,2) by (blast intro: netmsg_reachable.step netmsg_step.tcp)
  have q: "q \<noteq> control ?sS" "q \<noteq> notification_port ?sS" "local_port_type ?sS q = None"
    using 2(7-10) by (simp_all add: is_known_def)
  have r: "proper_name r" "local_port_type sC' r = None"
    using assms(8,11) 1(3) by (simp_all add: request_message_def same_tables_def)
  have "reply_reaches KS ?sS KC sC' reply r" if "one_way KS reply" "msgh_local_port (hdr reply) = q"
    "MACH_MSGH_BITS_LOCAL (msgh_bits (hdr reply)) = MACH_MSG_TYPE_PORT_SEND_ONCE" for reply
    using send_once_used_once [OF reach assms(2,4,6) _ r(1) q(3,1,2) that r(2)] 2(6)
    unfolding reply_reaches_def by (metis kcall_frame(9))
  then have "\<forall>reply. one_way KS reply \<and> msgh_local_port (hdr reply) = q \<and>
        MACH_MSGH_BITS_LOCAL (msgh_bits (hdr reply)) = MACH_MSG_TYPE_PORT_SEND_ONCE \<longrightarrow>
      reply_reaches KS ?sS KC sC' reply r" by blast
  moreover have "list_all2 (same_item KC) (items m) (items m2)" using same_item_trans [OF 1(7) 2(5)] .
  moreover have "msgh_id (hdr m2) = msgh_id (hdr m)" using 1(6) 2(4) by simp
  ultimately show ?thesis using 1(1,2) 2(1-3,6) by blast
qed

text \<open>A translator whose control port is 50, and its first call.\<close>

definition translator :: netmsg where
  "translator = the_state (andThen (new_netmsg test_kernel False 50) (ipcHandler_start test_kernel))"

definition getroot_call :: machMessage where
  "getroot_call = \<lparr>hdr = \<lparr>msgh_bits = 0x1112, msgh_size = 32, msgh_remote_port = 9, msgh_local_port = 50, msgh_seqno = 0,
     msgh_id = 22000\<rparr>, items = [port_item MACH_MSG_TYPE_INTEGER_32 5]\<rparr>"

lemma reply_ports_ok_test: "allocates test_kernel s \<noteq> None \<Longrightarrow> reply_ports_ok test_kernel s"
proof -
  have "allocates test_kernel s' = allocates test_kernel s" if "same_tables s s'" for s'
  proof -
    have "is_known s' = is_known s" using that by (intro ext) (simp add: is_known_def same_tables_def)
    then show ?thesis by (simp add: test_kernel_def free_name_def)
  qed
  moreover assume "allocates test_kernel s \<noteq> None"
  moreover have "snd (extracts test_kernel s' p) = MACH_MSG_TYPE_PORT_SEND_ONCE" for s' p by (simp add: test_kernel_def)
  ultimately show ?thesis unfolding reply_ports_ok_def by metis
qed

lemma remote_procedure_call_witness:
  "\<exists>sC' w m' s1 m2 sS'. ipcBufferHandler test_kernel getroot_call translator = Inr sC' \<and> os sC' = os translator @ w \<and>
    tcp_receive test_kernel w (started True) = Inr (Some (m', []), s1) \<and>
    tcpBufferHandler test_kernel m' s1 = Inr (kcall (Msg_send m2) sS') \<and>
    msgh_remote_port (hdr m2) = first_port (started True) \<and> msgh_id (hdr m2) = 22000"
proof -
  have "allocates test_kernel (started True) \<noteq> None" by code_simp
  note ok = reply_ports_ok_test [OF this]
  have "request_message test_kernel getroot_call 9" "msgh_local_port (hdr getroot_call) = control translator"
    "send_once_ports_by_remote (started True) 9 = None" "local_port_type translator 9 = None" by code_simp+
  from remote_procedure_call [OF started_reachable names_fresh_test same_abi_test same_abi_test copyin_ok_test copyin_ok_test ok this]
  show ?thesis by (simp add: getroot_call_def) blast
qed

end
