(* ===== verification/Netmsg_Race.thy ===== *)
theory Netmsg_Race
  imports Netmsg_Properties
begin

text \<open>
  Translation of send rights by several threads. \<^verbatim>\<open>tcpBufferHandler\<close> runs in one thread for each
  destination port and takes no lock around the tables of \<^verbatim>\<open>class netmsg\<close> (a comment in it says that
  the translation functions need one). The case of \<^verbatim>\<open>translatePort2\<close> for send rights first tests
  whether the remote port has a proxy and then, if not, makes one; another thread may run between
  the two. The parameter \<open>locks\<close> says whether a lock keeps test and creation together; the code is
  \<open>locks = False\<close>.
\<close>

section \<open>Test and creation\<close>

datatype translation =
    Translate mach_port_t
  | Create mach_port_t
  | Translated mach_port_t mach_port_t

definition send_test :: "kernel \<Rightarrow> mach_port_t \<Rightarrow> netmsg \<Rightarrow> (translation \<times> netmsg) result" where
  "send_test K port s =
     (case local_ports_by_remote s port of
        Some newport \<Rightarrow> andThen (check_type newport MACH_MSG_TYPE_PORT_RECEIVE s) (\<lambda>s.
          Inr (Translated port newport, kcall (Insert_right newport MACH_MSG_TYPE_MAKE_SEND) s))
      | None \<Rightarrow> Inr (Create port, s))"

definition send_create :: "kernel \<Rightarrow> mach_port_t \<Rightarrow> netmsg \<Rightarrow> (translation \<times> netmsg) result" where
  "send_create K port s =
     andThen (mach_port_allocate K s) (\<lambda>(newport, s1).
       let s2 = kcall (Insert_right newport MACH_MSG_TYPE_MAKE_SEND) s1;
           (old, s3) = request_notification K newport NOTIFY_NO_SENDERS newport s2
       in andThen (assert_that (old = MACH_PORT_NULL) ''old == MACH_PORT_NULL'' s3) (\<lambda>s3.
          Inr (Translated port newport, set_type newport MACH_MSG_TYPE_PORT_RECEIVE
                 (map_port port newport (kcall (Move_member newport (portset s3)) s3)))))"

text \<open>Run together, the two are the translation.\<close>

definition translated :: "(mach_port_t \<times> netmsg) result \<Rightarrow> mach_port_t \<Rightarrow> (translation \<times> netmsg) result" where
  "translated r port = andThen r (\<lambda>(p, s). Inr (Translated port p, s))"

lemma translate_send_known:
  "local_ports_by_remote s port = Some p \<Longrightarrow> translated (translate_send K port s) port = send_test K port s"
  by (simp add: translated_def translate_send_def send_test_def andThen_assoc)

lemma translate_send_new:
  "local_ports_by_remote s port = None \<Longrightarrow> translated (translate_send K port s) port = send_create K port s"
  by (simp add: translated_def translate_send_def send_create_def andThen_def Let_def assert_that_def
    split: sum.split prod.split)

section \<open>Threads\<close>

inductive translation_step :: "bool \<Rightarrow> kernel \<Rightarrow> netmsg \<times> translation list \<Rightarrow> netmsg \<times> translation list \<Rightarrow> bool"
  for locks K where
  test: "i < length ts \<Longrightarrow> ts ! i = Translate port \<Longrightarrow> locks \<longrightarrow> (\<forall>r. Create r \<notin> set ts) \<Longrightarrow>
    send_test K port s = Inr (t, s') \<Longrightarrow> translation_step locks K (s, ts) (s', ts[i := t])"
| create: "i < length ts \<Longrightarrow> ts ! i = Create port \<Longrightarrow>
    send_create K port s = Inr (t, s') \<Longrightarrow> translation_step locks K (s, ts) (s', ts[i := t])"

text \<open>
  With a lock: the tables are inverse to each other, what a thread got is what the tables have, and a
  thread that is about to make a proxy is alone and still finds none.
\<close>

fun thread_ok :: "netmsg \<Rightarrow> translation \<Rightarrow> bool" where
  "thread_ok s (Translate r) \<longleftrightarrow> proper_name r"
| "thread_ok s (Create r) \<longleftrightarrow> proper_name r \<and> local_ports_by_remote s r = None"
| "thread_ok s (Translated r p) \<longleftrightarrow> local_ports_by_remote s r = Some p"

fun is_create :: "translation \<Rightarrow> bool" where
  "is_create (Create r) = True"
| "is_create _ = False"

definition translations_ok :: "netmsg \<times> translation list \<Rightarrow> bool" where
  "translations_ok = (\<lambda>(s, ts). tables_ok {} s \<and> (\<forall>j < length ts. thread_ok s (ts ! j)) \<and>
     (\<forall>i < length ts. \<forall>j < length ts. is_create (ts ! i) \<longrightarrow> is_create (ts ! j) \<longrightarrow> i = j))"

lemma is_create_iff: "is_create t \<longleftrightarrow> (\<exists>r. t = Create r)"
  by (cases t) auto

lemma thread_ok_cong: "local_ports_by_remote s' = local_ports_by_remote s \<Longrightarrow> thread_ok s' t = thread_ok s t"
  by (cases t) auto

lemma thread_ok_insert:
  "thread_ok s t \<Longrightarrow> \<not> is_create t \<Longrightarrow> local_ports_by_remote s port = None \<Longrightarrow>
     local_ports_by_remote s' = (local_ports_by_remote s)(port \<mapsto> p) \<Longrightarrow> thread_ok s' t"
  by (cases t) auto

lemma send_test_cases:
  assumes "send_test K port s = Inr (t, s')"
  obtains "t = Create port" "s' = s" "local_ports_by_remote s port = None"
  | p where "t = Translated port p" "local_ports_by_remote s port = Some p" "\<exists>c. s' = kcall c s"
  using assms
  by (auto simp: send_test_def check_type_def assert_that_def split: option.splits if_splits)

lemma send_create_cases:
  assumes "send_create K port s = Inr (t, s')"
  obtains p where "t = Translated port p" "allocates K s = Some p" "local_port_type s' = (local_port_type s)(p \<mapsto> MACH_MSG_TYPE_PORT_RECEIVE)"
    "local_ports_by_remote s' = (local_ports_by_remote s)(port \<mapsto> p)"
    "remote_ports_by_local s' = (remote_ports_by_local s)(p \<mapsto> port)"
  using assms
  by (auto simp: send_create_def mach_port_allocate_def request_notification_def Let_def assert_that_def set_type_def
    map_port_def split: option.splits if_splits)

lemma translations_ok_update:
  assumes "i < length ts" and "tables_ok {} s'" and "thread_ok s' t"
    and "\<And>j. j < length ts \<Longrightarrow> j \<noteq> i \<Longrightarrow> thread_ok s' (ts ! j) \<and> \<not> is_create (ts ! j)"
  shows "translations_ok (s', ts[i := t])"
  using assms by (auto simp: translations_ok_def nth_list_update)

lemma translations_ok_step:
  assumes "translation_step True K c c'" and "names_fresh K" and "translations_ok c"
  shows "translations_ok c'"
  using assms(1)
proof cases
  case (test i ts port s t s')
  have ok: "tables_ok {} s" "\<And>j. j < length ts \<Longrightarrow> thread_ok s (ts ! j)" and port: "proper_name port"
    using assms(3) test(1,3,4) by (auto simp: translations_ok_def dest: spec [of _ i])
  have free: "\<not> is_create (ts ! j)" if "j < length ts" for j using test(5) nth_mem [OF that] by (auto simp: is_create_iff)
  show ?thesis
    using test(6)
  proof (cases rule: send_test_cases)
    case 1
    then show ?thesis unfolding test(2) using ok port free test(3) by (intro translations_ok_update) simp_all
  next
    case (2 p)
    then have "local_ports_by_remote s' = local_ports_by_remote s" "tables_ok {} s'" using ok by auto
    with 2 show ?thesis unfolding test(2) using ok port free test(3)
      by (intro translations_ok_update) (simp_all add: thread_ok_cong [of s' s])
  qed
next
  case (create i ts port s t s')
  have ok: "tables_ok {} s" "\<And>j. j < length ts \<Longrightarrow> thread_ok s (ts ! j)" and port: "thread_ok s (Create port)"
    and free: "\<And>j. j < length ts \<Longrightarrow> j \<noteq> i \<Longrightarrow> \<not> is_create (ts ! j)"
    using assms(3) create(1,3,4) by (auto simp: translations_ok_def dest: spec [of _ i])
  then have none: "local_ports_by_remote s port = None" and "proper_name port" by simp_all
  have "translated (translate_send K port s) port = Inr (t, s')" using create(5) none by (simp add: translate_send_new)
  then have ok': "tables_ok {} s'"
    using tables_ok_translate_send [OF assms(2) ok(1) \<open>proper_name port\<close>] by (auto simp: translated_def)
  from create(5) obtain p where p: "t = Translated port p" "local_ports_by_remote s' = (local_ports_by_remote s)(port \<mapsto> p)"
    by (cases rule: send_create_cases) auto
  show ?thesis unfolding create(2)
    using create(3) ok' p free ok(2) thread_ok_insert [OF _ _ none p(2)] by (intro translations_ok_update) auto
qed

lemma translations_ok_steps:
  "(translation_step True K)\<^sup>*\<^sup>* c c' \<Longrightarrow> names_fresh K \<Longrightarrow> translations_ok c \<Longrightarrow> translations_ok c'"
  by (induction rule: rtranclp_induct) (auto intro: translations_ok_step)

text \<open>With a lock, any number of threads: equal ports get equal proxies, different ports different ones.\<close>

lemma proxies_agree_with_lock:
  assumes "(translation_step True K)\<^sup>*\<^sup>* (s, map Translate rs) (s', ts)" and "names_fresh K" and "tables_ok {} s"
    and "list_all proper_name rs" and "Translated r p \<in> set ts" and "Translated r' p' \<in> set ts"
  shows "r = r' \<longleftrightarrow> p = p'"
proof -
  have "translations_ok (s, map Translate rs)" using assms(3,4) by (auto simp: translations_ok_def list_all_length)
  then have ok: "translations_ok (s', ts)" using translations_ok_steps assms(1,2) by blast
  have "thread_ok s' t" if "t \<in> set ts" for t using that ok by (auto simp: translations_ok_def in_set_conv_nth)
  from this [OF assms(5)] this [OF assms(6)] have "local_ports_by_remote s' r = Some p" "local_ports_by_remote s' r' = Some p'"
    by simp_all
  moreover have "inverse (remote_ports_by_local s') (local_ports_by_remote s')"
    using ok by (simp add: translations_ok_def tables_ok_def)
  ultimately show ?thesis unfolding inverse_def by (metis option.inject)
qed

section \<open>Without a lock\<close>

lemma two_creations:
  assumes "local_ports_by_remote s r = None" and "send_create K r s = Inr (t1, s1)" and "send_create K r s1 = Inr (t2, s2)"
  shows "(translation_step False K)\<^sup>*\<^sup>* (s, [Translate r, Translate r]) (s2, [t1, t2])"
proof -
  have test: "send_test K r s = Inr (Create r, s)" using assms(1) by (simp add: send_test_def)
  have "translation_step False K (s, [Translate r, Translate r]) (s, [Create r, Translate r])"
    using translation_step.test [of 0 "[Translate r, Translate r]" r False K s "Create r" s] test by simp
  moreover have "translation_step False K (s, [Create r, Translate r]) (s, [Create r, Create r])"
    using translation_step.test [of 1 "[Create r, Translate r]" r False K s "Create r" s] test by simp
  moreover have "translation_step False K (s, [Create r, Create r]) (s1, [t1, Create r])"
    using translation_step.create [of 0 "[Create r, Create r]" r K s t1 s1 False] assms(2) by simp
  moreover have "translation_step False K (s1, [t1, Create r]) (s2, [t1, t2])"
    using translation_step.create [of 1 "[t1, Create r]" r K s1 t2 s2 False] assms(3) by simp
  ultimately show ?thesis by (meson converse_rtranclp_into_rtranclp rtranclp.rtrancl_refl)
qed

text \<open>C22: Two messages that carry a send right for one remote port, handled at the same time, break the
  tables: as the code takes no lock, both threads may find no proxy and make one each. The session is then
  in a state that it never reaches when messages are handled one at a time, with two proxies that
  stand for one port, the first of which the port no longer leads to. With a lock around test and
  creation both threads get the same proxy.\<close>

theorem unlocked_translations_diverge:
  assumes "netmsg_reachable K s" and "names_fresh K" and "proper_name r" and "local_ports_by_remote s r = None"
    and "send_create K r s = Inr (t1, s1)" and "send_create K r s1 = Inr (t2, s2)"
  shows "\<exists>p q. p \<noteq> q \<and> (translation_step False K)\<^sup>*\<^sup>* (s, [Translate r, Translate r]) (s2, [Translated r p, Translated r q]) \<and>
    remote_ports_by_local s2 p = Some r \<and> remote_ports_by_local s2 q = Some r \<and> local_ports_by_remote s2 r = Some q \<and>
    \<not> netmsg_reachable K s2 \<and>
    (\<forall>s' p q. (translation_step True K)\<^sup>*\<^sup>* (s, [Translate r, Translate r]) (s', [Translated r p, Translated r q]) \<longrightarrow> p = q)"
proof -
  obtain p where p: "t1 = Translated r p" "local_port_type s1 = (local_port_type s)(p \<mapsto> MACH_MSG_TYPE_PORT_RECEIVE)"
    "remote_ports_by_local s1 = (remote_ports_by_local s)(p \<mapsto> r)"
    using assms(5) by (cases rule: send_create_cases) auto
  obtain q where q: "t2 = Translated r q" "allocates K s1 = Some q" "local_ports_by_remote s2 r = Some q"
    "remote_ports_by_local s2 = (remote_ports_by_local s1)(q \<mapsto> r)"
    using assms(6) by (cases rule: send_create_cases) auto
  have "\<not> is_known s1 q" using assms(2) q(2) by (simp add: names_fresh_def)
  then have pq: "p \<noteq> q" using p(2) by (auto simp: is_known_def)
  have "remote_ports_by_local s2 p = Some r" using p(3) q(4) pq by simp
  then have "\<not> tables_ok {} s2" using q(3) pq unfolding tables_ok_def inverse_def by (metis option.inject)
  then have "\<not> netmsg_reachable K s2" using tables_ok_reachable assms(2) by blast
  moreover have "p = q" if "(translation_step True K)\<^sup>*\<^sup>* (s, [Translate r, Translate r]) (s', [Translated r p, Translated r q])" for s' p q
    using proxies_agree_with_lock [of K s "[r, r]" s' _ r p r q] that assms(2,3) tables_ok_reachable [OF assms(1,2)] by simp
  ultimately show ?thesis
    using two_creations [OF assms(4-6)] p q pq by (intro exI [of _ p] exI [of _ q]) auto
qed

lemma andThen_not_isl: "\<not> isl (andThen r f) \<Longrightarrow> \<exists>x y. r = Inr x \<and> f x = Inr y"
  by (cases r; cases "f (projr r)") auto

lemma unlocked_translations_diverge_witness:
  "\<exists>p q s2. p \<noteq> q \<and> (translation_step False test_kernel)\<^sup>*\<^sup>* (started True, [Translate 9, Translate 9]) (s2, [Translated 9 p, Translated 9 q]) \<and>
    \<not> netmsg_reachable test_kernel s2"
proof -
  have "\<not> isl (andThen (send_create test_kernel 9 (started True)) (\<lambda>x. send_create test_kernel 9 (snd x)))" by code_simp
  from andThen_not_isl [OF this] obtain x y where "send_create test_kernel 9 (started True) = Inr (fst x, snd x)"
    "send_create test_kernel 9 (snd x) = Inr (fst y, snd y)" by auto
  moreover have "local_ports_by_remote (started True) 9 = None" "proper_name 9" by code_simp+
  ultimately show ?thesis
    using unlocked_translations_diverge [OF started_reachable names_fresh_test] by blast
qed

end
