(* ===== verification/Msgids.thy ===== *)
theory Msgids
  imports Mach_Types "HOL-Library.Signed_Division" "HOL-Library.Sublist"
begin

text \<open>
  \<open>src/netmsg/msgids.c\<close>: the names of messages. Files with lines as MIG's \<^verbatim>\<open>-list\<close> prints them,
  ``subsystem base-id routine n request-id reply-id'', fill a table from request ids to names; a
  lookup makes up the name of a reply from that of its request and keeps it in the table.

  \<^item> The table is a \<^verbatim>\<open>hurd_ihash\<close>, of a library outside the repository: its operations are the
    parameter \<open>ihash\<close>, and \<open>ihash_ok\<close> is what its documentation promises when memory suffices.
  \<^item> What the C library answers is in \<open>libc\<close>: the contents of files, the entries of directories,
    whether an allocation succeeds. The scanning of \<^verbatim>\<open>sscanf\<close> and \<^verbatim>\<open>getline\<close> is defined here, for the
    conversions that the code uses; an \<^verbatim>\<open>unsigned long\<close> has 32 bits.
  \<^item> Where the code prints a diagnostic and goes on, the model records the number of the line.
\<close>

section \<open>The table\<close>

text \<open>\<^verbatim>\<open>struct msgid_info\<close>; a null pointer is \<open>None\<close>.\<close>

record msgid_entry =
  info_name :: "string option"
  info_subsystem :: "string option"

type_synonym error_t = int

record 'h ihash =
  ihash_find :: "'h \<Rightarrow> 32 word \<Rightarrow> msgid_entry option"
  ihash_add :: "'h \<Rightarrow> 32 word \<Rightarrow> msgid_entry \<Rightarrow> error_t \<times> 'h"

definition ihash_ok :: "'h ihash \<Rightarrow> bool" where
  "ihash_ok H \<longleftrightarrow> (\<forall>h k v. fst (ihash_add H h k v) = 0 \<and>
     ihash_find H (snd (ihash_add H h k v)) = (ihash_find H h)(k \<mapsto> v))"

record libc =
  fopen :: "string \<Rightarrow> error_t + string"
  scandir :: "string \<Rightarrow> string list option"
  mallocs :: "32 word \<Rightarrow> bool"

section \<open>Reading a list\<close>

abbreviation NUL :: char where "NUL \<equiv> CHR 0x00"
abbreviation LF :: char where "LF \<equiv> CHR 0x0A"

definition is_space :: "char \<Rightarrow> bool" where
  "is_space c \<longleftrightarrow> c \<in> set [CHR '' '', CHR 0x09, LF, CHR 0x0B, CHR 0x0C, CHR 0x0D]"

definition digit :: "char \<Rightarrow> nat option" where
  "digit c = (if 48 \<le> (of_char c :: nat) \<and> (of_char c :: nat) \<le> 57 then Some (of_char c - 48) else None)"

text \<open>\<^verbatim>\<open>%ms\<close>: a word, after white space.\<close>

definition scan_word :: "string \<Rightarrow> (string \<times> string) option" where
  "scan_word s =
     (let t = dropWhile is_space s; w = takeWhile (\<lambda>c. \<not> is_space c) t
      in if w = [] then None else Some (w, drop (length w) t))"

text \<open>\<^verbatim>\<open>%u\<close>: a sign or none, and digits; too large a number gives the largest.\<close>

primrec number :: "nat \<Rightarrow> string \<Rightarrow> nat" where
  "number a [] = a"
| "number a (c # cs) = number (10 * a + the (digit c)) cs"

definition scan_unsigned :: "string \<Rightarrow> (32 word \<times> string) option" where
  "scan_unsigned s =
     (let t = dropWhile is_space s;
          negative = (take 1 t = ''-'');
          u = (if take 1 t \<in> {''-'', ''+''} then drop 1 t else t);
          ds = takeWhile (\<lambda>c. digit c \<noteq> None) u;
          n = number 0 ds
      in if ds = [] then None
         else Some (if n \<ge> 2 ^ 32 then - 1 else if negative then - of_nat n else of_nat n, drop (length ds) u))"

text \<open>
  \<^verbatim>\<open>sscanf (buffer, "%ms %*u %ms %*u %u %*u\n", &subsystem, &name, &msgid)\<close>: \<open>Some\<close> if it returns 3.
  The last conversion assigns nothing, so it does not matter whether it succeeds.
\<close>

definition scan_line :: "string \<Rightarrow> (string \<times> string \<times> 32 word) option" where
  "scan_line buffer =
     Option.bind (scan_word (takeWhile (\<lambda>c. c \<noteq> NUL) buffer)) (\<lambda>(subsystem, s).
     Option.bind (scan_unsigned s) (\<lambda>(_, s).
     Option.bind (scan_word s) (\<lambda>(name, s).
     Option.bind (scan_unsigned s) (\<lambda>(_, s).
     Option.bind (scan_unsigned s) (\<lambda>(msgid, _). Some (subsystem, name, msgid))))))"

definition getline :: "string \<Rightarrow> (string \<times> string) option" where
  "getline s = (if s = [] then None
     else let l = takeWhile (\<lambda>c. c \<noteq> LF) s in Some (l @ take 1 (drop (length l) s), drop (length l + 1) s))"

lemma getline_shorter: "getline s = Some (l, s') \<Longrightarrow> length s' < length s"
  by (auto simp: getline_def Let_def split: if_splits)

text \<open>The loop of \<^verbatim>\<open>parse_msgid_list\<close>: the error it returns, the table, and the lines found wrong.\<close>

function (sequential) parse_lines ::
  "'h ihash \<Rightarrow> libc \<Rightarrow> 32 word \<Rightarrow> string \<Rightarrow> 'h \<Rightarrow> (error_t \<times> 'h \<times> 32 word list) result" where
  "parse_lines H C lineno s h =
     (case getline s of
        None \<Rightarrow> Inr (0, h, [])
      | Some (buffer, s') \<Rightarrow>
          let lineno = lineno + 1 in
          if hd buffer = CHR ''#'' \<or> hd buffer = NUL then parse_lines H C lineno s' h
          else case scan_line buffer of
            None \<Rightarrow> andThen (parse_lines H C lineno s' h) (\<lambda>(err, h', wrong). Inr (err, h', lineno # wrong))
          | Some (subsystem, nm, msgid) \<Rightarrow>
              if \<not> mallocs C lineno then Inl (Process_exit ''malloc'')
              else
                let (err, h') = ihash_add H h msgid \<lparr>info_name = Some nm, info_subsystem = Some subsystem\<rparr> in
                if err \<noteq> 0 then Inr (err, h', []) else parse_lines H C lineno s' h')"
  by pat_completeness auto
termination
  by (relation "measure (\<lambda>(H, C, l, s, h). length s)") (auto dest: getline_shorter)

declare parse_lines.simps [simp del]

definition parse_msgid_list ::
  "'h ihash \<Rightarrow> libc \<Rightarrow> string \<Rightarrow> 'h \<Rightarrow> (error_t \<times> 'h \<times> 32 word list) result" where
  "parse_msgid_list H C filename h =
     (case fopen C filename of Inl errno \<Rightarrow> Inr (errno, h, []) | Inr s \<Rightarrow> parse_lines H C 0 s h)"

section \<open>Looking up a name\<close>

text \<open>Which of the allocations of a lookup succeed.\<close>

record allocation =
  malloc_ok :: bool
  strdup_ok :: bool
  asprintf_ok :: bool

text \<open>\<^verbatim>\<open>(msgid / 100) % 2 == 1\<close>, on a signed number.\<close>

definition is_reply :: "32 word \<Rightarrow> bool" where
  "is_reply msgid \<longleftrightarrow> (sint msgid sdiv 100) smod 2 = 1"

definition msgid_info :: "'h ihash \<Rightarrow> allocation \<Rightarrow> 32 word \<Rightarrow> 'h \<Rightarrow> msgid_entry option \<times> 'h" where
  "msgid_info H a msgid h =
     (case ihash_find H h msgid of
        Some info \<Rightarrow> (Some info, h)
      | None \<Rightarrow>
          if is_reply msgid then
            (case ihash_find H h (msgid - 100) of
               None \<Rightarrow> (None, h)
             | Some info \<Rightarrow>
                 if malloc_ok a then
                   (let reply_info = \<lparr>info_name = if asprintf_ok a
                          then Some ((case info_name info of Some nm \<Rightarrow> nm | None \<Rightarrow> ''(null)'') @ ''-reply'') else None,
                        info_subsystem = if strdup_ok a then info_subsystem info else None\<rparr>
                    in (Some reply_info, snd (ihash_add H h msgid reply_info)))
                 else (None, h))
          else (None, h))"

text \<open>\<^verbatim>\<open>sprintf (buffer, "%d", msgid)\<close>\<close>

fun decimal :: "nat \<Rightarrow> string" where
  "decimal n = (if n < 10 then [char_of (48 + n)] else decimal (n div 10) @ [char_of (48 + n mod 10)])"

declare decimal.simps [simp del]

definition signed_decimal :: "int \<Rightarrow> string" where
  "signed_decimal i = (if i < 0 then CHR ''-'' # decimal (nat (- i)) else decimal (nat i))"

text \<open>\<^verbatim>\<open>msgid_name\<close> of \<open>src/netmsg/netmsg.cc\<close>.\<close>

definition msgid_name :: "'h ihash \<Rightarrow> allocation \<Rightarrow> 32 word \<Rightarrow> 'h \<Rightarrow> string option \<times> 'h" where
  "msgid_name H a msgid h =
     (let (info, h') = msgid_info H a msgid h
      in (case info of Some i \<Rightarrow> info_name i | None \<Rightarrow> Some (signed_decimal (sint msgid)), h'))"

section \<open>The options\<close>

definition msgids_file_p :: "string \<Rightarrow> bool" where
  "msgids_file_p d_name \<longleftrightarrow> suffix ''.msgids'' d_name"

text \<open>An argz vector is a list of strings; \<^verbatim>\<open>argz_insert\<close> before the first one puts a string in front.\<close>

definition scan_msgids_dir :: "libc \<Rightarrow> string list \<Rightarrow> string \<Rightarrow> bool \<Rightarrow> string list" where
  "scan_msgids_dir C argz dir at_end =
     (case scandir C dir of
        None \<Rightarrow> argz
      | Some eps \<Rightarrow> fold (\<lambda>d_name argz. let msgids_file = dir @ ''/'' @ d_name
          in if at_end then argz @ [msgids_file] else msgids_file # argz) (filter msgids_file_p eps) argz)"

record 'h msgid_options =
  msgids_files_argz :: "string list"
  nostdinc :: bool
  msgid_ihash :: 'h

datatype opt_key = ARGP_KEY_INIT | OPT_NOSTDINC | Opt_i string | Opt_I string | ARGP_KEY_NO_ARGS | ARGP_KEY_ARG string
  | ARGP_KEY_END | Other_key

text \<open>\<^verbatim>\<open>DATADIR\<close> is set when the program is built.\<close>

definition STD_MSGIDS_DIR :: "string \<Rightarrow> string" where
  "STD_MSGIDS_DIR DATADIR = DATADIR @ ''/msgids/''"

primrec parse_files :: "'h ihash \<Rightarrow> libc \<Rightarrow> string list \<Rightarrow> 'h \<Rightarrow> (error_t \<times> 'h) result" where
  "parse_files H C [] h = Inr (0, h)"
| "parse_files H C (f # fs) h = andThen (parse_msgid_list H C f h) (\<lambda>(err, h', _).
     if err \<noteq> 0 then Inr (err, h') else parse_files H C fs h')"

abbreviation EINVAL :: error_t where "EINVAL \<equiv> 0x40000016"
abbreviation ARGP_ERR_UNKNOWN :: error_t where "ARGP_ERR_UNKNOWN \<equiv> 0x40000007"

definition parse_opt ::
  "'h ihash \<Rightarrow> libc \<Rightarrow> string \<Rightarrow> opt_key \<Rightarrow> 'h msgid_options \<Rightarrow> (error_t \<times> 'h msgid_options) result" where
  "parse_opt H C DATADIR key s =
     (case key of
        ARGP_KEY_INIT \<Rightarrow> Inr (0, s)
      | OPT_NOSTDINC \<Rightarrow> Inr (0, s\<lparr>nostdinc := True\<rparr>)
      | Opt_i arg \<Rightarrow> Inr (0, s\<lparr>msgids_files_argz := msgids_files_argz s @ [arg]\<rparr>)
      | Opt_I arg \<Rightarrow> Inr (0, s\<lparr>msgids_files_argz := scan_msgids_dir C (msgids_files_argz s) arg True\<rparr>)
      | ARGP_KEY_NO_ARGS \<Rightarrow> Inr (0, s)
      | ARGP_KEY_ARG _ \<Rightarrow> Inr (EINVAL, s)
      | ARGP_KEY_END \<Rightarrow>
          let argz = (if nostdinc s then msgids_files_argz s
                      else scan_msgids_dir C (msgids_files_argz s) (STD_MSGIDS_DIR DATADIR) False)
          in andThen (parse_files H C argz (msgid_ihash s)) (\<lambda>(err, h).
               if err \<noteq> 0 then Inl (Process_exit ''argp_failure'')
               else Inr (0, s\<lparr>msgids_files_argz := argz, msgid_ihash := h\<rparr>))
      | Other_key \<Rightarrow> Inr (ARGP_ERR_UNKNOWN, s))"

text \<open>\<^verbatim>\<open>argp_parse\<close> calls the parser with one key after the other, as long as it returns 0.\<close>

primrec parse_opts ::
  "'h ihash \<Rightarrow> libc \<Rightarrow> string \<Rightarrow> opt_key list \<Rightarrow> 'h msgid_options \<Rightarrow> (error_t \<times> 'h msgid_options) result" where
  "parse_opts H C D [] s = Inr (0, s)"
| "parse_opts H C D (k # ks) s = andThen (parse_opt H C D k s) (\<lambda>(err, s').
     if err \<noteq> 0 then Inr (err, s') else parse_opts H C D ks s')"

end
