(* ===== verification/Msgids_Properties.thy ===== *)
theory Msgids_Properties
  imports Msgids
begin

text \<open>
  The properties of the table of message names: lists are read as they were printed, later lists
  override earlier ones, and the names that lookups add to the table change no answer.
\<close>

section \<open>Numbers and words\<close>

lemma digit_char [simp]: "n < 10 \<Longrightarrow> digit (char_of (48 + n)) = Some n"
  by (simp add: digit_def)

lemma decimal_digits: "list_all (\<lambda>c. digit c \<noteq> None) (decimal n)"
  by (induction n rule: decimal.induct) (subst decimal.simps, simp)

lemma decimal_nonempty [simp]: "decimal n \<noteq> []"
  by (subst decimal.simps) simp

lemma number_append: "number a (xs @ ys) = number (number a xs) ys"
  by (induction xs arbitrary: a) simp_all

lemma number_decimal: "number 0 (decimal n) = n"
proof (induction n rule: decimal.induct)
  case (1 n)
  then show ?case by (subst decimal.simps) (simp add: number_append)
qed

lemma digit_plain: "digit c \<noteq> None \<Longrightarrow> \<not> is_space c \<and> c \<noteq> NUL \<and> c \<noteq> CHR ''-'' \<and> c \<noteq> CHR ''+''"
  by (auto simp: digit_def is_space_def split: if_splits)

definition is_word :: "string \<Rightarrow> bool" where
  "is_word w \<longleftrightarrow> w \<noteq> [] \<and> list_all (\<lambda>c. \<not> is_space c \<and> c \<noteq> NUL) w"

lemma is_word_decimal [simp]: "is_word (decimal n)"
  using decimal_digits [of n] digit_plain by (simp add: is_word_def list_all_iff)

definition ends :: "string \<Rightarrow> bool" where
  "ends r \<longleftrightarrow> (r = [] \<or> is_space (hd r))"

lemma space_is_space [simp]: "is_space CHR '' ''" "is_space LF"
  by (simp_all add: is_space_def)

lemma ends_simps [simp]: "ends (CHR '' '' # r)" "ends (LF # r)"
  by (simp_all add: ends_def)

lemma takeWhile_block: "list_all P w \<Longrightarrow> r = [] \<or> \<not> P (hd r) \<Longrightarrow> takeWhile P (w @ r) = w"
  by (cases r) (auto simp: list_all_iff takeWhile_append2)

lemma dropWhile_word: "is_word w \<Longrightarrow> dropWhile is_space (w @ r) = w @ r"
  by (cases w) (simp_all add: is_word_def)

lemma scan_word_word:
  assumes "is_word w" and "ends r"
  shows "scan_word (w @ r) = Some (w, r)" and "scan_word (CHR '' '' # w @ r) = Some (w, r)"
proof -
  have "takeWhile (\<lambda>c. \<not> is_space c) (w @ r) = w"
    using assms by (intro takeWhile_block) (auto simp: is_word_def ends_def list_all_iff)
  then show "scan_word (w @ r) = Some (w, r)" "scan_word (CHR '' '' # w @ r) = Some (w, r)"
    using assms(1) by (simp_all add: scan_word_def dropWhile_word is_word_def)
qed

lemma scan_unsigned_decimal:
  assumes "ends r"
  shows "scan_unsigned (CHR '' '' # decimal n @ r) = Some (if n \<ge> 2 ^ 32 then - 1 else of_nat n, r)"
proof -
  obtain c cs where d: "decimal n = c # cs" by (cases "decimal n") simp_all
  then have "digit c \<noteq> None" using decimal_digits [of n] by simp
  from digit_plain [OF this] have c: "c \<noteq> CHR ''-''" "c \<noteq> CHR ''+''" by simp_all
  have "digit (hd r) = None" if "r \<noteq> []" using assms that digit_plain [of "hd r"] by (cases "digit (hd r)") (auto simp: ends_def)
  then have "r = [] \<or> \<not> digit (hd r) \<noteq> None" by (cases "r = []") simp_all
  from takeWhile_block [OF decimal_digits this] have t: "takeWhile (\<lambda>c. digit c \<noteq> None) (decimal n @ r) = decimal n" .
  have "take 1 (decimal n @ r) = [c]" by (simp add: d)
  then show ?thesis
    using c t by (simp add: scan_unsigned_def dropWhile_word number_decimal Let_def)
qed

section \<open>A list is read as it was printed\<close>

text \<open>A line of a list: a comment, or a routine as MIG prints it.\<close>

datatype list_line = Comment string | Routine string nat string nat "32 word" nat

fun print_line :: "list_line \<Rightarrow> string" where
  "print_line (Comment c) = CHR ''#'' # c @ [LF]"
| "print_line (Routine subsystem base nm n request reply) =
     subsystem @ '' '' @ decimal base @ '' '' @ nm @ '' '' @ decimal n @ '' '' @ decimal (unat request) @ '' '' @ decimal reply @ [LF]"

fun line_ok :: "list_line \<Rightarrow> bool" where
  "line_ok (Comment c) \<longleftrightarrow> LF \<notin> set c"
| "line_ok (Routine subsystem base nm n request reply) \<longleftrightarrow> is_word subsystem \<and> hd subsystem \<noteq> CHR ''#'' \<and> is_word nm"

fun line_table :: "list_line \<Rightarrow> (32 word \<rightharpoonup> msgid_entry)" where
  "line_table (Comment c) = Map.empty"
| "line_table (Routine subsystem base nm n request reply) = [request \<mapsto> \<lparr>info_name = Some nm, info_subsystem = Some subsystem\<rparr>]"

definition print_list :: "list_line list \<Rightarrow> string" where
  "print_list ls = concat (map print_line ls)"

text \<open>What a list says; a later line overrides an earlier one.\<close>

definition list_table :: "list_line list \<Rightarrow> (32 word \<rightharpoonup> msgid_entry)" where
  "list_table ls = foldl (++) Map.empty (map line_table ls)"

lemma foldl_map_add: "foldl (++) m ms = m ++ foldl (++) Map.empty ms"
proof (induction ms arbitrary: m)
  case (Cons x ms)
  from Cons.IH [of "m ++ x"] Cons.IH [of x] show ?case by simp
qed simp

lemma list_table_Cons: "list_table (l # ls) = line_table l ++ list_table ls"
  using foldl_map_add [of "line_table l" "map line_table ls"] by (simp add: list_table_def)

lemma is_word_plain: "is_word w \<Longrightarrow> LF \<notin> set w \<and> NUL \<notin> set w"
  unfolding is_word_def list_all_iff using space_is_space(2) by blast

lemma getline_printed: "line_ok l \<Longrightarrow> getline (print_line l @ r) = Some (print_line l, r)"
proof -
  assume "line_ok l"
  then obtain p where p: "print_line l = p @ [LF]" "LF \<notin> set p"
    by (cases l) (simp_all add: is_word_plain)
  then have "takeWhile (\<lambda>c. c \<noteq> LF) (p @ LF # r) = p" by (intro takeWhile_block) (auto simp: list_all_iff)
  then show ?thesis by (simp add: getline_def p)
qed

lemma scan_line_printed:
  assumes "line_ok (Routine subsystem base nm n request reply)"
  shows "scan_line (print_line (Routine subsystem base nm n request reply)) = Some (subsystem, nm, request)"
proof -
  let ?l = "print_line (Routine subsystem base nm n request reply)"
  have "NUL \<notin> set ?l" using assms by (simp add: is_word_plain)
  then have "takeWhile (\<lambda>c. c \<noteq> NUL) ?l = ?l" unfolding takeWhile_eq_all_conv by blast
  moreover have "unat request < 4294967296" using unsigned_less [of request] by simp
  ultimately show ?thesis using assms by (simp add: scan_line_def scan_word_word scan_unsigned_decimal)
qed

lemma parse_lines_printed:
  assumes "ihash_ok H" and "\<forall>l. mallocs C l" and "list_all line_ok ls"
  shows "\<exists>h'. parse_lines H C lineno (print_list ls) h = Inr (0, h', []) \<and> ihash_find H h' = ihash_find H h ++ list_table ls"
  using assms(3)
proof (induction ls arbitrary: lineno h)
  case Nil
  then show ?case by (simp add: print_list_def list_table_def getline_def parse_lines.simps)
next
  case (Cons l ls)
  have p: "print_list (l # ls) = print_line l @ print_list ls" by (simp add: print_list_def)
  have g: "getline (print_line l @ print_list ls) = Some (print_line l, print_list ls)"
    using Cons.prems by (intro getline_printed) simp
  show ?case
  proof (cases l)
    case (Comment c)
    then have "hd (print_line l) = CHR ''#''" by simp
    then have "parse_lines H C lineno (print_list (l # ls)) h = parse_lines H C (lineno + 1) (print_list ls) h"
      unfolding p by (subst parse_lines.simps) (simp add: g)
    with Cons show ?thesis by (simp add: list_table_Cons Comment)
  next
    case (Routine subsystem base nm n request reply)
    let ?v = "\<lparr>info_name = Some nm, info_subsystem = Some subsystem\<rparr>" and ?h = "snd (ihash_add H h request \<lparr>info_name = Some nm, info_subsystem = Some subsystem\<rparr>)"
    have w: "is_word subsystem" "hd subsystem \<noteq> CHR ''#''" using Cons.prems by (simp_all add: Routine)
    then have "hd (print_line l) \<noteq> CHR ''#''" "hd (print_line l) \<noteq> NUL"
      by (cases subsystem; simp add: Routine is_word_def)+
    moreover have "scan_line (print_line l) = Some (subsystem, nm, request)"
      using Cons.prems unfolding Routine by (intro scan_line_printed) simp
    moreover obtain h1 where a: "ihash_add H h request ?v = (0, h1)" "ihash_find H h1 = (ihash_find H h)(request \<mapsto> ?v)"
      using assms(1) by (metis ihash_ok_def prod.collapse)
    ultimately have "parse_lines H C lineno (print_list (l # ls)) h = parse_lines H C (lineno + 1) (print_list ls) h1"
      using g assms(2) by (subst parse_lines.simps) (simp add: p)
    moreover from Cons.IH [of "lineno + 1" h1] Cons.prems obtain h'
      where "parse_lines H C (lineno + 1) (print_list ls) h1 = Inr (0, h', [])"
        "ihash_find H h' = ihash_find H h1 ++ list_table ls" by auto
    ultimately show ?thesis by (simp add: list_table_Cons Routine a(2))
  qed
qed

section \<open>The lists that the options name\<close>

lemma scan_msgids_dir_eq:
  "scan_msgids_dir C argz dir at_end =
     (let fs = (case scandir C dir of None \<Rightarrow> [] | Some eps \<Rightarrow> map (\<lambda>f. dir @ ''/'' @ f) (filter msgids_file_p eps))
      in if at_end then argz @ fs else rev fs @ argz)"
proof -
  have "fold (\<lambda>d argz. argz @ [g d]) xs argz = argz @ map g xs" "fold (\<lambda>d argz. g d # argz) xs argz = rev (map g xs) @ argz"
    for g xs and argz :: "string list" by (induction xs arbitrary: argz) simp_all
  note this [of "\<lambda>f. dir @ ''/'' @ f"]
  then show ?thesis by (auto simp: scan_msgids_dir_def Let_def split: option.split)
qed

text \<open>The files of a directory of lists, in the order of the directory.\<close>

definition dir_files :: "libc \<Rightarrow> string \<Rightarrow> string list" where
  "dir_files C dir = (case scandir C dir of None \<Rightarrow> [] | Some eps \<Rightarrow> map (\<lambda>f. dir @ ''/'' @ f) (filter msgids_file_p eps))"

lemma parse_files_printed:
  assumes "ihash_ok H" and "\<forall>l. mallocs C l"
    and "\<forall>f \<in> set fs. fopen C f = Inr (print_list (L f)) \<and> list_all line_ok (L f)"
  shows "\<exists>h'. parse_files H C fs h = Inr (0, h') \<and> ihash_find H h' = foldl (++) (ihash_find H h) (map (\<lambda>f. list_table (L f)) fs)"
  using assms(3)
proof (induction fs arbitrary: h)
  case (Cons f fs)
  then obtain h1 where 1: "parse_msgid_list H C f h = Inr (0, h1, [])" "ihash_find H h1 = ihash_find H h ++ list_table (L f)"
    using parse_lines_printed [OF assms(1,2), of "L f" 0 h] by (auto simp: parse_msgid_list_def)
  from Cons.IH [of h1] Cons.prems obtain h' where "parse_files H C fs h1 = Inr (0, h')"
    "ihash_find H h' = foldl (++) (ihash_find H h1) (map (\<lambda>f. list_table (L f)) fs)" by auto
  with 1 show ?case by simp
qed simp

text \<open>The effect of the options before the end of the command line.\<close>

fun opt_files :: "libc \<Rightarrow> opt_key \<Rightarrow> string list" where
  "opt_files C (Opt_i f) = [f]"
| "opt_files C (Opt_I d) = dir_files C d"
| "opt_files C k = []"

fun is_option :: "opt_key \<Rightarrow> bool" where
  "is_option (Opt_i f) = True"
| "is_option (Opt_I d) = True"
| "is_option ARGP_KEY_INIT = True"
| "is_option ARGP_KEY_NO_ARGS = True"
| "is_option k = False"

lemma parse_opts_options:
  "list_all is_option ks \<Longrightarrow> parse_opts H C D (ks @ ks') s =
     parse_opts H C D ks' (s\<lparr>msgids_files_argz := msgids_files_argz s @ concat (map (opt_files C) ks)\<rparr>)"
proof (induction ks arbitrary: s)
  case (Cons k ks)
  then show ?case by (cases k) (simp_all add: parse_opt_def scan_msgids_dir_eq dir_files_def Let_def)
qed simp

text \<open>C40: The command line names lists of message names and directories of such lists. When all of them
  are as MIG prints them, the table says after the end of the options what the lists say; where
  several lists name a message the one given last on the command line counts, and all of them
  override the standard lists.\<close>

theorem msgid_lists_loaded:
  assumes "ihash_ok H" and "\<forall>l. mallocs C l" and "list_all is_option ks"
    and "fs = rev (dir_files C (STD_MSGIDS_DIR D)) @ concat (map (opt_files C) ks)"
    and "\<forall>f \<in> set fs. fopen C f = Inr (print_list (L f)) \<and> list_all line_ok (L f)"
  shows "\<exists>s'. parse_opts H C D (ks @ [ARGP_KEY_END]) \<lparr>msgids_files_argz = [], nostdinc = False, msgid_ihash = h\<rparr> = Inr (0, s') \<and>
    ihash_find H (msgid_ihash s') = foldl (++) (ihash_find H h) (map (\<lambda>f. list_table (L f)) fs)"
proof -
  from parse_files_printed [OF assms(1,2,5), of h] obtain h' where h': "parse_files H C fs h = Inr (0, h')"
    "ihash_find H h' = foldl (++) (ihash_find H h) (map (\<lambda>f. list_table (L f)) fs)" by blast
  have "scan_msgids_dir C (concat (map (opt_files C) ks)) (STD_MSGIDS_DIR D) False = fs"
    by (simp add: assms(4) scan_msgids_dir_eq dir_files_def)
  with h' show ?thesis by (simp add: parse_opts_options [OF assms(3)] parse_opt_def)
qed

text \<open>A table that is a plain map, two lists that both name the message 2001, one of them standard.\<close>

definition map_ihash :: "(32 word \<rightharpoonup> msgid_entry) ihash" where
  "map_ihash = \<lparr>ihash_find = (\<lambda>h. h), ihash_add = (\<lambda>h k v. (0, h(k \<mapsto> v)))\<rparr>"

definition sample_list :: "string \<Rightarrow> list_line list" where
  "sample_list f = [Comment ''names'', Routine ''memory_object'' 2000 (if f = ''mine'' then ''own_name'' else ''lock_request'') 1 2001 2101]"

definition sample_libc :: libc where
  "sample_libc = \<lparr>fopen = (\<lambda>f. Inr (print_list (sample_list f))),
     scandir = (\<lambda>d. Some [''a.msgids'', ''README'']), mallocs = (\<lambda>l. True)\<rparr>"

lemma ihash_ok_map: "ihash_ok map_ihash"
  by (simp add: ihash_ok_def map_ihash_def)

lemma sample_list_ok: "list_all line_ok (sample_list f)"
proof -
  have "line_ok (Comment ''names'')" "line_ok (Routine ''memory_object'' 2000 ''own_name'' 1 2001 2101)"
    "line_ok (Routine ''memory_object'' 2000 ''lock_request'' 1 2001 2101)" by code_simp+
  then show ?thesis unfolding sample_list_def by simp
qed

lemma msgid_lists_loaded_witness:
  "\<exists>s'. parse_opts map_ihash sample_libc ''/usr/share'' ([ARGP_KEY_INIT, Opt_i ''mine''] @ [ARGP_KEY_END])
       \<lparr>msgids_files_argz = [], nostdinc = False, msgid_ihash = Map.empty\<rparr> = Inr (0, s') \<and>
     map_option info_name (ihash_find map_ihash (msgid_ihash s') 2001) = Some (Some ''own_name'')"
proof -
  let ?fs = "rev (dir_files sample_libc (STD_MSGIDS_DIR ''/usr/share'')) @ concat (map (opt_files sample_libc) [ARGP_KEY_INIT, Opt_i ''mine''])"
  have "\<forall>l. mallocs sample_libc l" by (simp add: sample_libc_def)
  moreover have "\<forall>f \<in> set ?fs. fopen sample_libc f = Inr (print_list (sample_list f)) \<and> list_all line_ok (sample_list f)"
    by (simp add: sample_libc_def sample_list_ok)
  moreover have "map_option info_name (foldl (++) Map.empty (map (\<lambda>f. list_table (sample_list f)) ?fs) 2001) = Some (Some ''own_name'')"
    by code_simp
  moreover have "list_all is_option [ARGP_KEY_INIT, Opt_i ''mine'']" by simp
  moreover have "ihash_find map_ihash h = h" for h by (simp add: map_ihash_def)
  ultimately show ?thesis
    using msgid_lists_loaded [OF ihash_ok_map, of sample_libc "[ARGP_KEY_INIT, Opt_i ''mine'']" ?fs "''/usr/share''" sample_list Map.empty]
    by metis
qed

section \<open>Lookups\<close>

text \<open>What a lookup should answer, from the table as it was loaded.\<close>

definition reply_name :: "msgid_entry \<Rightarrow> msgid_entry" where
  "reply_name i = i\<lparr>info_name := Some ((case info_name i of Some nm \<Rightarrow> nm | None \<Rightarrow> ''(null)'') @ ''-reply'')\<rparr>"

definition named :: "(32 word \<rightharpoonup> msgid_entry) \<Rightarrow> 32 word \<Rightarrow> msgid_entry option" where
  "named T msgid = (case T msgid of Some i \<Rightarrow> Some i
     | None \<Rightarrow> if is_reply msgid then map_option reply_name (T (msgid - 100)) else None)"

primrec lookups :: "'h ihash \<Rightarrow> allocation \<Rightarrow> 32 word list \<Rightarrow> 'h \<Rightarrow> msgid_entry option list" where
  "lookups H a [] h = []"
| "lookups H a (i # is) h = (let (r, h') = msgid_info H a i h in r # lookups H a is h')"

lemma sint_minus_100: "100 \<le> sint i \<Longrightarrow> sint (i - 100) = sint i - (100 :: int)" for i :: "32 word"
proof -
  assume i: "100 \<le> sint i"
  have "sint i < 2 ^ 31" using sint_lt [of i] by simp
  moreover have "sint (i - 100) = signed_take_bit 31 (sint i - 100)"
    by (simp add: sint_word_ariths)
  ultimately show ?thesis using i by (simp add: signed_take_bit_int_eq_self)
qed

lemma odd_hundreds: "(k sdiv 100) smod 2 = 1 \<longleftrightarrow> 0 \<le> k \<and> (k div 100) mod 2 = 1" for k :: int
proof (cases "0 \<le> k")
  case True
  then have "0 \<le> k div 100" by simp
  with True show ?thesis by (cases "k = 0"; cases "k div 100 = 0") (auto simp: signed_divide_int_def signed_modulo_int_def sgn_if)
next
  case False
  then have "k sdiv 100 \<le> 0" by (simp add: signed_divide_int_def pos_imp_zdiv_nonneg_iff)
  then have "(k sdiv 100) smod 2 \<le> 0" by (auto simp: signed_modulo_int_def sgn_if)
  with False show ?thesis by simp
qed

lemma reply_of_request: "is_reply i \<Longrightarrow> \<not> is_reply (i - 100)"
proof -
  assume "is_reply i"
  then have r: "0 \<le> sint i" "(sint i div 100) mod 2 = 1" by (simp_all add: is_reply_def odd_hundreds)
  then have "100 \<le> sint i" by (cases "sint i < 100") auto
  from sint_minus_100 [OF this] have "sint (i - 100) div 100 = sint i div 100 - 1" by simp
  moreover have "((x :: int) - 1) mod 2 \<noteq> 1" if "x mod 2 = 1" for x using that by presburger
  ultimately show ?thesis using r(2) by (simp add: is_reply_def odd_hundreds)
qed

text \<open>The table after some lookups: it has grown by names that a lookup in the loaded table gives too.\<close>

definition grown :: "(32 word \<rightharpoonup> msgid_entry) \<Rightarrow> (32 word \<rightharpoonup> msgid_entry) \<Rightarrow> bool" where
  "grown T T' \<longleftrightarrow> (\<forall>i. (T i \<noteq> None \<longrightarrow> T' i = T i) \<and> (T' i \<noteq> None \<longrightarrow> named T i = T' i))"

lemma grown_request: "grown T T' \<Longrightarrow> is_reply i \<Longrightarrow> T' (i - 100) = T (i - 100)"
proof -
  assume g: "grown T T'" and r: "is_reply i"
  from reply_of_request [OF r] have "named T (i - 100) = T (i - 100)" by (simp add: named_def split: option.split)
  with g show ?thesis unfolding grown_def by metis
qed

abbreviation memory_suffices :: allocation where
  "memory_suffices \<equiv> \<lparr>malloc_ok = True, strdup_ok = True, asprintf_ok = True\<rparr>"

lemma msgid_info_named:
  assumes "ihash_ok H" and g: "grown T (ihash_find H h)"
  shows "fst (msgid_info H memory_suffices i h) = named T i \<and> grown T (ihash_find H (snd (msgid_info H memory_suffices i h)))"
proof (cases "ihash_find H h i")
  case (Some x)
  then have "named T i = Some x" using g by (simp add: grown_def)
  with Some g show ?thesis by (simp add: msgid_info_def)
next
  case None
  then have t: "T i = None" using g by (cases "T i") (auto simp: grown_def)
  show ?thesis
  proof (cases "is_reply i \<and> T (i - 100) \<noteq> None")
    case True
    then obtain x where x: "T (i - 100) = Some x" by blast
    with True have "ihash_find H h (i - 100) = Some x" using grown_request [OF g] by simp
    then have "msgid_info H memory_suffices i h = (Some (reply_name x), snd (ihash_add H h i (reply_name x)))"
      using None True by (cases x) (simp add: msgid_info_def reply_name_def Let_def)
    moreover have "named T i = Some (reply_name x)" using t True x by (simp add: named_def)
    moreover have "ihash_find H (snd (ihash_add H h i (reply_name x))) = (ihash_find H h)(i \<mapsto> reply_name x)"
      using assms(1) by (simp add: ihash_ok_def)
    ultimately show ?thesis using g t by (auto simp: grown_def)
  next
    case False
    then have "is_reply i \<Longrightarrow> ihash_find H h (i - 100) = None" using grown_request [OF g] by auto
    with False None t g show ?thesis by (auto simp: msgid_info_def named_def)
  qed
qed

text \<open>A lookup of a reply that is not in the table answers with a name made from the request's, and
  stores it. However many lookups are made, each answers what the loaded table says: the stored
  names change no later answer.\<close>

theorem msgid_lookups_agree:
  assumes "ihash_ok H"
  shows "lookups H memory_suffices is h = map (named (ihash_find H h)) is"
proof -
  have "lookups H memory_suffices is h' = map (named T) is" if "grown T (ihash_find H h')" for T h' "is"
    using that
  proof (induction "is" arbitrary: h')
    case (Cons i "is")
    from Cons.IH [of "snd (msgid_info H memory_suffices i h')"] msgid_info_named [OF assms Cons.prems, of i]
    show ?case by (simp add: case_prod_beta)
  qed simp
  moreover have "grown (ihash_find H h) (ihash_find H h)" by (auto simp: grown_def named_def)
  ultimately show ?thesis by blast
qed

lemma msgid_lookups_agree_witness:
  "lookups map_ihash memory_suffices [2001, 2101, 2101] (list_table (sample_list ''std'')) =
     map (named (list_table (sample_list ''std''))) [2001, 2101, 2101] \<and>
   map_option info_name (named (list_table (sample_list ''std'')) 2101) = Some (Some ''lock_request-reply'')"
proof -
  have "ihash_find map_ihash h = h" for h by (simp add: map_ihash_def)
  moreover have "map_option info_name (named (list_table (sample_list ''std'')) 2101) = Some (Some ''lock_request-reply'')"
    by code_simp
  ultimately show ?thesis using msgid_lookups_agree [OF ihash_ok_map] by metis
qed

section \<open>The number as a name\<close>

lemma length_decimal: "n < 10 ^ k \<Longrightarrow> 0 < k \<Longrightarrow> length (decimal n) \<le> k"
proof (induction k arbitrary: n)
  case (Suc k)
  show ?case
  proof (cases "n < 10")
    case True
    then show ?thesis by (subst decimal.simps) simp
  next
    case False
    then have "0 < k" using Suc.prems(1) by (cases k) simp_all
    moreover have "n div 10 < 10 ^ k" using Suc.prems(1) by (simp add: less_mult_imp_div_less mult.commute)
    ultimately show ?thesis using Suc.IH [of "n div 10"] False by (subst decimal.simps) simp
  qed
qed simp

text \<open>The number that stands for a message without a name fits into the buffer of 16 characters that
  \<^verbatim>\<open>msgid_name\<close> prints it to, with its sign and the closing zero.\<close>

lemma msgid_name_fits: "length (signed_decimal (sint (msgid :: 32 word))) + 1 \<le> 16"
proof -
  have "- (2 ^ 31) \<le> sint msgid" "sint msgid < 2 ^ 31" using sint_ge [of msgid] sint_lt [of msgid] by simp_all
  then have "length (decimal (nat (sint msgid))) \<le> 10" "length (decimal (nat (- sint msgid))) \<le> 10"
    by (intro length_decimal; simp)+
  then show ?thesis by (simp add: signed_decimal_def)
qed

end
