(* ===== verification/Netmsg_Debug.thy ===== *)
theory Netmsg_Debug
  imports Netmsg_State Msgids_Properties Message_Properties
begin

text \<open>
  The debugging output of \<open>src/netmsg/netmsg.cc\<close>: \<^verbatim>\<open>porttype2str\<close>, the audit of the ports of a task
  (\<^verbatim>\<open>auditPorts\<close>) and the line that is printed for a message (\<^verbatim>\<open>dprintMessage\<close>). The output is a
  string, or the assertion that fails while it is made.

  \<^item> What the kernel says of the ports of the task (\<^verbatim>\<open>mach_port_names\<close>) is an argument of the audit.
  \<^item> A string item without a NUL in its data counts as a failure: the code goes on reading behind it.
  \<^item> \<^verbatim>\<open>msgid_name\<close> may return a null pointer when memory is short (\<open>None\<close>); writing it to a stream sets
    the stream's \<^verbatim>\<open>badbit\<close>, and the stream ignores what is written afterwards.
\<close>

section \<open>Types of ports\<close>

abbreviation MACH_PORT_TYPE_SEND :: "32 word" where "MACH_PORT_TYPE_SEND \<equiv> 0x10000"
abbreviation MACH_PORT_TYPE_RECEIVE :: "32 word" where "MACH_PORT_TYPE_RECEIVE \<equiv> 0x20000"
abbreviation MACH_PORT_TYPE_SEND_ONCE :: "32 word" where "MACH_PORT_TYPE_SEND_ONCE \<equiv> 0x40000"
abbreviation MACH_PORT_TYPE_PORT_SET :: "32 word" where "MACH_PORT_TYPE_PORT_SET \<equiv> 0x80000"
abbreviation MACH_PORT_TYPE_DEAD_NAME :: "32 word" where "MACH_PORT_TYPE_DEAD_NAME \<equiv> 0x100000"
abbreviation MACH_PORT_TYPE_DNREQUEST :: "32 word" where "MACH_PORT_TYPE_DNREQUEST \<equiv> 0x80000000"
abbreviation MACH_PORT_TYPE_MAREQUEST :: "32 word" where "MACH_PORT_TYPE_MAREQUEST \<equiv> 0x40000000"
abbreviation MACH_PORT_TYPE_COMPAT :: "32 word" where "MACH_PORT_TYPE_COMPAT \<equiv> 0x20000000"

definition port_type_names :: "(32 word \<times> string) list" where
  "port_type_names = [(MACH_PORT_TYPE_RECEIVE, ''RECEIVE''), (MACH_PORT_TYPE_SEND, ''SEND''),
     (MACH_PORT_TYPE_SEND_ONCE, ''SEND-ONCE''), (MACH_PORT_TYPE_PORT_SET, ''PORTSET''),
     (MACH_PORT_TYPE_DEAD_NAME, ''DEADNAME''), (MACH_PORT_TYPE_DNREQUEST, ''DNREQUEST''),
     (MACH_PORT_TYPE_MAREQUEST, ''MAREQUEST''), (MACH_PORT_TYPE_COMPAT, ''COMPACT'')]"

fun porttype_loop :: "(32 word \<times> string) list \<Rightarrow> 32 word \<Rightarrow> string \<Rightarrow> 32 word \<times> string" where
  "porttype_loop [] type result = (type, result)"
| "porttype_loop ((bits, nm) # ts) type result =
     (if type AND bits \<noteq> 0 then porttype_loop ts (type AND NOT bits) (result @ nm @ '' '')
      else porttype_loop ts type result)"

definition porttype2str :: "32 word \<Rightarrow> string" where
  "porttype2str type =
     (let (type, result) = porttype_loop port_type_names type ''''
      in if type \<noteq> 0 then result @ ''UNDECODED'' else result)"

section \<open>The audit of ports\<close>

text \<open>The type recorded for a port, as the first message prints it.\<close>

definition recorded_type :: "32 word \<Rightarrow> string" where
  "recorded_type t = (if t = MACH_MSG_TYPE_PORT_RECEIVE then ''RECEIVE''
     else if t = MACH_MSG_TYPE_PORT_SEND then ''SEND'' else decimal (unat t))"

text \<open>
  The body of the loop over \<^verbatim>\<open>local_port_type\<close>: the line printed, if any. \<^verbatim>\<open>ports[p]\<close> is only used where \<open>p\<close> is
  there.
\<close>

definition audit_port :: "(mach_port_t \<rightharpoonup> 32 word) \<Rightarrow> netmsg \<Rightarrow> mach_port_t \<times> 32 word \<Rightarrow> string list" where
  "audit_port ports s pair =
     (let (p, t) = pair in
      case ports p of None \<Rightarrow>
        [''auditPorts: port '' @ decimal (unat p) @ '' doesn't exist, but is recorded as '' @ recorded_type t]
      | Some type \<Rightarrow>
        if t = MACH_MSG_TYPE_PORT_RECEIVE then
          if type \<noteq> MACH_PORT_TYPE_RECEIVE
          then [''auditPorts: port '' @ decimal (unat p) @ '' is '' @ porttype2str type @ '', not RECEIVE''] else []
        else if p = first_port s then
          if type \<noteq> MACH_PORT_TYPE_RECEIVE OR MACH_PORT_TYPE_SEND
          then [''auditPorts: first_port '' @ decimal (unat p) @ '' is '' @ porttype2str type @ '', not RECEIVE SEND''] else []
        else if type \<noteq> MACH_PORT_TYPE_SEND OR MACH_PORT_TYPE_DNREQUEST \<and> type \<noteq> MACH_PORT_TYPE_DEAD_NAME
          then [''auditPorts: port '' @ decimal (unat p) @ '' is '' @ porttype2str type @
            '', not SEND DNREQUEST (or DEADNAME)'']
        else [])"

text \<open>
  One session. \<open>types s\<close> lists \<^verbatim>\<open>local_port_type\<close> in the order of its keys. \<^verbatim>\<open>ports[portset]\<close> inserts type 0 for a
  port that does not exist, which then fails the assertion.
\<close>

definition audit_session :: "(mach_port_t \<rightharpoonup> 32 word) \<Rightarrow> (netmsg \<Rightarrow> (mach_port_t \<times> 32 word) list) \<Rightarrow> netmsg \<Rightarrow> string list result" where
  "audit_session ports types s =
     assert_that (ports (portset s) = Some MACH_PORT_TYPE_PORT_SET) ''ports[netmsgptr->portset] == MACH_PORT_TYPE_PORT_SET''
       (concat (map (audit_port ports s) (types s)))"

fun audit_sessions :: "(mach_port_t \<rightharpoonup> 32 word) \<Rightarrow> (netmsg \<Rightarrow> (mach_port_t \<times> 32 word) list) \<Rightarrow> netmsg list \<Rightarrow> string list result" where
  "audit_sessions ports types [] = Inr []"
| "audit_sessions ports types (s # ss) =
     andThen (audit_session ports types s) (\<lambda>ls. andThen (audit_sessions ports types ss) (\<lambda>ls'. Inr (ls @ ls')))"

definition auditPorts ::
    "bool \<Rightarrow> mach_port_t list \<Rightarrow> 32 word list \<Rightarrow> (netmsg \<Rightarrow> (mach_port_t \<times> 32 word) list) \<Rightarrow> netmsg list \<Rightarrow> string list result" where
  "auditPorts multi_threaded names types local_types active =
     (if multi_threaded then Inr []
      else if length names \<noteq> length types then Inl (Assert_failed ''ncount == tcount'')
      else audit_sessions (map_of (rev (zip names types))) local_types active)"

text \<open>\<^verbatim>\<open>multi_threaded\<close> is a constant.\<close>

definition multi_threaded :: bool where "multi_threaded = True"

section \<open>Messages\<close>

definition MACH_MSG_TYPE_PORT_ANY :: "32 word \<Rightarrow> bool" where
  "MACH_MSG_TYPE_PORT_ANY x \<longleftrightarrow> MACH_MSG_TYPE_MOVE_RECEIVE \<le> x \<and> x \<le> MACH_MSG_TYPE_MAKE_SEND_ONCE"

definition hex_digit :: "nat \<Rightarrow> char" where
  "hex_digit n = (if n < 10 then char_of (48 + n) else char_of (87 + n))"

fun hexadecimal :: "nat \<Rightarrow> string" where
  "hexadecimal n = (if n < 16 then [hex_digit n] else hexadecimal (n div 16) @ [hex_digit (n mod 16)])"

declare hexadecimal.simps [simp del]

text \<open>The bytes of the data up to the first NUL.\<close>

definition data_bytes :: "32 word list \<Rightarrow> nat list" where
  "data_bytes ws = concat (map (\<lambda>w. map (\<lambda>k. unat w div 256 ^ k mod 256) [0, 1, 2, 3]) ws)"

definition c_string :: "32 word list \<Rightarrow> string result" where
  "c_string ws =
     (if 0 \<in> set (data_bytes ws) then Inr (map char_of (takeWhile (\<lambda>b. b \<noteq> 0) (data_bytes ws)))
      else Inl (Out_of_range ''string''))"

text \<open>What stands in front of the elements.\<close>

definition type_prefix :: "32 word \<Rightarrow> string" where
  "type_prefix nm =
     (if nm = MACH_MSG_TYPE_PORT_NAME then ''pn''
      else if nm = MACH_MSG_TYPE_MOVE_RECEIVE then ''r''
      else if nm = MACH_MSG_TYPE_MOVE_SEND then ''s''
      else if nm = MACH_MSG_TYPE_MOVE_SEND_ONCE then ''so''
      else if nm = MACH_MSG_TYPE_COPY_SEND then ''cs''
      else if nm = MACH_MSG_TYPE_MAKE_SEND then ''ms''
      else if nm = MACH_MSG_TYPE_MAKE_SEND_ONCE then ''mso'' else '''')"

definition bracketed :: "'m mach_abi_scheme \<Rightarrow> descriptor \<Rightarrow> bool" where
  "bracketed A d \<longleftrightarrow> MACH_MSG_TYPE_PORT_ANY (name A d) \<or> name A d = MACH_MSG_TYPE_PORT_NAME \<or> 1 < nelems A d"

text \<open>A character: itself if it can be printed, otherwise its code.\<close>

definition print_char :: "32 word \<Rightarrow> string" where
  "print_char v =
     (let c = unat (v AND 0xff) in
      if 32 \<le> c \<and> c \<le> 126 then [char_of c]
      else [CHR 0x5C, CHR ''x''] @ (if c < 16 then ''0'' else '''') @ hexadecimal c)"

definition numeric_types :: "32 word list" where
  "numeric_types = [MACH_MSG_TYPE_INTEGER_8, MACH_MSG_TYPE_INTEGER_16, MACH_MSG_TYPE_INTEGER_32, MACH_MSG_TYPE_INTEGER_64,
     MACH_MSG_TYPE_PORT_NAME, MACH_MSG_TYPE_MOVE_RECEIVE, MACH_MSG_TYPE_MOVE_SEND, MACH_MSG_TYPE_MOVE_SEND_ONCE,
     MACH_MSG_TYPE_COPY_SEND, MACH_MSG_TYPE_MAKE_SEND, MACH_MSG_TYPE_MAKE_SEND_ONCE]"

text \<open>The body of the loop over the elements.\<close>

definition print_element :: "'m mach_abi_scheme \<Rightarrow> msg_item \<Rightarrow> nat \<Rightarrow> string result" where
  "print_element A it i =
     (let nm = name A (descr it);
          space = (if 0 < i \<and> nm \<noteq> MACH_MSG_TYPE_CHAR then '' '' else '''')
      in if nm = MACH_MSG_TYPE_BIT then Inl (Assert_failed ''0'')
         else if nm = MACH_MSG_TYPE_CHAR then andThen (element A 0 it (of_nat i)) (\<lambda>v. Inr (space @ print_char v))
         else if nm \<in> set numeric_types then andThen (element A 0 it (of_nat i)) (\<lambda>v. Inr (space @ decimal (unat v)))
         else if nm = MACH_MSG_TYPE_STRING \<or> nm = MACH_MSG_TYPE_REAL then Inl (Assert_failed ''0'')
         else Inr space)"

fun print_elements :: "'m mach_abi_scheme \<Rightarrow> msg_item \<Rightarrow> nat list \<Rightarrow> string result" where
  "print_elements A it [] = Inr ''''"
| "print_elements A it (i # is) =
     andThen (print_element A it i) (\<lambda>t. andThen (print_elements A it is) (\<lambda>ts. Inr (t @ ts)))"

text \<open>The body of the loop over the items. The bits of a boolean item are printed as the long that holds them.\<close>

definition print_item :: "'m mach_abi_scheme \<Rightarrow> msg_item \<Rightarrow> string result" where
  "print_item A it =
     (let d = descr it; n = unat (nelems A d) in
      if name A d = MACH_MSG_TYPE_STRING then
        andThen (c_string (payload it)) (\<lambda>t. Inr ('' '' @ [CHR 0x22] @ t @ [CHR 0x22] @ '' ''))
      else if name A d = MACH_MSG_TYPE_BIT then
        if \<not> n \<le> 32 then Inl (Assert_failed ''ptr.nelems() <= 8 * sizeof(long)'')
        else (case payload it of [] \<Rightarrow> Inl (Out_of_range ''data'') | w # _ \<Rightarrow> Inr ('' '' @ hexadecimal (unat w)))
      else
        andThen (print_elements A it [0 ..< min n 32]) (\<lambda>ts.
          Inr ('' '' @ (if 32 < n then decimal n else '''') @ type_prefix (name A d) @
            (if bracketed A d then ''{'' else '''') @ ts @ (if 32 < n then ''...'' else '''') @
            (if bracketed A d then ''}'' else ''''))))"

fun print_items :: "'m mach_abi_scheme \<Rightarrow> msg_item list \<Rightarrow> string result" where
  "print_items A [] = Inr ''''"
| "print_items A (it # its) = andThen (print_item A it) (\<lambda>t. andThen (print_items A its) (\<lambda>ts. Inr (t @ ts)))"

definition dprintMessage ::
    "'m mach_abi_scheme \<Rightarrow> 'h ihash \<Rightarrow> allocation \<Rightarrow> nat \<Rightarrow> string \<Rightarrow> machMessage \<Rightarrow> 'h \<Rightarrow> (string \<times> 'h) result" where
  "dprintMessage A H a debugLevel pre msg h =
     (if debugLevel = 0 then Inr ('''', h)
      else
        let start = pre @ decimal (unat (msgh_local_port (hdr msg))) @
              (if msgh_remote_port (hdr msg) \<noteq> 0 then ''('' @ decimal (unat (msgh_remote_port (hdr msg))) @ '')'' else '''') @ '' '';
            (nm, h) = msgid_name H a (msgh_id (hdr msg)) h
        in andThen (print_items A (items msg)) (\<lambda>ts.
             Inr (case nm of None \<Rightarrow> (start, h) | Some nm \<Rightarrow> (start @ nm @ ts @ [CHR 0x0A], h))))"

section \<open>Elements can be read\<close>

lemma unat_0_imp: "unat x = 0 \<Longrightarrow> x = 0"
  by (simp add: unat_eq_0)

text \<open>The number of bits of an element of each type; an item as a sender that follows the interface makes it.\<close>

definition natural_bits :: "32 word \<Rightarrow> nat" where
  "natural_bits nm = (if nm = MACH_MSG_TYPE_BIT then 1
     else if nm \<in> {MACH_MSG_TYPE_CHAR, MACH_MSG_TYPE_INTEGER_8, MACH_MSG_TYPE_STRING} then 8
     else if nm = MACH_MSG_TYPE_INTEGER_16 then 16
     else if nm = MACH_MSG_TYPE_INTEGER_64 then 64 else 32)"

definition natural_item :: "'m mach_abi_scheme \<Rightarrow> msg_item \<Rightarrow> bool" where
  "natural_item A it \<longleftrightarrow> item_ok A it \<and> unat (elemsize_bits A (descr it)) = natural_bits (name A (descr it)) \<and>
     unat (nelems A (descr it)) * natural_bits (name A (descr it)) + 7 < 2 ^ 32"

lemma byte_at_ok: "k < 4 * length ws \<Longrightarrow> \<exists>b. byte_at ws k = Inr b"
  by (auto simp: byte_at_def)

lemma int16_at_ok: "k + 1 < 4 * length ws \<Longrightarrow> \<exists>h. int16_at ws k = Inr h"
  using byte_at_ok [of k ws] byte_at_ok [of "k + 1" ws] by (auto simp: int16_at_def)

lemma int32_at_ok: "k + 3 < 4 * length ws \<Longrightarrow> \<exists>v. int32_at ws k = Inr v"
  using int16_at_ok [of k ws] int16_at_ok [of "k + 2" ws] by (auto simp: int32_at_def)

lemma element_value_ok:
  assumes "nm = MACH_MSG_TYPE_CHAR \<or> nm \<in> set numeric_types" and "8 * k + natural_bits nm \<le> 32 * length ws"
  shows "\<exists>v. element_value nm addr ws k = Inr v"
proof -
  have "\<exists>b. byte_at ws k = Inr b" if "8 \<le> natural_bits nm" using that assms(2) by (intro byte_at_ok) linarith
  moreover have "\<exists>b. int16_at ws k = Inr b" if "16 \<le> natural_bits nm" using that assms(2) by (intro int16_at_ok) linarith
  moreover have "\<exists>b. int32_at ws k = Inr b" if "32 \<le> natural_bits nm" using that assms(2) by (intro int32_at_ok) linarith
  moreover have "\<exists>b. int32_at ws (k + 4) = Inr b" if "64 \<le> natural_bits nm" using that assms(2) by (intro int32_at_ok) linarith
  ultimately show ?thesis
    using assms(1) by (auto simp: numeric_types_def element_value_def natural_bits_def)
qed

lemma natural_item_bits:
  assumes "natural_item A it"
  shows "unat (nelems A (descr it)) * natural_bits (name A (descr it)) \<le> 32 * length (payload it)"
proof -
  let ?n = "unat (nelems A (descr it)) * natural_bits (name A (descr it))"
  have "length (payload it) = (?n + 31) div 32"
    using assms data_longs_bits [of A "descr it"] by (simp add: natural_item_def item_ok_def)
  then show ?thesis by linarith
qed

lemma element_ok:
  assumes "natural_item A it" and "name A (descr it) = MACH_MSG_TYPE_CHAR \<or> name A (descr it) \<in> set numeric_types"
    and "i < unat (nelems A (descr it))" and "i < 32"
  shows "\<exists>v. element A addr it (of_nat i) = Inr v"
proof -
  let ?nm = "name A (descr it)" let ?z = "elemsize_bits A (descr it)" let ?b = "natural_bits ?nm"
  have z: "unat ?z = ?b" using assms(1) by (simp add: natural_item_def)
  have b: "?b \<in> {8, 16, 32, 64}" using assms(2) by (auto simp: natural_bits_def numeric_types_def)
  then have "unat ?z mod 8 = 0" unfolding z by auto
  then have "unat (?z mod 8) = 0" by (simp add: unat_mod)
  then have "?z mod 8 = 0" by (rule unat_0_imp)
  have "i * ?b < 2 ^ 32" using b assms(4) by auto
  then have "unat (of_nat i * ?z) = i * ?b" using assms(4) by (simp add: unat_word_ariths z unat_of_nat)
  then have k: "unat ((of_nat i * ?z) div 8) = i * ?b div 8" by (simp add: unat_div)
  have "Suc i * ?b \<le> unat (nelems A (descr it)) * ?b" using assms(3) by (intro mult_le_mono1) simp
  also have "\<dots> \<le> 32 * length (payload it)" using natural_item_bits [OF assms(1)] .
  finally have "8 * (i * ?b div 8) + ?b \<le> 32 * length (payload it)" using b by auto
  from element_value_ok [OF assms(2) this] k \<open>?z mod 8 = 0\<close> show ?thesis by (simp add: element_def Let_def)
qed

section \<open>When printing fails\<close>

definition printable :: "'m mach_abi_scheme \<Rightarrow> msg_item \<Rightarrow> bool" where
  "printable A it \<longleftrightarrow>
     (let nm = name A (descr it); n = unat (nelems A (descr it)) in
      (nm = MACH_MSG_TYPE_STRING \<longrightarrow> 0 \<in> set (data_bytes (payload it))) \<and>
      (nm = MACH_MSG_TYPE_BIT \<longrightarrow> 0 < n \<and> n \<le> 32) \<and> (nm = MACH_MSG_TYPE_REAL \<longrightarrow> n = 0))"

lemma andThen_ex: "(\<exists>y. andThen r (\<lambda>x. Inr (f x)) = Inr y) \<longleftrightarrow> (\<exists>x. r = Inr x)"
  by (cases r) simp_all

lemma print_elements_ok: "(\<exists>t. print_elements A it is = Inr t) \<longleftrightarrow> (\<forall>i \<in> set is. \<exists>t. print_element A it i = Inr t)"
  by (induction "is") auto

lemma print_element_ok:
  assumes "natural_item A it" and "name A (descr it) \<notin> {MACH_MSG_TYPE_STRING, MACH_MSG_TYPE_BIT}"
    and "i < unat (nelems A (descr it))" and "i < 32"
  shows "(\<exists>t. print_element A it i = Inr t) \<longleftrightarrow> name A (descr it) \<noteq> MACH_MSG_TYPE_REAL"
proof -
  have "MACH_MSG_TYPE_REAL \<notin> set numeric_types" by (simp add: numeric_types_def)
  with assms element_ok [of A it i 0] show ?thesis by (auto simp: print_element_def Let_def)
qed

lemma print_item_ok:
  assumes "natural_item A it"
  shows "(\<exists>t. print_item A it = Inr t) \<longleftrightarrow> printable A it"
proof -
  let ?nm = "name A (descr it)" let ?n = "unat (nelems A (descr it))"
  consider (string) "?nm = MACH_MSG_TYPE_STRING" | (bit) "?nm = MACH_MSG_TYPE_BIT"
    | (other) "?nm \<notin> {MACH_MSG_TYPE_STRING, MACH_MSG_TYPE_BIT}" by auto
  then show ?thesis
  proof cases
    case string
    then show ?thesis by (simp add: print_item_def printable_def c_string_def)
  next
    case bit
    then have "length (payload it) = (?n + 31) div 32"
      using assms data_longs_bits [of A "descr it"] by (simp add: natural_item_def item_ok_def natural_bits_def)
    then have "payload it = [] \<longleftrightarrow> ?n = 0" by (auto simp flip: length_0_conv)
    with bit show ?thesis by (auto simp: print_item_def printable_def Let_def split: list.split)
  next
    case other
    have "(\<exists>t. print_item A it = Inr t) \<longleftrightarrow> (\<exists>t. print_elements A it [0 ..< min ?n 32] = Inr t)"
      using other by (simp add: print_item_def Let_def andThen_ex)
    also have "\<dots> \<longleftrightarrow> (\<forall>i < min ?n 32. ?nm \<noteq> MACH_MSG_TYPE_REAL)"
      using print_element_ok [OF assms other] by (simp add: print_elements_ok)
    also have "\<dots> \<longleftrightarrow> printable A it" using other by (auto simp: printable_def Let_def)
    finally show ?thesis .
  qed
qed

lemma print_items_ok:
  "list_all (natural_item A) its \<Longrightarrow> (\<exists>t. print_items A its = Inr t) \<longleftrightarrow> list_all (printable A) its"
  by (induction its) (auto simp flip: print_item_ok)

section \<open>Reading the output\<close>

text \<open>The text of a port type: the names of its bits in the order of the table, and a mark if it has others.\<close>

definition type_names :: "(32 word \<times> string) list \<Rightarrow> 32 word \<Rightarrow> string" where
  "type_names ts type = concat (map (\<lambda>(bits, nm). if type AND bits \<noteq> 0 then nm @ '' '' else '''') ts)"

lemma and_not_disjoint: "b AND b' = 0 \<Longrightarrow> (t AND NOT b) AND b' = t AND b'" for t :: "'a :: len word"
  by (rule bit_eqI) (auto simp: bit_simps dest: arg_cong [where f = "\<lambda>w. bit w _"])

lemma and_not_id: "t AND b = 0 \<Longrightarrow> t AND NOT b = t" for t :: "'a :: len word"
  by (rule bit_eqI) (auto simp: bit_simps dest: arg_cong [where f = "\<lambda>w. bit w _"])

lemma and_not_or: "(t AND NOT b) AND NOT c = t AND NOT (b OR c)" for t :: "'a :: len word"
  by (rule bit_eqI) (auto simp: bit_simps)

lemma porttype_loop_eq:
  "sorted_wrt (\<lambda>b b'. b AND b' = 0) (map fst ts) \<Longrightarrow>
     porttype_loop ts type result = (type AND NOT (foldr (OR) (map fst ts) 0), result @ type_names ts type)"
proof (induction ts arbitrary: type result)
  case (Cons p ts)
  obtain b nm where p: "p = (b, nm)" by force
  have names: "type_names ts (type AND NOT b) = type_names ts type"
    using Cons.prems unfolding type_names_def
    by (intro arg_cong [where f = concat] map_cong refl) (auto simp: p and_not_disjoint)
  show ?case
  proof (cases "type AND b = 0")
    case True
    then have "type AND NOT b = type" by (rule and_not_id)
    then have "type AND NOT (b OR c) = type AND NOT c" for c by (metis and_not_or)
    with True Cons show ?thesis by (simp add: p type_names_def)
  next
    case False
    with Cons names show ?thesis by (simp add: p and_not_or type_names_def)
  qed
qed (simp add: type_names_def)

lemma porttype2str_eq:
  "porttype2str type = type_names port_type_names type @ (if type AND NOT 0xE01F0000 \<noteq> 0 then ''UNDECODED'' else '''')"
proof -
  have "sorted_wrt (\<lambda>b b'. b AND b' = 0) (map fst port_type_names)" by code_simp
  moreover have "foldr (OR) (map fst port_type_names) 0 = (0xE01F0000 :: 32 word)" by code_simp
  ultimately show ?thesis by (simp add: porttype2str_def porttype_loop_eq)
qed

text \<open>The rights the audit expects for a recorded port.\<close>

definition audited :: "netmsg \<Rightarrow> mach_port_t \<Rightarrow> 32 word \<Rightarrow> 32 word \<Rightarrow> bool" where
  "audited s p t type \<longleftrightarrow>
     (if t = MACH_MSG_TYPE_PORT_RECEIVE then type = MACH_PORT_TYPE_RECEIVE
      else if p = first_port s then type = MACH_PORT_TYPE_RECEIVE OR MACH_PORT_TYPE_SEND
      else type = MACH_PORT_TYPE_SEND OR MACH_PORT_TYPE_DNREQUEST \<or> type = MACH_PORT_TYPE_DEAD_NAME)"

lemma audit_port_silent: "audit_port ports s (p, t) = [] \<longleftrightarrow> (\<exists>type. ports p = Some type \<and> audited s p t type)"
  by (auto simp: audit_port_def audited_def split: option.split)

lemma audit_sessions_silent:
  "audit_sessions ports types ss = Inr [] \<longleftrightarrow>
     (\<forall>s \<in> set ss. ports (portset s) = Some MACH_PORT_TYPE_PORT_SET \<and>
        (\<forall>(p, t) \<in> set (types s). \<exists>type. ports p = Some type \<and> audited s p t type))"
proof (induction ss)
  case (Cons s ss)
  have "concat (map (audit_port ports s) (types s)) = [] \<longleftrightarrow>
      (\<forall>(p, t) \<in> set (types s). \<exists>type. ports p = Some type \<and> audited s p t type)"
    using audit_port_silent [of ports s] by auto
  with Cons show ?case by (auto simp: audit_session_def)
qed simp

section \<open>Properties\<close>



text \<open>The audit of a program with one thread prints nothing and fails no assertion exactly if for every session the
  kernel has its port set as a port set and, for every recorded port, the rights that the comment at the audit demands:
  RECEIVE alone, or SEND with a dead name request (or a dead name), or RECEIVE and SEND for the first port.
  The program as it is compiled audits nothing.\<close>

lemma audit_silent_iff:
  assumes "length names = length types" and "distinct names"
    and "\<And>s. s \<in> set active \<Longrightarrow> set (local_types s) = Map.graph (local_port_type s)"
  shows "(auditPorts False names types local_types active = Inr [] \<longleftrightarrow>
      (\<forall>s \<in> set active. (portset s, MACH_PORT_TYPE_PORT_SET) \<in> set (zip names types) \<and>
        (\<forall>p t. local_port_type s p = Some t \<longrightarrow> (\<exists>type. (p, type) \<in> set (zip names types) \<and> audited s p t type)))) \<and>
    auditPorts multi_threaded names types local_types active = Inr []"
proof -
  have "distinct (map fst (rev (zip names types)))" using assms(1,2) by (simp add: rev_map [symmetric])
  then have "map_of (rev (zip names types)) p = Some t \<longleftrightarrow> (p, t) \<in> set (zip names types)" for p t
    by (auto simp: map_of_eq_Some_iff)
  then show ?thesis
    using assms(1,3) by (auto simp: auditPorts_def audit_sessions_silent multi_threaded_def Map.graph_def)
qed

end
