(* ===== verification/Netmsg_Startup.thy ===== *)
theory Netmsg_Startup
  imports Netmsg_State Msgids_Properties
begin

text \<open>
  The start of the program \<open>src/netmsg/netmsg.cc\<close>: its options, the network connections of the server
  and of the translator, the exchange with the parent of the translator, and the file system server
  that the server presents to its clients.

  \<^item> What the C library, the Hurd and the kernel answer is the parameter \<open>host\<close>; every answer is a
    function of the calls made before. \<open>argp\<close> calls \<^verbatim>\<open>parse_opt\<close> for the options and then for the other
    arguments; \<^verbatim>\<open>argp_usage\<close> and \<^verbatim>\<open>error\<close> end the program.
  \<^item> \<open>sys_call\<close> lists the calls that matter for the rights of the task and for its connections; the
    rights can be counted from them (\<open>send_rights\<close>).
\<close>

section \<open>Options\<close>

record netmsg_options =
  targetPort :: string
  targetHost :: "string option"
  exportedPath :: string
  serverMode :: bool
  debugLevel :: "32 word"

definition default_options :: netmsg_options where
  "default_options = \<lparr>targetPort = ''2345'', targetHost = None, exportedPath = ''/'', serverMode = False, debugLevel = 0\<rparr>"

text \<open>The keys of the options and of the other arguments, which come with their number.\<close>

datatype netmsg_key = Key_p string | Key_s | Key_d | Key_arg string nat | Key_no_args

datatype stop = Exit int string

definition usage :: stop where "usage = Exit 64 ''usage''"

fun netmsg_parse_opt :: "netmsg_key \<Rightarrow> netmsg_options \<Rightarrow> stop + netmsg_options" where
  "netmsg_parse_opt (Key_p arg) s = Inr (s\<lparr>targetPort := arg\<rparr>)"
| "netmsg_parse_opt Key_s s = Inr (s\<lparr>serverMode := True\<rparr>)"
| "netmsg_parse_opt Key_d s = Inr (s\<lparr>debugLevel := debugLevel s + 1\<rparr>)"
| "netmsg_parse_opt (Key_arg arg arg_num) s =
     (if arg_num = 0 then Inr (if serverMode s then s\<lparr>exportedPath := arg\<rparr> else s\<lparr>targetHost := Some arg\<rparr>)
      else Inl usage)"
| "netmsg_parse_opt Key_no_args s = (if \<not> serverMode s then Inl usage else Inr s)"

fun parse_keys :: "netmsg_key list \<Rightarrow> netmsg_options \<Rightarrow> stop + netmsg_options" where
  "parse_keys [] s = Inr s"
| "parse_keys (k # ks) s = (case netmsg_parse_opt k s of Inl e \<Rightarrow> Inl e | Inr s' \<Rightarrow> parse_keys ks s')"

text \<open>A command line: its options and its other arguments.\<close>

definition command_keys :: "netmsg_key list \<Rightarrow> string list \<Rightarrow> netmsg_key list" where
  "command_keys opts args = opts @ (if args = [] then [Key_no_args] else map (case_prod Key_arg) (zip args [0 ..< length args]))"

section \<open>Calls\<close>

type_synonym address = "32 word \<times> 16 word"

datatype sys_call =
    Socket int
  | Connect int address
  | Bind int "16 word"
  | Listen int int
  | Accept int
  | New_session int
  | Get_bootstrap_port mach_port_t
  | Allocate_receive mach_port_t
  | Make_send mach_port_t
  | Fsys_startup mach_port_t mach_port_t mach_port_t
  | Get_proc mach_port_t
  | Mark_important mach_port_t
  | Deallocate mach_port_t
  | Lookup string int mach_port_t
  | Drop_send mach_port_t

record host =
  getaddrinfo :: "string \<Rightarrow> string \<Rightarrow> int \<times> address list"
  socket :: "sys_call list \<Rightarrow> int"
  connect :: "sys_call list \<Rightarrow> int \<Rightarrow> address \<Rightarrow> int"
  bind_socket :: "sys_call list \<Rightarrow> int \<Rightarrow> 16 word \<Rightarrow> int"
  listen_socket :: "sys_call list \<Rightarrow> int \<Rightarrow> int"
  bootstrap_port :: mach_port_t
  allocates_port :: "sys_call list \<Rightarrow> mach_port_t"
  fsys_startup :: "mach_port_t \<Rightarrow> mach_port_t \<Rightarrow> int \<times> mach_port_t"
  getproc :: mach_port_t
  proc_mark_important :: "mach_port_t \<Rightarrow> int"
  file_name_lookup :: "sys_call list \<Rightarrow> string \<Rightarrow> int \<Rightarrow> mach_port_t"
  errno :: "sys_call list \<Rightarrow> int"

section \<open>Connections\<close>

text \<open>
  \<^verbatim>\<open>atoi\<close>: white space, a sign or none, digits; a number that is too large for a long gives the largest
  or smallest.
\<close>

definition atoi :: "string \<Rightarrow> int" where
  "atoi s =
     (let t = dropWhile is_space s;
          u = (if take 1 t \<in> {''-'', ''+''} then drop 1 t else t);
          n = int (number 0 (takeWhile (\<lambda>c. digit c \<noteq> None) u))
      in if take 1 t = ''-'' then max (- n) (- (2 ^ 31)) else min n (2 ^ 31 - 1))"

definition tcpClient :: "host \<Rightarrow> netmsg_options \<Rightarrow> string \<Rightarrow> sys_call list \<Rightarrow> stop option \<times> sys_call list" where
  "tcpClient H opts hostname cs =
     (let (errorCode, results) = getaddrinfo H hostname (targetPort opts) in
      if errorCode \<noteq> 0 then (Some (Exit 2 ''getaddrinfo''), cs)
      else case results of [] \<Rightarrow> (Some (Exit 2 ''getaddrinfo: no results''), cs)
      | addr # _ \<Rightarrow>
        let newSocket = socket H cs; cs = cs @ [Socket newSocket] in
        if newSocket < 0 then (Some (Exit 2 ''TCP socket''), cs)
        else
          let errorCode = connect H cs newSocket addr; cs = cs @ [Connect newSocket addr] in
          if errorCode < 0 then (Some (Exit 2 ''TCP connect''), cs)
          else (None, cs @ [New_session newSocket]))"

text \<open>The loop of the server, for what the calls of \<^verbatim>\<open>accept\<close> return.\<close>

fun accept_loop :: "int list \<Rightarrow> sys_call list \<Rightarrow> stop option \<times> sys_call list" where
  "accept_loop [] cs = (None, cs)"
| "accept_loop (newSocket # rest) cs =
     (if newSocket < 0 then (Some (Exit 2 ''TCP accept''), cs @ [Accept newSocket])
      else accept_loop rest (cs @ [Accept newSocket, New_session newSocket]))"

definition tcpServer :: "host \<Rightarrow> netmsg_options \<Rightarrow> int list \<Rightarrow> sys_call list \<Rightarrow> stop option \<times> sys_call list" where
  "tcpServer H opts accepts cs =
     (let sin_port = of_int (atoi (targetPort opts)) :: 16 word;
          listenSocket = socket H cs; cs = cs @ [Socket listenSocket] in
      if listenSocket < 0 then (Some (Exit 2 ''TCP socket''), cs)
      else
        let errorCode = bind_socket H cs listenSocket sin_port; cs = cs @ [Bind listenSocket sin_port] in
        if errorCode < 0 then (Some (Exit 2 ''TCP bind''), cs)
        else
          let errorCode = listen_socket H cs listenSocket; cs = cs @ [Listen listenSocket 10] in
          if errorCode < 0 then (Some (Exit 2 ''TCP listen''), cs)
          else accept_loop accepts cs)"

section \<open>The translator\<close>

abbreviation EPERM :: int where "EPERM \<equiv> 0x40000001"
abbreviation EMIG_BAD_ID :: int where "EMIG_BAD_ID \<equiv> - 303"

definition startAsTranslator :: "host \<Rightarrow> netmsg_options \<Rightarrow> sys_call list \<Rightarrow> stop option \<times> sys_call list" where
  "startAsTranslator H opts cs =
     (let bootstrap = bootstrap_port H; cs = cs @ [Get_bootstrap_port bootstrap] in
      if bootstrap = MACH_PORT_NULL then (Some (Exit 1 ''Must be started as a translator''), cs)
      else
        let control = allocates_port H cs;
            cs = cs @ [Allocate_receive control, Make_send control];
            (err, realnode) = fsys_startup H bootstrap control;
            cs = cs @ [Fsys_startup bootstrap control realnode]
        in
        if err \<noteq> 0 then (Some (Exit 1 ''Starting up translator''), cs)
        else
          let cs = cs @ [Deallocate bootstrap, Deallocate realnode];
              proc = getproc H; cs = cs @ [Get_proc proc]
          in
          if proc = MACH_PORT_NULL then (Some (Exit 2 ''cannot get a handle to our process''), cs)
          else
            let err = proc_mark_important H proc; cs = cs @ [Mark_important proc] in
            if err \<noteq> 0 \<and> err \<noteq> EPERM \<and> err \<noteq> EMIG_BAD_ID then (Some (Exit 2 ''Cannot mark us as important''), cs)
            else tcpClient H opts (the (targetHost opts)) (cs @ [Deallocate proc]))"

definition netmsg_main :: "host \<Rightarrow> netmsg_key list \<Rightarrow> string list \<Rightarrow> int list \<Rightarrow> stop option \<times> sys_call list" where
  "netmsg_main H opts args accepts =
     (case parse_keys (command_keys opts args) default_options of
        Inl e \<Rightarrow> (Some e, [])
      | Inr s \<Rightarrow> if serverMode s then tcpServer H s accepts [] else startAsTranslator H s [])"

section \<open>The file system server\<close>

abbreviation ESUCCESS :: int where "ESUCCESS \<equiv> 0"
abbreviation EOPNOTSUPP :: int where "EOPNOTSUPP \<equiv> 0x4000002D"

text \<open>What \<^verbatim>\<open>S_fsys_getroot\<close> returns: retry mode and name, the node and the type of the right.\<close>

datatype retry_type = FS_RETRY_NORMAL | FS_RETRY_REAUTH | FS_RETRY_MAGICAL

record root_reply =
  do_retry :: retry_type
  retry_name :: string
  ret :: mach_port_t
  rettype :: "32 word"

definition S_fsys_getroot ::
    "host \<Rightarrow> netmsg_options \<Rightarrow> mach_port_t \<Rightarrow> int \<Rightarrow> sys_call list \<Rightarrow> (int + root_reply) \<times> sys_call list" where
  "S_fsys_getroot H opts dotdotnode flags cs =
     (let node = file_name_lookup H cs (exportedPath opts) flags;
          cs = cs @ [Lookup (exportedPath opts) flags node]
      in if node = MACH_PORT_NULL then (Inl (errno H cs), cs)
         else (Inr \<lparr>do_retry = FS_RETRY_NORMAL, retry_name = '''', ret = node, rettype = MACH_MSG_TYPE_MOVE_SEND\<rparr>,
               cs @ [Drop_send dotdotnode]))"

definition S_fsys_startup :: int where "S_fsys_startup = EOPNOTSUPP"
definition S_fsys_goaway :: int where "S_fsys_goaway = ESUCCESS"
definition S_fsys_syncfs :: int where "S_fsys_syncfs = ESUCCESS"
definition S_fsys_set_options :: int where "S_fsys_set_options = EOPNOTSUPP"
definition S_fsys_get_options :: int where "S_fsys_get_options = EOPNOTSUPP"
definition S_fsys_getfile :: int where "S_fsys_getfile = EOPNOTSUPP"
definition S_fsys_getpriv :: int where "S_fsys_getpriv = EOPNOTSUPP"
definition S_fsys_init :: int where "S_fsys_init = EOPNOTSUPP"
definition S_fsys_forward :: int where "S_fsys_forward = EOPNOTSUPP"

section \<open>Rights\<close>

text \<open>
  The send rights that a call gives to the task or takes from it. A port that a call returns comes
  with a send right; \<^verbatim>\<open>fsys_startup\<close> copies the right on the control port (\<^verbatim>\<open>MACH_MSG_TYPE_COPY_SEND\<close>).
\<close>

fun send_rights :: "sys_call \<Rightarrow> mach_port_t \<Rightarrow> int" where
  "send_rights (Get_bootstrap_port b) p = (if p = b then 1 else 0)"
| "send_rights (Make_send c) p = (if p = c then 1 else 0)"
| "send_rights (Fsys_startup b c realnode) p = (if p = realnode then 1 else 0)"
| "send_rights (Get_proc q) p = (if p = q then 1 else 0)"
| "send_rights (Deallocate q) p = (if p = q then - 1 else 0)"
| "send_rights (Lookup path flags node) p = (if p = node then 1 else 0)"
| "send_rights (Drop_send q) p = (if p = q then - 1 else 0)"
| "send_rights _ p = 0"

definition held_sends :: "sys_call list \<Rightarrow> mach_port_t \<Rightarrow> int" where
  "held_sends cs p = sum_list (map (\<lambda>c. send_rights c p) cs)"

definition held_receives :: "sys_call list \<Rightarrow> mach_port_t set" where
  "held_receives cs = {p. Allocate_receive p \<in> set cs}"

section \<open>The command line\<close>

definition is_netmsg_option :: "netmsg_key \<Rightarrow> bool" where
  "is_netmsg_option k \<longleftrightarrow> (case k of Key_p _ \<Rightarrow> True | Key_s \<Rightarrow> True | Key_d \<Rightarrow> True | _ \<Rightarrow> False)"

text \<open>The last port given, or the default.\<close>

definition chosen_port :: "string \<Rightarrow> netmsg_key list \<Rightarrow> string" where
  "chosen_port = foldl (\<lambda>p k. case k of Key_p arg \<Rightarrow> arg | _ \<Rightarrow> p)"

lemma parse_keys_append:
  "parse_keys (ks @ ks') s = (case parse_keys ks s of Inl e \<Rightarrow> Inl e | Inr s' \<Rightarrow> parse_keys ks' s')"
  by (induction ks arbitrary: s) (auto split: sum.splits)

lemma parse_options:
  "list_all is_netmsg_option opts \<Longrightarrow> parse_keys opts s =
     Inr (s\<lparr>targetPort := chosen_port (targetPort s) opts, serverMode := serverMode s \<or> Key_s \<in> set opts,
            debugLevel := debugLevel s + of_nat (count_list opts Key_d)\<rparr>)"
proof (induction opts arbitrary: s)
  case (Cons k opts)
  then show ?case by (cases k) (auto simp: is_netmsg_option_def chosen_port_def)
qed (simp add: chosen_port_def)

lemma command_line_eq:
  assumes "list_all is_netmsg_option opts"
  shows "parse_keys (command_keys opts args) default_options =
    (let s = \<lparr>targetPort = chosen_port ''2345'' opts, targetHost = None, exportedPath = ''/'', serverMode = Key_s \<in> set opts,
          debugLevel = of_nat (count_list opts Key_d)\<rparr>
     in case args of [] \<Rightarrow> if Key_s \<in> set opts then Inr s else Inl usage
        | [a] \<Rightarrow> Inr (if Key_s \<in> set opts then s\<lparr>exportedPath := a\<rparr> else s\<lparr>targetHost := Some a\<rparr>)
        | _ \<Rightarrow> Inl usage)"
proof (cases args)
  case Nil
  then show ?thesis
    using parse_options [OF assms, of default_options]
    by (simp add: command_keys_def parse_keys_append default_options_def)
next
  case (Cons a more_args)
  show ?thesis
  proof (cases more_args)
    case Nil
    with Cons show ?thesis
      using parse_options [OF assms, of default_options]
      by (simp add: command_keys_def parse_keys_append default_options_def)
  next
    case (Cons b rest)
    have "zip args [0 ..< length args] = (a, 0) # (b, Suc 0) # zip rest [Suc (Suc 0) ..< length args]"
      unfolding \<open>args = a # more_args\<close> Cons by (simp add: upt_conv_Cons del: upt_Suc)
    then show ?thesis
      using \<open>args = a # more_args\<close> Cons parse_options [OF assms, of default_options]
      by (simp add: command_keys_def parse_keys_append default_options_def del: zip_Cons_Cons upt_Suc)
  qed
qed

section \<open>The server\<close>

lemma atoi_decimal: "atoi (decimal n) = min (int n) (2 ^ 31 - 1)"
proof -
  obtain c cs where d: "decimal n = c # cs" by (cases "decimal n") simp_all
  then have "digit c \<noteq> None" using decimal_digits [of n] by simp
  from digit_plain [OF this] have c: "c \<noteq> CHR ''-''" "c \<noteq> CHR ''+''" "\<not> is_space c" by simp_all
  have "takeWhile (\<lambda>c. digit c \<noteq> None) (decimal n) = decimal n"
    using decimal_digits [of n] by (simp add: list_all_iff takeWhile_eq_all_conv)
  then show ?thesis using c number_decimal [of n] by (simp add: atoi_def d Let_def)
qed

lemma accept_loop_eq:
  "accept_loop accepts cs =
     (let ok = takeWhile (\<lambda>fd. 0 \<le> fd) accepts; bad = dropWhile (\<lambda>fd. 0 \<le> fd) accepts;
          cs' = cs @ concat (map (\<lambda>fd. [Accept fd, New_session fd]) ok)
      in case bad of [] \<Rightarrow> (None, cs') | fd # _ \<Rightarrow> (Some (Exit 2 ''TCP accept''), cs' @ [Accept fd]))"
  by (induction accepts arbitrary: cs) (auto simp: Let_def simp del: dropWhile_eq_Nil_conv split: list.split)

text \<open>C30: A server started with \<^verbatim>\<open>-p N\<close> listens on port \<open>N\<close> reduced modulo 65536 (the number is not checked), and
  then starts one session for every connection it accepts, in order, until a call of \<^verbatim>\<open>accept\<close> fails, which ends the
  program and all its sessions.\<close>

theorem server_serves_connections:
  assumes "list_all is_netmsg_option opts" and "Key_s \<in> set opts" and "length args \<le> 1"
    and "chosen_port ''2345'' opts = decimal n" and "n < 2 ^ 31"
    and "socket H [] = fd" and "0 \<le> fd" and "\<And>cs port. 0 \<le> bind_socket H cs fd port" and "\<And>cs. 0 \<le> listen_socket H cs fd"
  shows "netmsg_main H opts args accepts =
    (let start = [Socket fd, Bind fd (of_nat (n mod 65536)), Listen fd 10];
         sessions = concat (map (\<lambda>fd. [Accept fd, New_session fd]) (takeWhile (\<lambda>fd. 0 \<le> fd) accepts))
     in case dropWhile (\<lambda>fd. 0 \<le> fd) accepts of
          [] \<Rightarrow> (None, start @ sessions)
        | bad # _ \<Rightarrow> (Some (Exit 2 ''TCP accept''), start @ sessions @ [Accept bad]))"
proof -
  from assms(3) consider "args = []" | a where "args = [a]" by (cases args) auto
  then obtain s where s: "parse_keys (command_keys opts args) default_options = Inr s" "serverMode s" "targetPort s = decimal n"
    by cases (use command_line_eq [OF assms(1), of args] assms(2,4) in \<open>auto simp: Let_def\<close>)
  have "of_int (atoi (decimal n)) = (of_nat n :: 16 word)" using assms(5) by (simp add: atoi_decimal min_def)
  also have "\<dots> = of_nat (n mod 65536)" by (simp add: word_of_nat_eq_iff take_bit_eq_mod)
  finally show ?thesis
    using s assms(6,7) assms(8,9) by (simp add: netmsg_main_def tcpServer_def Let_def accept_loop_eq not_less del: dropWhile_eq_Nil_conv split: list.split)
qed

definition good_host :: host where
  "good_host = \<lparr>getaddrinfo = (\<lambda>h p. (0, [(0x7F000001, 2345)])), socket = (\<lambda>cs. 3), connect = (\<lambda>cs fd a. 0), bind_socket = (\<lambda>cs fd p. 0),
     listen_socket = (\<lambda>cs fd. 0), bootstrap_port = 20, allocates_port = (\<lambda>cs. 30), fsys_startup = (\<lambda>b c. (0, 40)),
     getproc = 50, proc_mark_important = (\<lambda>p. EPERM), file_name_lookup = (\<lambda>cs f fl. 60), errno = (\<lambda>cs. 0x40000002)\<rparr>"

lemma server_serves_connections_witness:
  "netmsg_main good_host [Key_s, Key_p (decimal 70000)] [] [5, 6, - 1] =
     (Some (Exit 2 ''TCP accept''), [Socket 3, Bind 3 4464, Listen 3 10, Accept 5, New_session 5, Accept 6, New_session 6, Accept (- 1)])"
proof -
  have "list_all is_netmsg_option [Key_s, Key_p (decimal 70000)]" by (simp add: is_netmsg_option_def)
  moreover have "chosen_port ''2345'' [Key_s, Key_p (decimal 70000)] = decimal 70000" by (simp add: chosen_port_def)
  ultimately show ?thesis
    using server_serves_connections [of "[Key_s, Key_p (decimal 70000)]" "[]" 70000 good_host 3 "[5, 6, - 1]"]
    by (simp add: good_host_def)
qed

section \<open>The translator\<close>

lemma held_sends_append: "held_sends (xs @ ys) p = held_sends xs p + held_sends ys p"
  by (simp add: held_sends_def)

lemma tcpClient_calls:
  "tcpClient H opts h cs = (r, cs') \<Longrightarrow> \<exists>more. cs' = cs @ more \<and> (\<forall>p. held_sends more p = 0) \<and> held_receives more = {}"
  by (auto simp: tcpClient_def Let_def held_sends_def held_receives_def split: prod.splits if_splits list.splits)

text \<open>When the translator has started up and connected to the server, it has given up its rights on the
  bootstrap port, the underlying node and the process server; on its control port it holds, besides the receive
  right, the send right that it made for the reply to its parent. (The comment in the code says that the receive right
  is all it keeps; a task that holds a send right never gets a NO SENDERS notification for the port.)\<close>

theorem translator_keeps_send_right:
  assumes "list_all is_netmsg_option opts" and "Key_s \<notin> set opts"
    and "netmsg_main H opts [h] accepts = (None, cs)"
    and "distinct [bootstrap_port H, allocates_port H [Get_bootstrap_port (bootstrap_port H)], realnode, getproc H]"
    and "snd (fsys_startup H (bootstrap_port H) (allocates_port H [Get_bootstrap_port (bootstrap_port H)])) = realnode"
  shows "held_receives cs = {allocates_port H [Get_bootstrap_port (bootstrap_port H)]} \<and>
    (\<forall>p. held_sends cs p = (if p = allocates_port H [Get_bootstrap_port (bootstrap_port H)] then 1 else 0))"
proof -
  let ?b = "bootstrap_port H" let ?c = "allocates_port H [Get_bootstrap_port ?b]"
  let ?start = "[Get_bootstrap_port ?b, Allocate_receive ?c, Make_send ?c, Fsys_startup ?b ?c realnode, Deallocate ?b,
    Deallocate realnode, Get_proc (getproc H), Mark_important (getproc H), Deallocate (getproc H)]"
  from assms(3) command_line_eq [OF assms(1), of "[h]"] assms(2)
  obtain s where "startAsTranslator H s [] = (None, cs)" by (auto simp: netmsg_main_def Let_def)
  then have "tcpClient H s (the (targetHost s)) ?start = (None, cs)"
    using assms(5) by (auto simp: startAsTranslator_def Let_def split: prod.splits if_splits)
  from tcpClient_calls [OF this] obtain calls where "cs = ?start @ calls" "\<forall>p. held_sends calls p = 0" "held_receives calls = {}"
    by blast
  moreover have "held_sends ?start p = (if p = ?c then 1 else 0)" for p
    using assms(4) by (auto simp: held_sends_def)
  moreover have "held_receives ?start = {?c}" by (auto simp: held_receives_def)
  moreover have "held_receives (xs @ ys) = held_receives xs \<union> held_receives ys" for xs ys by (auto simp: held_receives_def)
  ultimately show ?thesis by (simp only: held_sends_append) simp
qed

lemma translator_keeps_send_right_witness:
  "\<exists>cs. netmsg_main good_host [] [''example''] [] = (None, cs) \<and> held_receives cs = {30} \<and> held_sends cs 30 = 1"
proof -
  have "netmsg_main good_host [] [''example''] [] = (None, snd (netmsg_main good_host [] [''example''] []))" by code_simp
  moreover have "distinct [bootstrap_port good_host, allocates_port good_host [Get_bootstrap_port (bootstrap_port good_host)], 40, getproc good_host]"
    "snd (fsys_startup good_host (bootstrap_port good_host) (allocates_port good_host [Get_bootstrap_port (bootstrap_port good_host)])) = 40"
    by (simp_all add: good_host_def)
  ultimately show ?thesis
    using translator_keeps_send_right [of "[]" good_host "''example''" "[]" "snd (netmsg_main good_host [] [''example''] [])" 40]
    by (auto simp: good_host_def)
qed

section \<open>The file system server\<close>

text \<open>
  \<^verbatim>\<open>fsys_getroot\<close> keeps no right: on success the right on the node is moved into the reply and that on
  the parent directory is dropped; on failure nothing is dropped, and the caller destroys the
  request.
\<close>

lemma fsys_getroot_rights:
  assumes "S_fsys_getroot H opts dotdotnode flags cs = (r, cs')" and "dotdotnode \<noteq> file_name_lookup H cs (exportedPath opts) flags"
  shows "case r of
      Inr rep \<Rightarrow> ret rep \<noteq> MACH_PORT_NULL \<and> held_sends cs' dotdotnode = held_sends cs dotdotnode - 1 \<and>
        held_sends cs' (ret rep) = held_sends cs (ret rep) + 1
    | Inl err \<Rightarrow> file_name_lookup H cs (exportedPath opts) flags = MACH_PORT_NULL \<and>
        held_sends cs' dotdotnode = held_sends cs dotdotnode"
  using assms by (auto simp: S_fsys_getroot_def Let_def held_sends_append held_sends_def split: if_splits)

end
