(* ===== verification/Run_Queues.thy ===== *)
theory Run_Queues
  imports Mach_Types
begin

text \<open>
  \<^verbatim>\<open>class RunQueues\<close> of \<open>src/netmsg/netmsg.cc\<close>: one queue of messages for each port; the first
  message put on an empty queue starts a thread that handles the messages of the queue until it
  is empty.

  The threads and the one thread that pushes take small steps: \<^verbatim>\<open>push_back\<close> tests whether the
  queue is empty and then appends; \<^verbatim>\<open>run\<close> takes the front, calls the handler, pops, and tests for
  the end. The parameter \<open>locks\<close> says whether the declarations \<^verbatim>\<open>std::unique_lock<std::mutex> lk;\<close>
  exclude the other threads from the rest of their block. As written they do not: a
  default-constructed lock is attached to no mutex. So the code is \<open>locks = False\<close>, and
  \<open>locks = True\<close> is what the comment of the class says (``all protected by a mutex lock'').

  \<open>pushed\<close> and \<open>handled\<close> record what went in and what the handler was called with.
\<close>

datatype 'm phase = Ready | Handling 'm | Handled 'm | Popped | Ended

datatype 'm push_phase = Idle | Tested mach_port_t 'm bool

datatype holder = Free | Pusher | Thread nat

record 'm run_queues =
  queue_of :: "mach_port_t \<Rightarrow> 'm list"
  threads :: "(mach_port_t \<times> 'm phase) list"
  pusher :: "'m push_phase"
  mutex :: holder
  pushed :: "(mach_port_t \<times> 'm) list"
  handled :: "(mach_port_t \<times> 'm) list"

definition new_run_queues :: "'m run_queues" where
  "new_run_queues = \<lparr>queue_of = (\<lambda>_. []), threads = [], pusher = Idle, mutex = Free, pushed = [], handled = []\<rparr>"

section \<open>Operations\<close>

text \<open>\<^verbatim>\<open>push_back\<close>: the test, then the rest.\<close>

definition push_test :: "bool \<Rightarrow> mach_port_t \<Rightarrow> 'm \<Rightarrow> 'm run_queues \<Rightarrow> 'm run_queues" where
  "push_test locks p m s = s\<lparr>pusher := Tested p m (queue_of s p = []), mutex := (if locks then Pusher else mutex s)\<rparr>"

definition push_append :: "bool \<Rightarrow> mach_port_t \<Rightarrow> 'm \<Rightarrow> bool \<Rightarrow> 'm run_queues \<Rightarrow> 'm run_queues" where
  "push_append locks p m was_empty s =
     s\<lparr>queue_of := (queue_of s)(p := queue_of s p @ [m]),
       threads := threads s @ (if was_empty then [(p, Ready)] else []),
       pusher := Idle, mutex := (if locks then Free else mutex s), pushed := pushed s @ [(p, m)]\<rparr>"

definition set_phase :: "nat \<Rightarrow> mach_port_t \<Rightarrow> 'm phase \<Rightarrow> 'm run_queues \<Rightarrow> 'm run_queues" where
  "set_phase i p ph s = s\<lparr>threads := (threads s)[i := (p, ph)]\<rparr>"

text \<open>\<^verbatim>\<open>run\<close>: \<^verbatim>\<open>assert(! at(port).empty()); netmsg = at(port).front()\<close>\<close>

definition run_front :: "nat \<Rightarrow> mach_port_t \<Rightarrow> 'm run_queues \<Rightarrow> 'm run_queues result" where
  "run_front i p s = (case queue_of s p of [] \<Rightarrow> Inl (Assert_failed ''! at(port).empty()'')
     | m # _ \<Rightarrow> Inr (set_phase i p (Handling m) s))"

text \<open>The call of the handler.\<close>

definition run_handle :: "nat \<Rightarrow> mach_port_t \<Rightarrow> 'm \<Rightarrow> 'm run_queues \<Rightarrow> 'm run_queues" where
  "run_handle i p m s = set_phase i p (Handled m) (s\<lparr>handled := handled s @ [(p, m)]\<rparr>)"

text \<open>\<^verbatim>\<open>at(port).pop_front()\<close>, which must not be called on an empty queue.\<close>

definition run_pop :: "bool \<Rightarrow> nat \<Rightarrow> mach_port_t \<Rightarrow> 'm run_queues \<Rightarrow> 'm run_queues result" where
  "run_pop locks i p s = (case queue_of s p of [] \<Rightarrow> Inl (Out_of_range ''pop_front'')
     | _ # q \<Rightarrow> Inr (set_phase i p Popped
         (s\<lparr>queue_of := (queue_of s)(p := q), mutex := (if locks then Thread i else mutex s)\<rparr>)))"

text \<open>\<^verbatim>\<open>empty = at(port).empty()\<close> and the loop condition.\<close>

definition run_test :: "bool \<Rightarrow> nat \<Rightarrow> mach_port_t \<Rightarrow> 'm run_queues \<Rightarrow> 'm run_queues" where
  "run_test locks i p s = set_phase i p (if queue_of s p = [] then Ended else Ready)
     (s\<lparr>mutex := (if locks then Free else mutex s)\<rparr>)"

section \<open>Steps\<close>

inductive rq_step :: "bool \<Rightarrow> 'm run_queues \<Rightarrow> 'm run_queues \<Rightarrow> bool" for locks where
  push_test: "pusher s = Idle \<Longrightarrow> locks \<longrightarrow> mutex s = Free \<Longrightarrow> rq_step locks s (push_test locks p m s)"
| push_append: "pusher s = Tested p m e \<Longrightarrow> rq_step locks s (push_append locks p m e s)"
| front: "i < length (threads s) \<Longrightarrow> threads s ! i = (p, Ready) \<Longrightarrow> locks \<longrightarrow> mutex s = Free \<Longrightarrow>
    run_front i p s = Inr s' \<Longrightarrow> rq_step locks s s'"
| handle: "i < length (threads s) \<Longrightarrow> threads s ! i = (p, Handling m) \<Longrightarrow> rq_step locks s (run_handle i p m s)"
| pop: "i < length (threads s) \<Longrightarrow> threads s ! i = (p, Handled m) \<Longrightarrow> locks \<longrightarrow> mutex s = Free \<Longrightarrow>
    run_pop locks i p s = Inr s' \<Longrightarrow> rq_step locks s s'"
| test: "i < length (threads s) \<Longrightarrow> threads s ! i = (p, Popped) \<Longrightarrow> rq_step locks s (run_test locks i p s)"

inductive rq_reachable :: "bool \<Rightarrow> 'm run_queues \<Rightarrow> bool" for locks where
  start: "rq_reachable locks new_run_queues"
| step: "rq_reachable locks s \<Longrightarrow> rq_step locks s s' \<Longrightarrow> rq_reachable locks s'"

section \<open>The invariant with the lock\<close>

definition to_port :: "mach_port_t \<Rightarrow> (mach_port_t \<times> 'm) list \<Rightarrow> 'm list" where
  "to_port p xs = map snd (filter (\<lambda>(q, m). q = p) xs)"

lemma to_port_simps [simp]: "to_port p [] = []" "to_port p (xs @ ys) = to_port p xs @ to_port p ys"
  "to_port p [(q, m)] = (if q = p then [m] else [])"
  by (simp_all add: to_port_def)

definition live :: "'m run_queues \<Rightarrow> mach_port_t \<Rightarrow> nat \<Rightarrow> 'm phase \<Rightarrow> bool" where
  "live s p i ph \<longleftrightarrow> i < length (threads s) \<and> threads s ! i = (p, ph) \<and> ph \<noteq> Ended"

text \<open>What holds of the queue of a port while a thread is at work on it.\<close>

fun at_work :: "'m phase \<Rightarrow> 'm list \<Rightarrow> 'm list \<Rightarrow> 'm list \<Rightarrow> bool" where
  "at_work Ready q ins outs \<longleftrightarrow> q \<noteq> [] \<and> ins = outs @ q"
| "at_work (Handling m) q ins outs \<longleftrightarrow> q \<noteq> [] \<and> hd q = m \<and> ins = outs @ q"
| "at_work (Handled m) q ins outs \<longleftrightarrow> q \<noteq> [] \<and> ins = outs @ tl q"
| "at_work Popped q ins outs \<longleftrightarrow> ins = outs @ q"
| "at_work Ended q ins outs \<longleftrightarrow> True"

definition rq_ok :: "'m run_queues \<Rightarrow> bool" where
  "rq_ok s \<longleftrightarrow>
     (\<forall>p i j ph ph'. live s p i ph \<longrightarrow> live s p j ph' \<longrightarrow> i = j) \<and>
     (\<forall>p i ph. live s p i ph \<longrightarrow> at_work ph (queue_of s p) (to_port p (pushed s)) (to_port p (handled s))) \<and>
     (\<forall>p. (\<forall>i ph. \<not> live s p i ph) \<longrightarrow> queue_of s p = [] \<and> to_port p (pushed s) = to_port p (handled s)) \<and>
     (\<forall>p i. live s p i Popped \<longrightarrow> mutex s = Thread i) \<and>
     (\<forall>p m e. pusher s = Tested p m e \<longrightarrow> mutex s = Pusher \<and> (e \<longleftrightarrow> queue_of s p = []))"

lemma rq_okD:
  assumes "rq_ok s"
  shows "live s p i ph \<Longrightarrow> live s p j ph' \<Longrightarrow> i = j"
    and "live s p i ph \<Longrightarrow> at_work ph (queue_of s p) (to_port p (pushed s)) (to_port p (handled s))"
    and "(\<And>i ph. \<not> live s p i ph) \<Longrightarrow> queue_of s p = [] \<and> to_port p (pushed s) = to_port p (handled s)"
    and "live s p i Popped \<Longrightarrow> mutex s = Thread i"
    and "pusher s = Tested p m e \<Longrightarrow> mutex s = Pusher \<and> (e \<longleftrightarrow> queue_of s p = [])"
  using assms unfolding rq_ok_def by blast+

lemma live_phase: "live s p i ph \<Longrightarrow> live s q i ph' \<Longrightarrow> q = p \<and> ph' = ph"
  by (auto simp: live_def)

lemma live_update:
  assumes "threads s' = (threads s)[i := (p, ph')]" and "live s p i ph"
  shows "live s' q j ph2 \<longleftrightarrow> (if j = i then q = p \<and> ph2 = ph' \<and> ph' \<noteq> Ended else live s q j ph2)"
  using assms by (auto simp: live_def nth_list_update)

text \<open>A thread goes on to its next phase.\<close>

lemma rq_ok_advance:
  assumes ok: "rq_ok s" and l: "live s p i ph" and t: "threads s' = (threads s)[i := (p, ph')]"
    and q: "\<And>q. q \<noteq> p \<Longrightarrow> queue_of s' q = queue_of s q" and pu: "pushed s' = pushed s"
    and h: "\<And>q. q \<noteq> p \<Longrightarrow> to_port q (handled s') = to_port q (handled s)"
    and w: "at_work ph' (queue_of s' p) (to_port p (pushed s)) (to_port p (handled s'))"
    and e: "ph' = Ended \<Longrightarrow> queue_of s' p = [] \<and> to_port p (pushed s) = to_port p (handled s')"
    and po: "ph' = Popped \<Longrightarrow> mutex s' = Thread i"
    and mu: "\<And>q j. j \<noteq> i \<Longrightarrow> live s q j Popped \<Longrightarrow> mutex s' = Thread j"
    and pt: "pusher s' = pusher s"
    and pb: "\<And>q m b. pusher s = Tested q m b \<Longrightarrow> mutex s' = Pusher \<and> (b \<longleftrightarrow> queue_of s' q = [])"
  shows "rq_ok s'"
proof -
  note lu = live_update [OF t l] and D = rq_okD [OF ok]
  have only: "j = i" if "live s p j ph2" for j ph2 using D(1) [OF that l] .
  have "queue_of s' r = [] \<and> to_port r (pushed s') = to_port r (handled s')" if "\<forall>j ph2. \<not> live s' r j ph2" for r
  proof (cases "r = p")
    case True
    with that have "\<not> live s' p i ph'" by simp
    then have "ph' = Ended" by (simp add: lu)
    with e True pu show ?thesis by simp
  next
    case False
    with that have "\<not> live s r j ph2" for j ph2 using live_phase [OF l] by (metis lu)
    with D(3) [of r] False q h pu show ?thesis by simp
  qed
  moreover have "at_work ph2 (queue_of s' r) (to_port r (pushed s')) (to_port r (handled s'))" if "live s' r j ph2" for r j ph2
  proof (cases "j = i")
    case False
    with that have "live s r j ph2" "r \<noteq> p" using only by (auto simp: lu)
    with D(2) q h pu show ?thesis by simp
  qed (use that w pu in \<open>simp add: lu\<close>)
  moreover have "j = k" if "live s' r j ph2" "live s' r k ph3" for r j k ph2 ph3
    using that D(1) only by (auto simp: lu split: if_splits)
  moreover have "mutex s' = Thread j" if "live s' r j Popped" for r j
    using that po mu by (auto simp: lu split: if_splits)
  ultimately show ?thesis using pt pb unfolding rq_ok_def by simp
qed

lemma live_ok: "i < length (threads s) \<Longrightarrow> threads s ! i = (p, ph) \<Longrightarrow> ph \<noteq> Ended \<Longrightarrow> live s p i ph"
  by (simp add: live_def)

lemma mutex_holders:
  assumes "rq_ok s"
  shows "mutex s = Free \<Longrightarrow> \<not> live s q j Popped" "mutex s = Free \<Longrightarrow> pusher s \<noteq> Tested q m b"
    "mutex s = Thread i \<Longrightarrow> live s q j Popped \<Longrightarrow> j = i" "mutex s = Thread i \<Longrightarrow> pusher s \<noteq> Tested q m b"
  using rq_okD(4,5) [OF assms] by fastforce+

lemma rq_ok_front:
  assumes "rq_ok s" and "live s p i Ready" and "mutex s = Free" and "run_front i p s = Inr s'"
  shows "rq_ok s'"
proof -
  from assms(4) obtain m q where q: "queue_of s p = m # q" and s': "s' = set_phase i p (Handling m) s"
    by (auto simp: run_front_def split: list.splits)
  note h = mutex_holders [OF assms(1)] and w = rq_okD(2) [OF assms(1,2)]
  show ?thesis
    unfolding s' by (rule rq_ok_advance [OF assms(1,2)]) (use q h w assms(3) in \<open>auto simp: set_phase_def\<close>)
qed

lemma rq_ok_handle:
  assumes "rq_ok s" and "live s p i (Handling m)"
  shows "rq_ok (run_handle i p m s)"
proof -
  note D = rq_okD(4,5) [OF assms(1)] and w = rq_okD(2) [OF assms]
  from w obtain q where "queue_of s p = m # q" by (cases "queue_of s p") auto
  with w show ?thesis
    by (intro rq_ok_advance [OF assms]) (auto simp: run_handle_def set_phase_def dest: D)
qed

lemma rq_ok_pop:
  assumes "rq_ok s" and "live s p i (Handled m)" and "mutex s = Free" and "run_pop True i p s = Inr s'"
  shows "rq_ok s'"
proof -
  from assms(4) obtain m' q where q: "queue_of s p = m' # q"
    and s': "s' = set_phase i p Popped (s\<lparr>queue_of := (queue_of s)(p := q), mutex := Thread i\<rparr>)"
    by (auto simp: run_pop_def split: list.splits)
  note h = mutex_holders [OF assms(1)] and w = rq_okD(2) [OF assms(1,2)]
  show ?thesis
    unfolding s' by (rule rq_ok_advance [OF assms(1,2)]) (use q h w assms(3) in \<open>auto simp: set_phase_def\<close>)
qed

lemma rq_ok_test:
  assumes "rq_ok s" and "live s p i Popped"
  shows "rq_ok (run_test True i p s)"
proof -
  note h = mutex_holders(3,4) [OF assms(1) rq_okD(4) [OF assms]] and w = rq_okD(2) [OF assms]
  show ?thesis
    by (rule rq_ok_advance [OF assms]) (use h w in \<open>auto simp: run_test_def set_phase_def split: if_splits\<close>)
qed

lemma rq_ok_push_test:
  assumes "rq_ok s" and "mutex s = Free"
  shows "rq_ok (push_test True p m s)"
proof -
  have "live (push_test True p m s) = live s" by (intro ext) (simp add: live_def push_test_def)
  then show ?thesis
    using rq_okD [OF assms(1)] mutex_holders(1) [OF assms]
    unfolding rq_ok_def by (simp add: push_test_def)
qed

lemma live_push_append:
  "live (push_append locks p m e s) q i ph \<longleftrightarrow> live s q i ph \<or> (e \<and> q = p \<and> i = length (threads s) \<and> ph = Ready)"
  by (auto simp: live_def push_append_def nth_append less_Suc_eq)

lemma at_work_append: "ph \<noteq> Popped \<Longrightarrow> at_work ph q ins outs \<Longrightarrow> at_work ph (q @ [m]) (ins @ [m]) outs"
  by (cases ph) auto

lemma rq_ok_push_append:
  assumes ok: "rq_ok s" and "pusher s = Tested p m e"
  shows "rq_ok (push_append True p m e s)"
proof -
  note D = rq_okD [OF ok]
  have mu: "mutex s = Pusher" and e: "e \<longleftrightarrow> queue_of s p = []" using D(5) [OF assms(2)] by auto
  have np: "ph \<noteq> Popped" if "live s q i ph" for q i ph using D(4) mu that by fastforce
  have none: "\<not> live s p i ph" if e for i ph
  proof
    assume l: "live s p i ph"
    show False using D(2) [OF l] np [OF l] that e l by (cases ph) (auto simp: live_def)
  qed
  have some: "\<exists>i ph. live s p i ph" if "\<not> e" using D(3) [of p] e that by blast
  let ?s = "push_append True p m e s"
  have f: "queue_of ?s = (queue_of s)(p := queue_of s p @ [m])" "mutex ?s = Free" "pusher ?s = Idle"
    "pushed ?s = pushed s @ [(p, m)]" "handled ?s = handled s" by (simp_all add: push_append_def)
  have "at_work ph (queue_of ?s q) (to_port q (pushed ?s)) (to_port q (handled ?s))" if "live ?s q i ph" for q i ph
  proof (cases "live s q i ph")
    case True
    from D(2) [OF True] np [OF True] show ?thesis by (auto simp: f at_work_append)
  next
    case False
    with that have "e" "q = p" "ph = Ready" by (auto simp: live_push_append)
    with none D(3) [of p] show ?thesis unfolding f by simp
  qed
  moreover have "queue_of ?s q = [] \<and> to_port q (pushed ?s) = to_port q (handled ?s)" if "\<forall>i ph. \<not> live ?s q i ph" for q
  proof -
    from that have "q \<noteq> p" using some by (cases e) (auto simp: live_push_append)
    with that D(3) [of q] show ?thesis by (simp add: f live_push_append)
  qed
  moreover have "i = j" if "live ?s q i ph" "live ?s q j ph'" for q i j ph ph'
    using that none D(1) by (auto simp: live_push_append)
  moreover have "\<not> live ?s q i Popped" for q i using np by (auto simp: live_push_append)
  ultimately show ?thesis unfolding rq_ok_def by (simp add: f)
qed

lemma rq_ok_step: "rq_step True s s' \<Longrightarrow> rq_ok s \<Longrightarrow> rq_ok s'"
  by (induction rule: rq_step.induct)
    (auto intro: rq_ok_push_test rq_ok_push_append rq_ok_front rq_ok_handle rq_ok_pop rq_ok_test live_ok)

lemma rq_ok_reachable: "rq_reachable True s \<Longrightarrow> rq_ok s"
  by (induction rule: rq_reachable.induct)
    (auto intro: rq_ok_step, simp add: rq_ok_def new_run_queues_def live_def)

section \<open>Properties\<close>


definition one_handled :: "bool \<Rightarrow> nat run_queues" where
  "one_handled locks = run_handle 0 5 10 (set_phase 0 5 (Handling 10)
     (push_append locks 5 10 True (push_test locks 5 10 new_run_queues)))"

lemma one_handled_reachable: "rq_reachable locks (one_handled locks)"
proof -
  let ?s1 = "push_test locks 5 10 new_run_queues" let ?s2 = "push_append locks 5 10 True ?s1"
  have 1: "rq_step locks new_run_queues ?s1"
    by (rule rq_step.push_test) (simp_all add: new_run_queues_def)
  have 2: "rq_step locks ?s1 ?s2"
    by (rule rq_step.push_append) (simp add: push_test_def new_run_queues_def)
  have 3: "rq_step locks ?s2 (set_phase 0 5 (Handling 10) ?s2)"
    by (rule rq_step.front [of 0 _ 5])
      (simp_all add: push_append_def push_test_def new_run_queues_def run_front_def)
  have 4: "rq_step locks (set_phase 0 5 (Handling 10) ?s2) (one_handled locks)"
    unfolding one_handled_def
    by (rule rq_step.handle) (simp_all add: set_phase_def push_append_def push_test_def new_run_queues_def)
  note step = rq_reachable.step [where locks = locks]
  show ?thesis by (rule step [OF step [OF step [OF step [OF rq_reachable.start 1] 2] 3] 4])
qed


definition raced :: "nat run_queues" where
  "raced = (let s0 = one_handled False;
       s1 = set_phase 0 5 Popped (s0\<lparr>queue_of := (queue_of s0)(5 := [])\<rparr>);
       s2 = push_append False 5 11 True (push_test False 5 11 s1);
       s3 = run_test False 0 5 s2;
       s4 = set_phase 1 5 (Handling 11) (set_phase 0 5 (Handling 11) s3)
     in run_handle 1 5 11 (run_handle 0 5 11 s4))"

lemma raced_reachable: "rq_reachable False raced"
proof -
  let ?s0 = "one_handled False" let ?s1 = "set_phase 0 5 Popped (?s0\<lparr>queue_of := (queue_of ?s0)(5 := [])\<rparr>)"
  let ?t = "push_test False 5 11 ?s1" let ?s2 = "push_append False 5 11 True ?t" let ?s3 = "run_test False 0 5 ?s2"
  let ?a = "set_phase 0 5 (Handling 11) ?s3" let ?b = "set_phase 1 5 (Handling 11) ?a" let ?c = "run_handle 0 5 11 ?b"
  note defs = one_handled_def set_phase_def push_append_def push_test_def new_run_queues_def run_handle_def
    run_test_def run_front_def run_pop_def
  have 1: "rq_step False ?s0 ?s1" by (rule rq_step.pop [of 0 _ 5 10]) (simp_all add: defs)
  have 2: "rq_step False ?s1 ?t" by (rule rq_step.push_test) (simp_all add: defs)
  have 3: "rq_step False ?t ?s2" by (rule rq_step.push_append) (simp add: defs)
  have 4: "rq_step False ?s2 ?s3" by (rule rq_step.test) (simp_all add: defs)
  have 5: "rq_step False ?s3 ?a" by (rule rq_step.front [of 0 _ 5]) (simp_all add: defs)
  have 6: "rq_step False ?a ?b" by (rule rq_step.front [of 1 _ 5]) (simp_all add: defs)
  have 7: "rq_step False ?b ?c" by (rule rq_step.handle) (simp_all add: defs)
  have 8: "rq_step False ?c raced" unfolding raced_def Let_def by (rule rq_step.handle) (simp_all add: defs)
  note step = rq_reachable.step [where locks = False]
  show ?thesis
    by (rule step [OF step [OF step [OF step [OF step [OF step [OF step [OF step
      [OF one_handled_reachable 1] 2] 3] 4] 5] 6] 7] 8])
qed

text \<open>As the code is, without the lock, a message can be handled twice: a push between the removal of the
  last message and the test for the end starts a second thread, and the first one goes on.\<close>

theorem run_queues_race:
  "\<exists>s :: nat run_queues. rq_reachable False s \<and> to_port 5 (pushed s) = [10, 11] \<and> to_port 5 (handled s) = [10, 11, 11]"
proof -
  have "to_port 5 (pushed raced) = [10, 11]" "to_port 5 (handled raced) = [10, 11, 11]" by code_simp+
  with raced_reachable show ?thesis by blast
qed

end
